(* ===== verification/Prelude.thy ===== *)
theory Prelude
  imports Main "HOL-Library.Finite_Map" "HOL-Library.Char_ord" "HOL-Library.List_Lexorder"
    "HOL-Library.Sublist"
begin

text \<open>
  Shared vocabulary of the development: the types that stand for Go's strings, byte slices and
  maps, the collections of rewrite rules the component theories fill, and generic facts on lists,
  options, finite maps and characters.

  A Go \<open>string\<close> and a Go \<open>[]byte\<close> are both sequences of 8-bit values, so both are
  HOL's \<open>string\<close> (a list of 8-bit \<open>char\<close>s); \<open>length\<close> counts bytes as
  \<open>len\<close> does.  A Go map is a finite map (\<open>fmap\<close>); the order in which
  \<open>slices.Sorted\<close> lists its keys is the byte-lexicographic order of
  \<open>HOL-Library.List_Lexorder\<close>.
\<close>

type_synonym bytes = string

named_theorems go_defs \<open>definitions of the model that proofs unfold\<close>
named_theorems go_split \<open>case splits on the results of fallible operations\<close>

declare sum.splits [go_split] option.splits [go_split]

subsection \<open>Characters as byte values\<close>

abbreviation byte :: "char \<Rightarrow> nat" where
  "byte c \<equiv> of_char c"

lemma byte_less_256 [simp]: "byte c < 256"
  by (rule of_char_mod_256 [of c, THEN subst, where P = "\<lambda>n. n < 256"]) simp

lemma byte_le_255 [simp]: "byte c \<le> 255"
  using byte_less_256 [of c] by linarith

lemma byte_eq_iff: "byte c = byte d \<longleftrightarrow> c = d"
  by simp

lemma byte_char_of [simp]: "n < 256 \<Longrightarrow> byte (char_of n) = (n::nat)"
  by (simp add: of_char_of take_bit_eq_mod)

lemma char_of_eq_iff: "n < 256 \<Longrightarrow> char_of (n::nat) = c \<longleftrightarrow> n = byte c"
  by auto

subsection \<open>Finite maps\<close>

definition sortedKeys :: "('k::linorder, 'v) fmap \<Rightarrow> 'k list" where
  "sortedKeys m = sorted_list_of_fset (fmdom m)"

lemma set_sortedKeys [simp]: "set (sortedKeys m) = fmdom' m"
  by (simp add: sortedKeys_def fmdom'_alt_def)

lemma sorted_sortedKeys [simp]: "sorted (sortedKeys m)"
  by (simp add: sortedKeys_def sorted_list_of_fset.rep_eq)

lemma distinct_sortedKeys [simp]: "distinct (sortedKeys m)"
  by (simp add: sortedKeys_def sorted_list_of_fset.rep_eq)

lemma length_sortedKeys [simp]: "length (sortedKeys m) = fcard (fmdom m)"
  by (simp add: sortedKeys_def sorted_list_of_fset.rep_eq fcard.rep_eq)

definition fmget :: "('k, ('j, 'v) fmap) fmap \<Rightarrow> 'k \<Rightarrow> ('j, 'v) fmap" where
  "fmget m k = (case fmlookup m k of None \<Rightarrow> fmempty | Some c \<Rightarrow> c)"

lemma fmget_simps [simp]:
  "fmget fmempty k = fmempty"
  "fmget (fmupd k c m) k' = (if k = k' then c else fmget m k')"
  "fmget (fmdrop k m) k' = (if k = k' then fmempty else fmget m k')"
  by (auto simp: fmget_def)

subsection \<open>Lists\<close>

lemma map_option_eq_Some_conv: "map_option f x = Some y \<longleftrightarrow> (\<exists>z. x = Some z \<and> y = f z)"
  by (cases x) auto

lemma foldl_append_invariant:
  assumes "P s" and "\<And>s x. P s \<Longrightarrow> x \<in> set xs \<Longrightarrow> P (f s x)"
  shows "P (foldl f s xs)"
  using assms by (induction xs arbitrary: s) auto

end
