(* ===== verification/Utf8.thy ===== *)
theory Utf8
  imports Prelude
begin

text \<open>
  The part of Go's \<open>unicode/utf8\<close> the program uses: \<open>DecodeRune\<close>,
  \<open>EncodeRune\<close> and \<open>Valid\<close>.  A rune is a natural number.  \<open>DecodeRune\<close>
  reports an invalid sequence as the replacement character with width one, so a caller tells
  an invalid byte from a real U+FFFD by the width.
\<close>

definition runeError :: nat where
  "runeError = 0xFFFD"

definition cont :: "nat \<Rightarrow> nat \<Rightarrow> char \<Rightarrow> bool" where
  "cont lo hi c \<longleftrightarrow> lo \<le> byte c \<and> byte c \<le> hi"

text \<open>The payload of a continuation byte.\<close>

definition low6 :: "char \<Rightarrow> nat" where
  "low6 c = byte c mod 64"

definition decode2 :: "nat \<Rightarrow> bytes \<Rightarrow> nat \<times> nat" where
  "decode2 b0 cs = (case cs of
     c1 # _ \<Rightarrow> if cont 0x80 0xBF c1 then ((b0 mod 32) * 64 + low6 c1, 2) else (runeError, 1)
   | _ \<Rightarrow> (runeError, 1))"

definition decode3 :: "nat \<Rightarrow> bytes \<Rightarrow> nat \<times> nat" where
  "decode3 b0 cs = (case cs of
     c1 # c2 # _ \<Rightarrow>
       if cont (if b0 = 0xE0 then 0xA0 else 0x80) (if b0 = 0xED then 0x9F else 0xBF) c1
          \<and> cont 0x80 0xBF c2
       then ((b0 mod 16) * 4096 + low6 c1 * 64 + low6 c2, 3) else (runeError, 1)
   | _ \<Rightarrow> (runeError, 1))"

definition decode4 :: "nat \<Rightarrow> bytes \<Rightarrow> nat \<times> nat" where
  "decode4 b0 cs = (case cs of
     c1 # c2 # c3 # _ \<Rightarrow>
       if cont (if b0 = 0xF0 then 0x90 else 0x80) (if b0 = 0xF4 then 0x8F else 0xBF) c1
          \<and> cont 0x80 0xBF c2 \<and> cont 0x80 0xBF c3
       then ((b0 mod 8) * 262144 + low6 c1 * 4096 + low6 c2 * 64 + low6 c3, 4)
       else (runeError, 1)
   | _ \<Rightarrow> (runeError, 1))"

fun decodeRune :: "bytes \<Rightarrow> nat \<times> nat" where
  "decodeRune [] = (runeError, 0)"
| "decodeRune (c # cs) =
     (if byte c < 0x80 then (byte c, 1)
      else if 0xC2 \<le> byte c \<and> byte c \<le> 0xDF then decode2 (byte c) cs
      else if 0xE0 \<le> byte c \<and> byte c \<le> 0xEF then decode3 (byte c) cs
      else if 0xF0 \<le> byte c \<and> byte c \<le> 0xF4 then decode4 (byte c) cs
      else (runeError, 1))"

definition encodeRune :: "nat \<Rightarrow> bytes" where
  "encodeRune r =
     (if r < 0x80 then [char_of r]
      else if r < 0x800 then [char_of (0xC0 + r div 64), char_of (0x80 + r mod 64)]
      else if 0x10FFFF < r \<or> 0xD800 \<le> r \<and> r \<le> 0xDFFF then
        [char_of (0xEF::nat), char_of (0xBF::nat), char_of (0xBD::nat)]
      else if r < 0x10000 then
        [char_of (0xE0 + r div 4096), char_of (0x80 + r div 64 mod 64),
         char_of (0x80 + r mod 64)]
      else
        [char_of (0xF0 + r div 262144), char_of (0x80 + r div 4096 mod 64),
         char_of (0x80 + r div 64 mod 64), char_of (0x80 + r mod 64)])"

text \<open>\<open>DecodeRune\<close> reported an encoding error.\<close>

definition badRune :: "bytes \<Rightarrow> bool" where
  "badRune s \<longleftrightarrow> decodeRune s = (runeError, 1)"

lemmas decode_defs = decode2_def decode3_def decode4_def cont_def low6_def runeError_def

lemma decodeRune_width:
  assumes "decodeRune (c # cs) = (r, n)"
  shows "1 \<le> n" "n \<le> length (c # cs)"
  using assms
  by (auto simp: decode2_def decode3_def decode4_def split: if_splits list.splits)

lemma decodeRune_drop_less [simp]:
  "length (drop (snd (decodeRune (c # cs))) (c # cs)) < length (c # cs)"
  using decodeRune_width(1) [of c cs "fst (decodeRune (c # cs))" "snd (decodeRune (c # cs))"]
  by (simp del: decodeRune.simps)

declare decodeRune.simps(2) [simp del]

function validUTF8 :: "bytes \<Rightarrow> bool" where
  "validUTF8 [] = True"
| "validUTF8 (c # cs) =
     (if badRune (c # cs) then False
      else validUTF8 (drop (snd (decodeRune (c # cs))) (c # cs)))"
  by pat_completeness auto
termination
  by (relation "measure length") (use decodeRune_drop_less in \<open>simp_all del: length_drop\<close>)

text \<open>
  What a byte string becomes when it is decoded rune by rune and written back: every byte that
  is not part of a valid sequence turns into U+FFFD.
\<close>

function sanitize :: "bytes \<Rightarrow> bytes" where
  "sanitize [] = []"
| "sanitize (c # cs) =
     encodeRune (fst (decodeRune (c # cs))) @
     sanitize (drop (snd (decodeRune (c # cs))) (c # cs))"
  by pat_completeness auto
termination
  by (relation "measure length") (use decodeRune_drop_less in \<open>simp_all del: length_drop\<close>)

declare validUTF8.simps(2) [simp del] sanitize.simps(2) [simp del]

subsection \<open>Encoding inverts decoding\<close>

lemma byte_ascii [simp]: "byte c < 128 \<Longrightarrow> decodeRune (c # cs) = (byte c, 1)"
  by (simp add: decodeRune.simps)

lemma encode_ascii [simp]: "byte c < 128 \<Longrightarrow> encodeRune (byte c) = [c]"
  by (simp add: encodeRune_def)

lemma char_of_byteI: "n = byte c \<Longrightarrow> char_of n = c"
  by simp

lemma mod_offset:
  fixes n q k :: nat
  assumes "q * k \<le> n" "n < q * k + k"
  shows "n = q * k + n mod k"
proof -
  obtain d where d: "n = q * k + d" using assms(1) by (metis le_iff_add)
  then show ?thesis using assms(2) by simp
qed

lemma low6_less [simp]: "low6 c < 64"
  by (simp add: low6_def)

lemma cont_low6: "cont lo hi c \<Longrightarrow> 0x80 \<le> lo \<Longrightarrow> hi \<le> 0xBF \<Longrightarrow> byte c = 0x80 + low6 c"
  using mod_offset [of 2 64 "byte c"] by (simp add: cont_def low6_def)

lemma pack_div: "y < 64 \<Longrightarrow> (q * 64 + y) div 64 = (q::nat)"
  and pack_mod: "y < 64 \<Longrightarrow> (q * 64 + y) mod 64 = (y::nat)"
  by simp_all

lemma encodeRune2:
  "0x80 \<le> r \<Longrightarrow> r < 0x800 \<Longrightarrow>
     encodeRune r = [char_of (0xC0 + r div 64), char_of (0x80 + r mod 64)]"
  by (simp add: encodeRune_def)

lemma encodeRune3:
  "0x800 \<le> r \<Longrightarrow> r < 0x10000 \<Longrightarrow> r < 0xD800 \<or> 0xDFFF < r \<Longrightarrow>
     encodeRune r = [char_of (0xE0 + r div 64 div 64), char_of (0x80 + r div 64 mod 64),
       char_of (0x80 + r mod 64)]"
  unfolding encodeRune_def by (auto simp flip: div_mult2_eq)

lemma encodeRune4:
  "0x10000 \<le> r \<Longrightarrow> r \<le> 0x10FFFF \<Longrightarrow>
     encodeRune r = [char_of (0xF0 + r div 64 div 64 div 64), char_of (0x80 + r div 64 div 64 mod 64),
       char_of (0x80 + r div 64 mod 64), char_of (0x80 + r mod 64)]"
  unfolding encodeRune_def by (auto simp flip: div_mult2_eq)

lemma encode_decode2:
  assumes "0xC2 \<le> byte c" "byte c \<le> 0xDF" "cont 0x80 0xBF c1"
  shows "encodeRune ((byte c mod 32) * 64 + low6 c1) = [c, c1]"
proof -
  obtain a where a: "a = byte c mod 32" by simp
  have b: "byte c = 0xC0 + a" "a < 32"
    using mod_offset [of 6 32 "byte c"] assms(1,2) by (simp_all add: a)
  then have "2 \<le> a" using assms(1) by simp
  have l: "byte c1 = 0x80 + low6 c1" using cont_low6 [OF assms(3)] by simp
  have "low6 c1 < 64" by simp
  then have r: "0x80 \<le> a * 64 + low6 c1" "a * 64 + low6 c1 < 0x800"
    using b(2) \<open>2 \<le> a\<close> by linarith+
  have "encodeRune (a * 64 + low6 c1) = [char_of (0xC0 + a), char_of (0x80 + low6 c1)]"
    by (simp only: encodeRune2 [OF r] pack_div [OF low6_less] pack_mod [OF low6_less])
  then show ?thesis by (simp only: a [symmetric] b(1) [symmetric] l [symmetric] char_of_char)
qed

lemma encode_decode3:
  assumes "0xE0 \<le> byte c" "byte c \<le> 0xEF"
    and c1: "cont (if byte c = 0xE0 then 0xA0 else 0x80) (if byte c = 0xED then 0x9F else 0xBF) c1"
    and c2: "cont 0x80 0xBF c2"
  shows "encodeRune ((byte c mod 16) * 4096 + low6 c1 * 64 + low6 c2) = [c, c1, c2]"
proof -
  obtain a x y where axy: "a = byte c mod 16" "x = low6 c1" "y = low6 c2" by simp
  have b: "byte c = 0xE0 + a" "a < 16"
    using mod_offset [of 14 16 "byte c"] assms(1,2) by (simp_all add: axy)
  have l1: "byte c1 = 0x80 + x" "x < 64"
    using cont_low6 [OF c1] by (auto simp: axy)
  have l2: "byte c2 = 0x80 + y" "y < 64"
    using cont_low6 [OF c2] by (auto simp: axy)
  have e0: "a = 0 \<Longrightarrow> 32 \<le> x" and ed: "a = 13 \<Longrightarrow> x \<le> 31"
    using c1 by (simp_all add: cont_def b l1)
  have r: "0x800 \<le> (a * 64 + x) * 64 + y" "(a * 64 + x) * 64 + y < 0x10000"
    using e0 b(2) l1(2) l2(2) by (cases "a = 0"; simp; linarith)+
  have s: "(a * 64 + x) * 64 + y < 0xD800 \<or> 0xDFFF < (a * 64 + x) * 64 + y"
  proof (cases a "13::nat" rule: linorder_cases)
    case less then show ?thesis using l1(2) l2(2) by simp
  next
    case equal then show ?thesis using ed l2(2) by simp
  next
    case greater then show ?thesis by simp
  qed
  have "encodeRune ((a * 64 + x) * 64 + y) = [c, c1, c2]"
    by (simp only: encodeRune3 [OF r s] pack_div [OF l2(2)] pack_mod [OF l2(2)]
        pack_div [OF l1(2)] pack_mod [OF l1(2)] b(1) [symmetric] l1(1) [symmetric]
        l2(1) [symmetric] char_of_char)
  then show ?thesis by (simp add: axy [symmetric] algebra_simps)
qed

lemma encode_decode4:
  assumes "0xF0 \<le> byte c" "byte c \<le> 0xF4"
    and c1: "cont (if byte c = 0xF0 then 0x90 else 0x80) (if byte c = 0xF4 then 0x8F else 0xBF) c1"
    and c2: "cont 0x80 0xBF c2" and c3: "cont 0x80 0xBF c3"
  shows "encodeRune ((byte c mod 8) * 262144 + low6 c1 * 4096 + low6 c2 * 64 + low6 c3) =
           [c, c1, c2, c3]"
proof -
  obtain a x y z where axy: "a = byte c mod 8" "x = low6 c1" "y = low6 c2" "z = low6 c3" by simp
  have b: "byte c = 0xF0 + a"
    using mod_offset [of 30 8 "byte c"] assms(1,2) by (simp_all add: axy)
  have a4: "a \<le> 4" using assms(2) b by simp
  have l1: "byte c1 = 0x80 + x" "x < 64"
    using cont_low6 [OF c1] by (auto simp: axy)
  have l2: "byte c2 = 0x80 + y" "y < 64"
    using cont_low6 [OF c2] by (auto simp: axy)
  have l3: "byte c3 = 0x80 + z" "z < 64"
    using cont_low6 [OF c3] by (auto simp: axy)
  have f0: "a = 0 \<Longrightarrow> 16 \<le> x" and f4: "a = 4 \<Longrightarrow> x \<le> 15"
    using c1 by (simp_all add: cont_def b l1)
  have r: "0x10000 \<le> ((a * 64 + x) * 64 + y) * 64 + z"
    using f0 by (cases "a = 0") simp_all
  have s: "((a * 64 + x) * 64 + y) * 64 + z \<le> 0x10FFFF"
    using f4 a4 l1(2) l2(2) l3(2) by (cases "a = 4") simp_all
  have "encodeRune (((a * 64 + x) * 64 + y) * 64 + z) = [c, c1, c2, c3]"
    by (simp only: encodeRune4 [OF r s] pack_div [OF l2(2)] pack_mod [OF l2(2)]
        pack_div [OF l1(2)] pack_mod [OF l1(2)] pack_div [OF l3(2)] pack_mod [OF l3(2)]
        b [symmetric] l1(1) [symmetric] l2(1) [symmetric] l3(1) [symmetric] char_of_char)
  then show ?thesis by (simp add: axy [symmetric] algebra_simps)
qed

text \<open>The four shapes of a sequence that decodes.\<close>

lemma decodeRune_cases:
  assumes "\<not> badRune (c # cs)"
  obtains (ascii) "byte c < 128" "decodeRune (c # cs) = (byte c, 1)"
  | (two) c1 ds where "cs = c1 # ds" "0xC2 \<le> byte c" "byte c \<le> 0xDF" "cont 0x80 0xBF c1"
      "decodeRune (c # cs) = ((byte c mod 32) * 64 + low6 c1, 2)"
  | (three) c1 c2 ds where "cs = c1 # c2 # ds" "0xE0 \<le> byte c" "byte c \<le> 0xEF"
      "cont (if byte c = 0xE0 then 0xA0 else 0x80) (if byte c = 0xED then 0x9F else 0xBF) c1"
      "cont 0x80 0xBF c2"
      "decodeRune (c # cs) = ((byte c mod 16) * 4096 + low6 c1 * 64 + low6 c2, 3)"
  | (four) c1 c2 c3 ds where "cs = c1 # c2 # c3 # ds" "0xF0 \<le> byte c" "byte c \<le> 0xF4"
      "cont (if byte c = 0xF0 then 0x90 else 0x80) (if byte c = 0xF4 then 0x8F else 0xBF) c1"
      "cont 0x80 0xBF c2" "cont 0x80 0xBF c3"
      "decodeRune (c # cs) =
         ((byte c mod 8) * 262144 + low6 c1 * 4096 + low6 c2 * 64 + low6 c3, 4)"
proof -
  have ne: "decodeRune (c # cs) \<noteq> (runeError, 1)"
    using assms by (simp add: badRune_def)
  consider "byte c < 128" | "\<not> byte c < 128" "0xC2 \<le> byte c" "byte c \<le> 0xDF"
    | "\<not> byte c < 128" "0xE0 \<le> byte c" "byte c \<le> 0xEF"
    | "\<not> byte c < 128" "0xF0 \<le> byte c" "byte c \<le> 0xF4"
    using ne unfolding decodeRune.simps by (auto split: if_splits)
  then show thesis
  proof cases
    case 1 then show thesis by (intro ascii) simp_all
  next
    case 2
    then have e: "decodeRune (c # cs) = decode2 (byte c) cs" by (simp add: decodeRune.simps)
    show thesis
    proof (cases cs)
      case (Cons c1 ds)
      with e ne have "cont 0x80 0xBF c1" by (auto simp: decode2_def split: if_splits)
      with e Cons 2 show thesis by (intro two) (simp_all add: decode2_def)
    qed (use e ne in \<open>simp add: decode2_def\<close>)
  next
    case 3
    then have e: "decodeRune (c # cs) = decode3 (byte c) cs" by (simp add: decodeRune.simps)
    then obtain c1 c2 ds where cs: "cs = c1 # c2 # ds"
      using ne by (auto simp: decode3_def split: list.splits)
    with e ne have "cont (if byte c = 0xE0 then 0xA0 else 0x80)
        (if byte c = 0xED then 0x9F else 0xBF) c1 \<and> cont 0x80 0xBF c2"
      by (simp add: decode3_def split: if_splits)
    with e cs 3 show thesis by (intro three) (simp_all add: decode3_def)
  next
    case 4
    then have e: "decodeRune (c # cs) = decode4 (byte c) cs" by (simp add: decodeRune.simps)
    then obtain c1 c2 c3 ds where cs: "cs = c1 # c2 # c3 # ds"
      using ne by (auto simp: decode4_def split: list.splits)
    with e ne have "cont (if byte c = 0xF0 then 0x90 else 0x80)
        (if byte c = 0xF4 then 0x8F else 0xBF) c1 \<and> cont 0x80 0xBF c2 \<and> cont 0x80 0xBF c3"
      by (simp add: decode4_def split: if_splits)
    with e cs 4 show thesis by (intro four) (simp_all add: decode4_def)
  qed
qed

lemma encode_decodeRune:
  assumes "\<not> badRune (c # cs)"
  shows "encodeRune (fst (decodeRune (c # cs))) = take (snd (decodeRune (c # cs))) (c # cs)"
  using assms
proof (cases rule: decodeRune_cases)
  case two then show ?thesis by (simp add: encode_decode2)
next
  case (three c1 c2 ds)
  have "encodeRune (fst (decodeRune (c # cs))) = [c, c1, c2]"
    using encode_decode3 [OF three(2-5)] three(6) by simp
  then show ?thesis using three(1,6) by simp
next
  case (four c1 c2 c3 ds)
  have "encodeRune (fst (decodeRune (c # cs))) = [c, c1, c2, c3]"
    using encode_decode4 [OF four(2-6)] four(7) by simp
  then show ?thesis using four(1,7) by simp
qed simp

lemma sanitize_valid: "validUTF8 s \<Longrightarrow> sanitize s = s"
proof (induction s rule: validUTF8.induct)
  case (2 c cs)
  then show ?case
    by (simp add: validUTF8.simps(2) sanitize.simps(2) encode_decodeRune split: if_splits)
qed simp

lemma encode_runeError: "encodeRune runeError = [CHR 0xEF, CHR 0xBF, CHR 0xBD]"
  by (simp add: encodeRune_def runeError_def char_of_eq_iff)

text \<open>Every byte of a multi-byte sequence has its top bit set.\<close>

lemma decodeRune_high:
  assumes "\<not> badRune (c # cs)" "128 \<le> byte c" "d \<in> set (take (snd (decodeRune (c # cs))) (c # cs))"
  shows "128 \<le> byte d"
  using assms(1)
proof (cases rule: decodeRune_cases)
  case ascii with assms(2) show ?thesis by simp
next
  case two with assms(2,3) show ?thesis by (auto simp: cont_def)
next
  case three
  with assms(3) show ?thesis by (auto simp: cont_def split: if_splits)
next
  case four
  with assms(3) show ?thesis by (auto simp: cont_def split: if_splits)
qed

end
