(* ===== verification/Json.thy ===== *)
theory Json
  imports Utf8
begin

text \<open>
  The part of Go's \<open>encoding/json\<close> the program uses, at the level of bytes: the scanner
  (\<open>json.Valid\<close>, and the check \<open>json.Unmarshal\<close> runs first), compaction of a
  \<open>json.RawMessage\<close> when it is marshalled (white space removed, \<open><\<close>,
  \<open>></\<close>, \<open>&\<close>, U+2028 and U+2029 escaped), quoting of a Go string and decoding of a
  string literal.

  One function, \<open>scanValue\<close>, validates a value and returns its compacted text and the
  input behind it; for an object it also yields the raw key and value texts.  It follows the
  nesting limit of the package (\<open>maxNestingDepth\<close>).  Recursion is on fuel;
  \<open>scanValue_fuel\<close> shows that twice the input length is enough and that more changes
  nothing.
\<close>

abbreviation dq :: char where "dq \<equiv> CHR 0x22"
abbreviation bsl :: char where "bsl \<equiv> CHR 0x5C"
abbreviation nl :: char where "nl \<equiv> CHR 0x0A"

subsection \<open>Hexadecimal digits\<close>

definition hexDigit :: "nat \<Rightarrow> char" where
  "hexDigit n = (if n < 10 then char_of (48 + n) else char_of (87 + n))"

definition hexVal :: "char \<Rightarrow> nat option" where
  "hexVal c = (let b = byte c in
     if 48 \<le> b \<and> b \<le> 57 then Some (b - 48)
     else if 97 \<le> b \<and> b \<le> 102 then Some (b - 87)
     else if 65 \<le> b \<and> b \<le> 70 then Some (b - 55)
     else None)"

definition isHex :: "char \<Rightarrow> bool" where
  "isHex c \<longleftrightarrow> hexVal c \<noteq> None"

fun hex4 :: "bytes \<Rightarrow> (nat \<times> bytes) option" where
  "hex4 (a # b # c # d # r) =
     (case (hexVal a, hexVal b, hexVal c, hexVal d) of
        (Some w, Some x, Some y, Some z) \<Rightarrow> Some (w * 4096 + x * 256 + y * 16 + z, r)
      | _ \<Rightarrow> None)"
| "hex4 _ = None"

subsection \<open>Quoting\<close>

text \<open>\<open>\u00XX\<close> for a byte.\<close>

definition uEsc :: "nat \<Rightarrow> bytes" where
  "uEsc b = bsl # ''u00'' @ [hexDigit (b div 16), hexDigit (b mod 16)]"

definition escapeASCII :: "char \<Rightarrow> bytes" where
  "escapeASCII c =
     (if c = bsl \<or> c = dq then [bsl, c]
      else if c = CHR 0x08 then bsl # ''b''
      else if c = CHR 0x0C then bsl # ''f''
      else if c = CHR 0x0A then bsl # ''n''
      else if c = CHR 0x0D then bsl # ''r''
      else if c = CHR 0x09 then bsl # ''t''
      else if byte c < 32 \<or> c = CHR ''<'' \<or> c = CHR ''>'' \<or> c = CHR ''&'' then uEsc (byte c)
      else [c])"

function quoteBody :: "bytes \<Rightarrow> bytes" where
  "quoteBody [] = []"
| "quoteBody (c # cs) =
     (if byte c < 128 then escapeASCII c @ quoteBody cs
      else if badRune (c # cs) then bsl # ''ufffd'' @ quoteBody cs
      else let (r, n) = decodeRune (c # cs) in
        (if r = 0x2028 \<or> r = 0x2029 then bsl # ''u202'' @ [hexDigit (r mod 16)]
         else take n (c # cs)) @ quoteBody (drop (snd (decodeRune (c # cs))) (c # cs)))"
  by pat_completeness auto
termination
  by (relation "measure length") (use decodeRune_drop_less in \<open>simp_all del: length_drop\<close>)

declare quoteBody.simps(2) [simp del]

definition quote :: "bytes \<Rightarrow> bytes" where
  "quote s = dq # quoteBody s @ [dq]"

subsection \<open>Decoding a string literal\<close>

definition surrogatePair :: "nat \<Rightarrow> bytes \<Rightarrow> (nat \<times> bytes) option" where
  "surrogatePair rr s = (case s of
     b # u # r \<Rightarrow>
       if b = bsl \<and> u = CHR ''u'' then
         (case hex4 r of None \<Rightarrow> None
          | Some (rr1, r') \<Rightarrow>
              if 0xD800 \<le> rr \<and> rr < 0xDC00 \<and> 0xDC00 \<le> rr1 \<and> rr1 < 0xE000
              then Some ((rr - 0xD800) * 1024 + (rr1 - 0xDC00) + 0x10000, r') else None)
       else None
   | _ \<Rightarrow> None)"

text \<open>The text after a backslash: the decoded bytes and what follows.\<close>

definition unescape :: "bytes \<Rightarrow> (bytes \<times> bytes) option" where
  "unescape s = (case s of [] \<Rightarrow> None
   | e # es \<Rightarrow>
       if e = dq \<or> e = bsl \<or> e = CHR ''/'' \<or> e = CHR 0x27 then Some ([e], es)
       else if e = CHR ''b'' then Some ([CHR 0x08], es)
       else if e = CHR ''f'' then Some ([CHR 0x0C], es)
       else if e = CHR ''n'' then Some ([CHR 0x0A], es)
       else if e = CHR ''r'' then Some ([CHR 0x0D], es)
       else if e = CHR ''t'' then Some ([CHR 0x09], es)
       else if e = CHR ''u'' then
         (case hex4 es of None \<Rightarrow> None
          | Some (rr, r) \<Rightarrow>
              if 0xD800 \<le> rr \<and> rr < 0xE000 then
                (case surrogatePair rr r of
                   Some (dec, r') \<Rightarrow> Some (encodeRune dec, r')
                 | None \<Rightarrow> Some (encodeRune runeError, r))
              else Some (encodeRune rr, r))
       else None)"

lemma hex4_length: "hex4 s = Some (n, r) \<Longrightarrow> length r < length s"
  by (cases s rule: hex4.cases) (auto split: option.splits)

lemma surrogatePair_length: "surrogatePair rr s = Some (n, r) \<Longrightarrow> length r < length s"
  by (auto simp: surrogatePair_def dest!: hex4_length split: list.splits if_splits option.splits)

lemma unescape_length: "unescape s = Some (o', r) \<Longrightarrow> length r < length s"
  by (cases s)
     (auto simp: unescape_def dest!: hex4_length surrogatePair_length
        split: if_splits option.splits)

function unquoteBody :: "bytes \<Rightarrow> bytes option" where
  "unquoteBody [] = Some []"
| "unquoteBody (c # cs) =
     (if c = bsl then
        (case unescape cs of None \<Rightarrow> None
         | Some (o', r) \<Rightarrow> map_option ((@) o') (unquoteBody r))
      else if c = dq \<or> byte c < 32 then None
      else if byte c < 128 then map_option ((#) c) (unquoteBody cs)
      else map_option ((@) (encodeRune (fst (decodeRune (c # cs)))))
             (unquoteBody (drop (snd (decodeRune (c # cs))) (c # cs))))"
  by pat_completeness auto
termination
  by (relation "measure length")
     (use decodeRune_drop_less in \<open>auto simp del: length_drop dest!: unescape_length\<close>)

declare unquoteBody.simps(2) [simp del]

text \<open>\<open>json.Unmarshal\<close> of a raw text into a Go string: only a string literal decodes.\<close>

definition unquote :: "bytes \<Rightarrow> bytes option" where
  "unquote raw = (case raw of [] \<Rightarrow> None
   | c # cs \<Rightarrow> if c = dq \<and> cs \<noteq> [] \<and> last cs = dq then unquoteBody (butlast cs) else None)"

subsection \<open>The scanner\<close>

definition isWS :: "char \<Rightarrow> bool" where
  "isWS c \<longleftrightarrow> c = CHR '' '' \<or> c = CHR 0x09 \<or> c = CHR 0x0A \<or> c = CHR 0x0D"

abbreviation skipws :: "bytes \<Rightarrow> bytes" where
  "skipws \<equiv> dropWhile isWS"

definition isDigit :: "char \<Rightarrow> bool" where
  "isDigit c \<longleftrightarrow> 48 \<le> byte c \<and> byte c \<le> 57"

definition escLetters :: string where
  "escLetters = [dq, bsl, CHR ''/'', CHR ''b'', CHR ''f'', CHR ''n'', CHR ''r'', CHR ''t'']"

abbreviation pre :: "bytes \<Rightarrow> (bytes \<times> bytes) option \<Rightarrow> (bytes \<times> bytes) option" where
  "pre p x \<equiv> map_option (\<lambda>(b, r). (p @ b, r)) x"

text \<open>The body of a string literal up to its closing quote, and the input behind it.\<close>

fun scanString :: "bytes \<Rightarrow> (bytes \<times> bytes) option" where
  "scanString [] = None"
| "scanString (c # cs) =
     (if c = dq then Some ([], cs)
      else if c = bsl then
        (case cs of [] \<Rightarrow> None
         | e # es \<Rightarrow>
             if e = CHR ''u'' then
               (case es of
                  h1 # h2 # h3 # h4 # r \<Rightarrow>
                    if isHex h1 \<and> isHex h2 \<and> isHex h3 \<and> isHex h4
                    then pre [c, e, h1, h2, h3, h4] (scanString r) else None
                | _ \<Rightarrow> None)
             else if e \<in> set escLetters then pre [c, e] (scanString es) else None)
      else if byte c < 32 then None
      else pre [c] (scanString cs))"

definition scanInt :: "bytes \<Rightarrow> (bytes \<times> bytes) option" where
  "scanInt s = (case s of [] \<Rightarrow> None
   | d # ds \<Rightarrow>
       if d = CHR ''0'' then Some ([d], ds)
       else if isDigit d then Some (d # takeWhile isDigit ds, dropWhile isDigit ds)
       else None)"

definition scanDigits :: "bytes \<Rightarrow> bytes \<Rightarrow> (bytes \<times> bytes) option" where
  "scanDigits p s =
     (if takeWhile isDigit s = [] then None
      else Some (p @ takeWhile isDigit s, dropWhile isDigit s))"

definition scanFrac :: "bytes \<Rightarrow> (bytes \<times> bytes) option" where
  "scanFrac s = (case s of [] \<Rightarrow> Some ([], [])
   | c # cs \<Rightarrow> if c = CHR ''.'' then scanDigits [c] cs else Some ([], s))"

definition scanExp :: "bytes \<Rightarrow> (bytes \<times> bytes) option" where
  "scanExp s = (case s of [] \<Rightarrow> Some ([], [])
   | c # cs \<Rightarrow>
       if c = CHR ''e'' \<or> c = CHR ''E'' then
         (case cs of [] \<Rightarrow> None
          | g # gs \<Rightarrow> if g = CHR ''+'' \<or> g = CHR ''-'' then scanDigits [c, g] gs
                        else scanDigits [c] cs)
       else Some ([], s))"

definition scanNumber :: "bytes \<Rightarrow> (bytes \<times> bytes) option" where
  "scanNumber s =
     (let sg = (case s of [] \<Rightarrow> [] | c # _ \<Rightarrow> if c = CHR ''-'' then [c] else []) in
      case scanInt (drop (length sg) s) of None \<Rightarrow> None
      | Some (i, s2) \<Rightarrow>
          (case scanFrac s2 of None \<Rightarrow> None
           | Some (f, s3) \<Rightarrow>
               (case scanExp s3 of None \<Rightarrow> None
                | Some (e, s4) \<Rightarrow> Some (sg @ i @ f @ e, s4))))"

text \<open>The HTML and line-separator escapes compaction applies inside strings.\<close>

fun escBody :: "bytes \<Rightarrow> bytes" where
  "escBody [] = []"
| "escBody (c # cs) =
     (if c = CHR ''<'' \<or> c = CHR ''>'' \<or> c = CHR ''&'' then uEsc (byte c) @ escBody cs
      else if c = CHR 0xE2 then
        (case cs of
           c1 # c2 # r \<Rightarrow>
             if c1 = CHR 0x80 \<and> (c2 = CHR 0xA8 \<or> c2 = CHR 0xA9)
             then bsl # ''u202'' @ [hexDigit (byte c2 mod 16)] @ escBody r
             else c # escBody cs
         | _ \<Rightarrow> c # escBody cs)
      else c # escBody cs)"

definition maxNestingDepth :: nat where
  "maxNestingDepth = 10000"

type_synonym fields = "(bytes \<times> bytes) list"

text \<open>
  \<open>scanValue f d s\<close>: the value at the front of \<open>s\<close> (white space before it
  skipped), its compacted text and the rest; \<open>d\<close> is how many more arrays or objects may
  be opened.  \<open>scanElems\<close> runs from behind the opening bracket or a comma to the closing
  bracket; \<open>scanMembers\<close> likewise inside an object, collecting the raw body of each key and
  the raw text of each value.
\<close>

fun scanValue :: "nat \<Rightarrow> nat \<Rightarrow> bytes \<Rightarrow> (bytes \<times> bytes) option"
and scanElems :: "nat \<Rightarrow> nat \<Rightarrow> bytes \<Rightarrow> (bytes \<times> bytes) option"
and scanMembers :: "nat \<Rightarrow> nat \<Rightarrow> bytes \<Rightarrow> (bytes \<times> fields \<times> bytes) option" where
  "scanValue 0 d s = None"
| "scanValue (Suc f) d s = (case skipws s of [] \<Rightarrow> None
   | c # cs \<Rightarrow>
       if c = dq then
         (case scanString cs of None \<Rightarrow> None | Some (b, r) \<Rightarrow> Some (dq # escBody b @ [dq], r))
       else if c = CHR ''['' then
         (if d = 0 then None else
          case skipws cs of [] \<Rightarrow> None
          | e # es \<Rightarrow> if e = CHR '']'' then Some (''[]'', es)
                        else pre ''['' (scanElems f (d - 1) cs))
       else if c = CHR ''{'' then
         (if d = 0 then None else
          case skipws cs of [] \<Rightarrow> None
          | e # es \<Rightarrow> if e = CHR ''}'' then Some (''{}'', es)
                        else (case scanMembers f (d - 1) cs of None \<Rightarrow> None
                              | Some (p, _, r) \<Rightarrow> Some (CHR ''{'' # p, r)))
       else if prefix ''true'' (c # cs) then Some (''true'', drop 3 cs)
       else if prefix ''false'' (c # cs) then Some (''false'', drop 4 cs)
       else if prefix ''null'' (c # cs) then Some (''null'', drop 3 cs)
       else scanNumber (c # cs))"
| "scanElems 0 d s = None"
| "scanElems (Suc f) d s = (case scanValue f d s of None \<Rightarrow> None
   | Some (p, r) \<Rightarrow>
       (case skipws r of [] \<Rightarrow> None
        | c # cs \<Rightarrow> if c = CHR '','' then pre (p @ '','') (scanElems f d cs)
                      else if c = CHR '']'' then Some (p @ '']'', cs) else None))"
| "scanMembers 0 d s = None"
| "scanMembers (Suc f) d s = (case skipws s of [] \<Rightarrow> None
   | c # cs \<Rightarrow> if c \<noteq> dq then None else
       (case scanString cs of None \<Rightarrow> None
        | Some (k, r) \<Rightarrow>
            (case skipws r of [] \<Rightarrow> None
             | c' # cs' \<Rightarrow> if c' \<noteq> CHR '':'' then None else
                 (case scanValue f d cs' of None \<Rightarrow> None
                  | Some (p, r') \<Rightarrow>
                      let v = skipws cs'; raw = take (length v - length r') v;
                          q = dq # escBody k @ dq # CHR '':'' # p in
                      (case skipws r' of [] \<Rightarrow> None
                       | e # es \<Rightarrow>
                           if e = CHR '','' then
                             (case scanMembers f d es of None \<Rightarrow> None
                              | Some (p', fs, r'') \<Rightarrow> Some (q @ CHR '','' # p', (k, raw) # fs, r''))
                           else if e = CHR ''}'' then Some (q @ ''}'', [(k, raw)], es)
                           else None)))))"

definition scanFuel :: "bytes \<Rightarrow> nat" where
  "scanFuel s = 2 * length s + 2"

text \<open>A whole text holds one value and white space: \<open>json.Compact\<close> with escaping.\<close>

definition compact :: "bytes \<Rightarrow> bytes option" where
  "compact s = (case scanValue (scanFuel s) maxNestingDepth s of None \<Rightarrow> None
     | Some (p, r) \<Rightarrow> if skipws r = [] then Some p else None)"

definition validJSON :: "bytes \<Rightarrow> bool" where
  "validJSON s \<longleftrightarrow> compact s \<noteq> None"

text \<open>
  The fields of a text that holds one object, in order: raw key bodies and raw value texts.
\<close>

definition objectFields :: "bytes \<Rightarrow> fields option" where
  "objectFields s =
     (if validJSON s then
        (case skipws s of c # cs \<Rightarrow>
           if c = CHR ''{'' then
             (case skipws cs of e # es \<Rightarrow>
                if e = CHR ''}'' then Some []
                else (case scanMembers (scanFuel s) (maxNestingDepth - 1) cs of None \<Rightarrow> None
                      | Some (p, fs, r) \<Rightarrow> Some fs)
              | [] \<Rightarrow> None)
           else None
         | [] \<Rightarrow> None)
      else None)"

end
