(* ===== verification/Json_Scan.thy ===== *)
theory Json_Scan
  imports Json_Facts
begin

text \<open>
  Facts about the scanner: compacted text scans to itself, it holds no control character (so
  no line break), every value consumes input, and the fuel of \<open>compact\<close> is enough.
\<close>

subsection \<open>String bodies\<close>

text \<open>The shape of the text between the quotes of a literal.\<close>

inductive strBody :: "bytes \<Rightarrow> bool" where
  nil: "strBody []"
| plain: "c \<noteq> dq \<Longrightarrow> c \<noteq> bsl \<Longrightarrow> 32 \<le> byte c \<Longrightarrow> strBody b \<Longrightarrow> strBody (c # b)"
| esc: "e \<in> set escLetters \<Longrightarrow> strBody b \<Longrightarrow> strBody (bsl # e # b)"
| uni: "isHex h1 \<Longrightarrow> isHex h2 \<Longrightarrow> isHex h3 \<Longrightarrow> isHex h4 \<Longrightarrow> strBody b \<Longrightarrow>
     strBody (bsl # CHR ''u'' # h1 # h2 # h3 # h4 # b)"

inductive_cases strBody_ConsE: "strBody (c # b)"

lemma strBody_tl: "strBody (c # b) \<Longrightarrow> c \<noteq> bsl \<Longrightarrow> strBody b"
  by (erule strBody_ConsE) auto

lemma isHex_plain: "isHex h \<Longrightarrow> h \<notin> set ''<>&'' \<and> h \<noteq> CHR 0xE2 \<and> 32 \<le> byte h"
  by (auto simp: isHex_def hexVal_def Let_def split: if_splits)

lemma escLetters_plain: "e \<in> set escLetters \<Longrightarrow> e \<notin> set ''<>&'' \<and> e \<noteq> CHR 0xE2 \<and> 32 \<le> byte e"
  by (auto simp: escLetters_def)

lemma scanString_elim:
  assumes "scanString s = Some (b, r)"
  obtains (fin) "s = dq # r" "b = []"
  | (plain) c cs b' where "s = c # cs" "c \<noteq> dq" "c \<noteq> bsl" "32 \<le> byte c"
      "scanString cs = Some (b', r)" "b = c # b'"
  | (esc) e es b' where "s = bsl # e # es" "e \<in> set escLetters" "scanString es = Some (b', r)"
      "b = bsl # e # b'"
  | (uni) h1 h2 h3 h4 q b' where "s = bsl # CHR ''u'' # h1 # h2 # h3 # h4 # q" "isHex h1" "isHex h2"
      "isHex h3" "isHex h4" "scanString q = Some (b', r)"
      "b = bsl # CHR ''u'' # h1 # h2 # h3 # h4 # b'"
proof -
  obtain c cs where s: "s = c # cs" using assms by (cases s) simp_all
  consider "c = dq" | "c = bsl" | "c \<noteq> dq" "c \<noteq> bsl" by blast
  then show thesis
  proof cases
    case 1
    with assms s show thesis by (intro fin) simp_all
  next
    case 2
    with assms s obtain e es where cs: "cs = e # es" by (cases cs) simp_all
    show thesis
    proof (cases "e = CHR ''u''")
      case True
      with assms s 2 cs obtain h1 h2 h3 h4 q where es: "es = h1 # h2 # h3 # h4 # q"
        by (simp split: list.splits)
      with assms s 2 cs True have h: "isHex h1" "isHex h2" "isHex h3" "isHex h4"
        by (simp_all split: if_splits)
      with assms s 2 cs True es obtain b' where "scanString q = Some (b', r)"
        "b = bsl # CHR ''u'' # h1 # h2 # h3 # h4 # b'"
        by (auto simp: map_option_eq_Some_conv)
      with s 2 cs True es h show thesis by (intro uni) simp_all
    next
      case False
      with assms s 2 cs have e: "e \<in> set escLetters" by (simp split: if_splits)
      with assms s 2 cs False obtain b' where "scanString es = Some (b', r)" "b = bsl # e # b'"
        by (auto simp: map_option_eq_Some_conv)
      with s 2 cs e show thesis by (intro esc) simp_all
    qed
  next
    case 3
    with assms s have c: "32 \<le> byte c" by (simp split: if_splits)
    with assms s 3 obtain b' where "scanString cs = Some (b', r)" "b = c # b'"
      by (auto simp: map_option_eq_Some_conv)
    with s 3 c show thesis by (intro plain) simp_all
  qed
qed

lemma scanString_sound: "scanString s = Some (b, r) \<Longrightarrow> strBody b \<and> s = b @ dq # r"
proof (induction s arbitrary: b rule: length_induct)
  case (1 s)
  have IH: "length t < length s \<Longrightarrow> scanString t = Some (b', r) \<Longrightarrow> strBody b' \<and> t = b' @ dq # r"
    for t b' using "1.IH" by blast
  from "1.prems" show ?case
  proof (cases rule: scanString_elim)
    case fin then show ?thesis by (simp add: strBody.nil)
  next
    case (plain c cs b')
    then have "strBody b' \<and> cs = b' @ dq # r" using IH [of cs b'] by simp
    with plain show ?thesis by (simp add: strBody.plain)
  next
    case (esc e es b')
    then have "strBody b' \<and> es = b' @ dq # r" using IH [of es b'] by simp
    with esc show ?thesis by (simp add: strBody.esc)
  next
    case (uni h1 h2 h3 h4 q b')
    then have "strBody b' \<and> q = b' @ dq # r" using IH [of q b'] by simp
    with uni show ?thesis by (simp add: strBody.uni)
  qed
qed

lemma scanString_complete: "strBody b \<Longrightarrow> scanString (b @ dq # r) = Some (b, r)"
proof (induction rule: strBody.induct)
  case nil then show ?case by simp
next
  case (plain c b)
  then show ?case using scanString_plain [of c "b @ dq # r"] by (simp del: scanString.simps)
next
  case (esc e b)
  then show ?case using scanString_esc [of e "b @ dq # r"] by (simp del: scanString.simps)
next
  case (uni h1 h2 h3 h4 b)
  then show ?case
    using scanString_u [of h1 h2 h3 h4 "b @ dq # r"] by (simp del: scanString.simps)
qed

lemma strBody_printable: "strBody b \<Longrightarrow> c \<in> set b \<Longrightarrow> 32 \<le> byte c"
  by (induction rule: strBody.induct) (auto dest: isHex_plain escLetters_plain)

lemma strBody_high: "(\<And>d. d \<in> set p \<Longrightarrow> 128 \<le> byte d) \<Longrightarrow> strBody b \<Longrightarrow> strBody (p @ b)"
proof (induction p)
  case (Cons c p)
  then have "128 \<le> byte c" by simp
  then have "c \<noteq> dq" "c \<noteq> bsl" "32 \<le> byte c" by auto
  with Cons show ?case by (simp add: strBody.plain)
qed simp

lemma strBody_quoteBody: "strBody (quoteBody s)"
  using scanString_quoteBody [of s "[]"] scanString_sound by blast

text \<open>A body in which compaction finds nothing to escape.\<close>

fun cleanBody :: "bytes \<Rightarrow> bool" where
  "cleanBody [] = True"
| "cleanBody (c # cs) =
     (c \<notin> set ''<>&'' \<and>
      \<not> (c = CHR 0xE2 \<and> (prefix [CHR 0x80, CHR 0xA8] cs \<or> prefix [CHR 0x80, CHR 0xA9] cs)) \<and>
      cleanBody cs)"

lemma escBody_keep: "c \<notin> set ''<>&'' \<Longrightarrow> c \<noteq> CHR 0xE2 \<Longrightarrow> escBody (c # cs) = c # escBody cs"
  by simp

lemma escBody_html: "c \<in> set ''<>&'' \<Longrightarrow> escBody (c # cs) = uEsc (byte c) @ escBody cs"
  by auto

lemma escBody_sep:
  "c2 = CHR 0xA8 \<or> c2 = CHR 0xA9 \<Longrightarrow>
     escBody (CHR 0xE2 # CHR 0x80 # c2 # r) = bsl # ''u202'' @ [hexDigit (byte c2 mod 16)] @ escBody r"
  by auto

lemma escBody_E2:
  assumes "\<not> prefix [CHR 0x80, CHR 0xA8] cs" "\<not> prefix [CHR 0x80, CHR 0xA9] cs"
  shows "escBody (CHR 0xE2 # cs) = CHR 0xE2 # escBody cs"
proof (cases cs)
  case (Cons c1 ds)
  then show ?thesis using assms by (cases ds) auto
qed simp

declare escBody.simps(2) [simp del]

text \<open>The three ways a byte of a string body is treated by compaction.\<close>

lemma escBody_cases:
  obtains (html) "c \<in> set ''<>&''" "escBody (c # cs) = uEsc (byte c) @ escBody cs"
  | (sep) c2 r where "c = CHR 0xE2" "cs = CHR 0x80 # c2 # r" "c2 = CHR 0xA8 \<or> c2 = CHR 0xA9"
      "escBody (c # cs) = bsl # ''u202'' @ [hexDigit (byte c2 mod 16)] @ escBody r"
  | (keep) "c \<notin> set ''<>&''" "escBody (c # cs) = c # escBody cs"
      "c = CHR 0xE2 \<Longrightarrow> \<not> prefix [CHR 0x80, CHR 0xA8] cs \<and> \<not> prefix [CHR 0x80, CHR 0xA9] cs"
proof -
  consider "c \<in> set ''<>&''" | "c \<notin> set ''<>&''" "c \<noteq> CHR 0xE2"
    | "c = CHR 0xE2" "prefix [CHR 0x80, CHR 0xA8] cs \<or> prefix [CHR 0x80, CHR 0xA9] cs"
    | "c = CHR 0xE2" "\<not> prefix [CHR 0x80, CHR 0xA8] cs" "\<not> prefix [CHR 0x80, CHR 0xA9] cs"
    by blast
  then show thesis
  proof cases
    case 1 then show thesis by (intro html escBody_html)
  next
    case 2 then show thesis by (intro keep escBody_keep) simp_all
  next
    case 3
    then obtain c2 r where "cs = CHR 0x80 # c2 # r" "c2 = CHR 0xA8 \<or> c2 = CHR 0xA9"
      by (auto simp: prefix_def)
    with 3(1) show thesis using escBody_sep by (intro sep [of c2 r]) simp_all
  next
    case 4
    then show thesis using escBody_E2 by (intro keep) simp_all
  qed
qed

lemma escBody_clean: "cleanBody b \<Longrightarrow> escBody b = b"
proof (induction b)
  case (Cons c cs)
  then show ?case by (cases rule: escBody_cases [of c cs]) auto
qed simp

lemma cleanBody_append_ascii:
  "(\<And>c. c \<in> set p \<Longrightarrow> c \<notin> set ''<>&'' \<and> c \<noteq> CHR 0xE2) \<Longrightarrow> cleanBody (p @ s) = cleanBody s"
  by (induction p) auto

lemma hexDigit_clean: "n < 16 \<Longrightarrow> hexDigit n \<notin> set ''<>&'' \<and> hexDigit n \<noteq> CHR 0xE2"
  using byte_hexDigit [of n] by (auto split: if_splits)

lemma hexDigit_printable: "n < 16 \<Longrightarrow> 32 \<le> byte (hexDigit n)"
  using byte_hexDigit [of n] by (auto split: if_splits)

lemma uEsc_clean: "c \<in> set (uEsc (byte d)) \<Longrightarrow> c \<notin> set ''<>&'' \<and> c \<noteq> CHR 0xE2"
  using hexDigit_clean [of "byte d div 16"] hexDigit_clean [of "byte d mod 16"]
  by (auto simp: uEsc_def)

lemma escBody_starts:
  assumes "escBody s = x # ys" "x \<noteq> bsl"
  obtains cs where "s = x # cs" "ys = escBody cs"
proof -
  obtain c cs where "s = c # cs" using assms(1) by (cases s) simp_all
  with assms show thesis
    by (cases rule: escBody_cases [of c cs]) (auto simp: uEsc_def intro: that)
qed

lemma escBody_prefix:
  assumes "prefix [CHR 0x80, y] (escBody s)" "y = CHR 0xA8 \<or> y = CHR 0xA9"
  shows "prefix [CHR 0x80, y] s"
proof -
  obtain ys where "escBody s = CHR 0x80 # ys" "prefix [y] ys"
    using assms(1) by (cases "escBody s") auto
  moreover from this(1) obtain cs where s: "s = CHR 0x80 # cs" "ys = escBody cs"
    by (rule escBody_starts) simp_all
  ultimately obtain zs where "escBody cs = y # zs"
    by (cases "escBody cs") auto
  then obtain cs' where "cs = y # cs'"
    by (rule escBody_starts) (use assms(2) in auto)
  with s show ?thesis by simp
qed

lemma cleanBody_escBody: "cleanBody (escBody b)"
proof (induction b rule: length_induct)
  case (1 b)
  show ?case
  proof (cases b)
    case (Cons c cs)
    have IH: "length t < length b \<Longrightarrow> cleanBody (escBody t)" for t using 1 by blast
    have ics: "cleanBody (escBody cs)" using IH [of cs] Cons by simp
    show ?thesis
    proof (cases rule: escBody_cases [of c cs])
      case html
      then show ?thesis
        using cleanBody_append_ascii [of "uEsc (byte c)"] uEsc_clean ics Cons by simp
    next
      case (sep c2 r)
      moreover have "cleanBody (escBody r)" using IH [of r] Cons sep by simp
      ultimately show ?thesis
        using hexDigit_clean [of "byte c2 mod 16"]
          cleanBody_append_ascii [of "bsl # ''u202'' @ [hexDigit (byte c2 mod 16)]" "escBody r"]
        by (simp add: Cons)
    next
      case keep
      then show ?thesis using ics escBody_prefix Cons by auto
    qed
  qed simp
qed

lemma escBody_idem [simp]: "escBody (escBody b) = escBody b"
  by (simp add: escBody_clean cleanBody_escBody)

lemma strBody_uEsc: "strBody b \<Longrightarrow> strBody (uEsc (byte c) @ b)"
  by (simp add: uEsc_def strBody.uni)

lemma strBody_escBody: "strBody b \<Longrightarrow> strBody (escBody b)"
proof (induction rule: strBody.induct)
  case nil then show ?case by (simp add: strBody.nil)
next
  case (plain c b)
  show ?case
  proof (cases rule: escBody_cases [of c b])
    case html
    then show ?thesis using plain.IH by (simp add: strBody_uEsc)
  next
    case (sep c2 r)
    have e: "escBody b = CHR 0x80 # c2 # escBody r"
      using sep(2,3) by (auto simp: escBody_keep)
    have "strBody (escBody r)"
      using plain.IH sep(3) unfolding e by (auto dest!: strBody_tl)
    with sep(4) show ?thesis by (simp add: strBody.uni)
  next
    case keep
    then show ?thesis using plain by (simp add: strBody.plain)
  qed
next
  case (esc e b)
  then have "escBody (bsl # e # b) = bsl # e # escBody b"
    using escLetters_plain [of e] by (simp add: escBody_keep)
  with esc show ?case by (simp add: strBody.esc)
next
  case (uni h1 h2 h3 h4 b)
  then have "escBody (bsl # CHR ''u'' # h1 # h2 # h3 # h4 # b) =
      bsl # CHR ''u'' # h1 # h2 # h3 # h4 # escBody b"
    using isHex_plain [of h1] isHex_plain [of h2] isHex_plain [of h3] isHex_plain [of h4]
    by (simp add: escBody_keep)
  with uni show ?case by (simp add: strBody.uni)
qed

subsection \<open>Quoted text needs no further escapes\<close>

lemma cleanBody_quoteBody: "cleanBody (quoteBody s)"
proof (induction s rule: length_induct)
  case (1 s)
  show ?case
  proof (cases s)
    case (Cons c cs)
    have IH: "length t < length s \<Longrightarrow> cleanBody (quoteBody t)" for t using 1 by blast
    note shorter = decodeRune_drop_less [of c cs]
    show ?thesis
    proof (cases rule: quoteBody_cases [of c cs])
      case ascii
      have "d \<notin> set ''<>&'' \<and> d \<noteq> CHR 0xE2" if "d \<in> set (escapeASCII c)" for d
      proof (cases rule: escapeASCII_cases [of c])
        case (esc e)
        with that have "d = bsl \<or> d = e" by simp
        then show ?thesis using escLetters_plain [OF esc(2)] by auto
      next
        case uni with that show ?thesis using uEsc_clean by simp
      next
        case plain
        with that have "d = c" by simp
        moreover have "c \<noteq> CHR 0xE2" using ascii(1) by (cases "c = CHR 0xE2") simp_all
        ultimately show ?thesis using plain(5) by blast
      qed
      then have "cleanBody (escapeASCII c @ quoteBody cs) = cleanBody (quoteBody cs)"
        by (rule cleanBody_append_ascii)
      then show ?thesis using ascii(2) IH [of cs] Cons by (simp only: length_Cons lessI)
    next
      case bad
      then show ?thesis using IH [of cs] Cons by simp
    next
      case (sep r n)
      then show ?thesis
        using IH [of "drop n (c # cs)"] Cons shorter hexDigit_clean [of "r mod 16"] by simp
    next
      case (copy r n)
      have rest: "cleanBody (quoteBody (drop n (c # cs)))"
        using IH [of "drop n (c # cs)"] Cons shorter copy by simp
      from copy(2) have "cleanBody (take n (c # cs) @ quoteBody (drop n (c # cs)))"
      proof (cases rule: decodeRune_cases)
        case ascii with copy(1) show ?thesis by simp
      next
        case two
        with copy(3) rest show ?thesis by (auto simp: cont_def)
      next
        case (three c1 c2 ds)
        have "\<not> (c = CHR 0xE2 \<and> c1 = CHR 0x80 \<and> (c2 = CHR 0xA8 \<or> c2 = CHR 0xA9))"
          using copy(3-5) three(6) by (auto simp: low6_def)
        with copy(3) rest three show ?thesis by (auto simp: cont_def split: if_splits)
      next
        case four
        with copy(3) rest show ?thesis by (auto simp: cont_def split: if_splits)
      qed
      with copy(6) Cons show ?thesis by simp
    qed
  qed simp
qed

lemma escBody_quoteBody [simp]: "escBody (quoteBody s) = quoteBody s"
  by (simp add: escBody_clean cleanBody_quoteBody)

end
