(* ===== verification/Json_Value.thy ===== *)
theory Json_Value
  imports Json_Scan
begin

text \<open>
  Facts about whole JSON values: numbers, the three mutually recursive scanners and the
  consequences for \<open>compact\<close>.
\<close>

subsection \<open>Numbers\<close>

text \<open>What may follow a value without being read as part of it.\<close>

definition valueEnd :: "bytes \<Rightarrow> bool" where
  "valueEnd r \<longleftrightarrow> (case r of [] \<Rightarrow> True
     | c # _ \<Rightarrow> \<not> isDigit c \<and> c \<noteq> CHR ''.'' \<and> c \<noteq> CHR ''e'' \<and> c \<noteq> CHR ''E'')"

definition noDigit :: "bytes \<Rightarrow> bool" where
  "noDigit r \<longleftrightarrow> (case r of [] \<Rightarrow> True | c # _ \<Rightarrow> \<not> isDigit c)"

lemma valueEnd_simps [simp]:
  "valueEnd []" "valueEnd (CHR '','' # r)" "valueEnd (CHR '']'' # r)" "valueEnd (CHR ''}'' # r)"
  by (simp_all add: valueEnd_def isDigit_def)

lemma valueEnd_noDigit: "valueEnd r \<Longrightarrow> noDigit r"
  by (auto simp: valueEnd_def noDigit_def split: list.splits)

lemma digits_split:
  assumes "noDigit r"
  shows "takeWhile isDigit (takeWhile isDigit s @ r) = takeWhile isDigit s"
    and "dropWhile isDigit (takeWhile isDigit s @ r) = r"
proof -
  have r: "takeWhile isDigit r = []" "dropWhile isDigit r = r"
    using assms by (cases r; simp add: noDigit_def)+
  have all: "\<forall>x \<in> set (takeWhile isDigit s). isDigit x" by (meson set_takeWhileD)
  then show "takeWhile isDigit (takeWhile isDigit s @ r) = takeWhile isDigit s"
    by (simp add: takeWhile_append2 r)
  from all show "dropWhile isDigit (takeWhile isDigit s @ r) = r"
    by (simp add: dropWhile_append2 r)
qed

lemma scanInt_again:
  assumes "scanInt s = Some (i, r)"
  shows "s = i @ r" "i \<noteq> []" "\<forall>c \<in> set i. isDigit c" "noDigit r' \<Longrightarrow> scanInt (i @ r') = Some (i, r')"
proof -
  obtain d ds where s: "s = d # ds" using assms by (cases s) (simp_all add: scanInt_def)
  have *: "s = i @ r \<and> i \<noteq> [] \<and> (\<forall>c \<in> set i. isDigit c) \<and>
      (noDigit r' \<longrightarrow> scanInt (i @ r') = Some (i, r'))"
  proof (cases "d = CHR ''0''")
    case True
    with assms s show ?thesis by (auto simp: scanInt_def isDigit_def)
  next
    case False
    with assms s have "isDigit d" "i = d # takeWhile isDigit ds" "r = dropWhile isDigit ds"
      by (simp_all add: scanInt_def split: if_splits)
    with False s show ?thesis
      by (auto simp: scanInt_def digits_split dest: set_takeWhileD)
  qed
  then show "s = i @ r" "i \<noteq> []" "\<forall>c \<in> set i. isDigit c" "noDigit r' \<Longrightarrow> scanInt (i @ r') = Some (i, r')"
    by blast+
qed

lemma scanDigits_again:
  assumes "scanDigits p s = Some (x, r)"
  shows "p @ s = x @ r" "\<exists>ds. x = p @ ds \<and> ds \<noteq> [] \<and> (\<forall>c \<in> set ds. isDigit c) \<and>
      (\<forall>r'. noDigit r' \<longrightarrow> scanDigits p (ds @ r') = Some (x, r'))"
  using assms by (auto simp: scanDigits_def digits_split dest: set_takeWhileD split: if_splits)

definition fracStart :: "bytes \<Rightarrow> bool" where
  "fracStart x \<longleftrightarrow> (case x of [] \<Rightarrow> True | c # _ \<Rightarrow> c = CHR ''.'')"

definition expStart :: "bytes \<Rightarrow> bool" where
  "expStart x \<longleftrightarrow> (case x of [] \<Rightarrow> True | c # _ \<Rightarrow> c = CHR ''e'' \<or> c = CHR ''E'')"

lemma scanFrac_again:
  assumes "scanFrac s = Some (x, r)"
  shows "s = x @ r \<and> fracStart x \<and> (\<forall>c \<in> set x. 32 \<le> byte c) \<and>
    (\<forall>r'. noDigit r' \<and> (case r' of [] \<Rightarrow> True | c # _ \<Rightarrow> c \<noteq> CHR ''.'') \<longrightarrow> scanFrac (x @ r') = Some (x, r'))"
proof (cases "\<exists>cs. s = CHR ''.'' # cs")
  case True
  then obtain cs where s: "s = CHR ''.'' # cs" by blast
  with assms have sd: "scanDigits ''.'' cs = Some (x, r)" by (simp add: scanFrac_def)
  from scanDigits_again(2) [OF sd] obtain ds where ds: "x = ''.'' @ ds" "ds \<noteq> []"
    "\<forall>c \<in> set ds. isDigit c" "\<forall>r'. noDigit r' \<longrightarrow> scanDigits ''.'' (ds @ r') = Some (x, r')" by blast
  have "s = x @ r" using scanDigits_again(1) [OF sd] s by simp
  moreover have "scanFrac (x @ r') = Some (x, r')" if "noDigit r'" for r'
    using ds that by (simp add: scanFrac_def)
  moreover have "\<forall>c \<in> set x. 32 \<le> byte c" using ds by (auto simp: isDigit_def)
  ultimately show ?thesis using ds(1) by (simp add: fracStart_def)
next
  case False
  with assms have "x = []" "r = s" by (cases s; auto simp: scanFrac_def split: if_splits)+
  then show ?thesis by (auto simp: fracStart_def scanFrac_def split: list.splits)
qed

lemma scanExp_again:
  assumes "scanExp s = Some (x, r)"
  shows "s = x @ r \<and> expStart x \<and> (\<forall>c \<in> set x. 32 \<le> byte c) \<and>
    (\<forall>r'. valueEnd r' \<longrightarrow> scanExp (x @ r') = Some (x, r'))"
proof (cases "\<exists>c cs. s = c # cs \<and> (c = CHR ''e'' \<or> c = CHR ''E'')")
  case True
  then obtain c cs where s: "s = c # cs" "c = CHR ''e'' \<or> c = CHR ''E''" by blast
  with assms obtain g gs where cs: "cs = g # gs"
    by (cases cs) (auto simp: scanExp_def)
  define p q where "p = (if g = CHR ''+'' \<or> g = CHR ''-'' then [c, g] else [c])"
    and "q = (if g = CHR ''+'' \<or> g = CHR ''-'' then gs else cs)"
  have pq: "p @ q = s" and sd: "scanDigits p q = Some (x, r)"
    using assms s cs by (auto simp: scanExp_def p_def q_def)
  from scanDigits_again(2) [OF sd] obtain ds where ds: "x = p @ ds" "ds \<noteq> []"
    "\<forall>c \<in> set ds. isDigit c" "\<forall>r'. noDigit r' \<longrightarrow> scanDigits p (ds @ r') = Some (x, r')" by blast
  have "s = x @ r" using scanDigits_again(1) [OF sd] pq by simp
  moreover have "scanExp (x @ r') = Some (x, r')" if "valueEnd r'" for r'
  proof -
    obtain d ds' where d: "ds = d # ds'" "isDigit d" using ds(2,3) by (cases ds) simp_all
    then have "d \<noteq> CHR ''+''" "d \<noteq> CHR ''-''" by (auto simp: isDigit_def)
    then have "scanExp (x @ r') = scanDigits p (ds @ r')"
      using s(2) d(1) by (auto simp: scanExp_def ds(1) p_def)
    then show ?thesis using ds(4) valueEnd_noDigit [OF that] by simp
  qed
  moreover have "\<forall>c \<in> set x. 32 \<le> byte c"
    using ds s(2) by (auto simp: isDigit_def p_def split: if_splits)
  moreover have "expStart x" using s(2) by (auto simp: ds(1) p_def expStart_def)
  ultimately show ?thesis by blast
next
  case False
  with assms have "x = []" "r = s" by (cases s; auto simp: scanExp_def split: if_splits)+
  then show ?thesis by (auto simp: expStart_def scanExp_def valueEnd_def split: list.splits)
qed

lemma noDigit_append: "noDigit x \<Longrightarrow> noDigit y \<Longrightarrow> noDigit (x @ y)"
  by (cases x) (simp_all add: noDigit_def)

lemma fracStart_noDigit: "fracStart x \<Longrightarrow> noDigit x"
  by (auto simp: fracStart_def noDigit_def isDigit_def split: list.splits)

lemma expStart_noDigit: "expStart x \<Longrightarrow> noDigit x"
  by (auto simp: expStart_def noDigit_def isDigit_def split: list.splits)

lemma expStart_noDot:
  "expStart x \<Longrightarrow> valueEnd r \<Longrightarrow> (case x @ r of [] \<Rightarrow> True | c # _ \<Rightarrow> c \<noteq> CHR ''.'')"
  by (cases x) (auto simp: expStart_def valueEnd_def split: list.splits)

lemma scanNumber_again:
  assumes "scanNumber s = Some (n, r)"
  shows "s = n @ r" "n \<noteq> []" "hd n = CHR ''-'' \<or> isDigit (hd n)" "\<forall>c \<in> set n. 32 \<le> byte c"
    "valueEnd r' \<Longrightarrow> scanNumber (n @ r') = Some (n, r')"
proof -
  define sg where "sg = (case s of [] \<Rightarrow> [] | c # _ \<Rightarrow> if c = CHR ''-'' then [c] else [])"
  obtain i s2 f s3 e where i: "scanInt (drop (length sg) s) = Some (i, s2)"
    and f: "scanFrac s2 = Some (f, s3)" and e: "scanExp s3 = Some (e, r)" and n: "n = sg @ i @ f @ e"
    using assms unfolding scanNumber_def sg_def [symmetric] Let_def
    by (auto split: option.splits)
  note I = scanInt_again [OF i] and F = scanFrac_again [OF f] and E = scanExp_again [OF e]
  have sg: "sg @ drop (length sg) s = s" by (cases s) (auto simp: sg_def)
  show "s = n @ r" using I(1) F E sg by (simp add: n)
  show "n \<noteq> []" using I(2) by (simp add: n)
  have sgc: "sg = [] \<or> sg = ''-''" by (cases s) (auto simp: sg_def)
  then show "hd n = CHR ''-'' \<or> isDigit (hd n)"
    using I(2,3) by (auto simp: n)
  show "\<forall>c \<in> set n. 32 \<le> byte c"
    using I(3) F E sgc by (auto simp: n isDigit_def)
  assume r': "valueEnd r'"
  have sg': "(case n @ r' of [] \<Rightarrow> [] | c # _ \<Rightarrow> if c = CHR ''-'' then [c] else []) = sg"
  proof (cases "sg = []")
    case True
    obtain d ds where d: "i = d # ds" using I(2) by (cases i) simp_all
    then have "d \<noteq> CHR ''-''" using I(3) by (auto simp: isDigit_def)
    with True d show ?thesis by (simp add: n)
  next
    case False
    with sgc show ?thesis by (auto simp: n)
  qed
  have "scanInt (i @ f @ e @ r') = Some (i, f @ e @ r')"
    using F E valueEnd_noDigit [OF r']
    by (intro I(4) noDigit_append) (auto intro: fracStart_noDigit expStart_noDigit)
  moreover have "scanFrac (f @ e @ r') = Some (f, e @ r')"
    using F E expStart_noDot [OF _ r', of e] noDigit_append [of e r'] expStart_noDigit
      valueEnd_noDigit [OF r'] by blast
  moreover have "scanExp (e @ r') = Some (e, r')" using E r' by blast
  ultimately show "scanNumber (n @ r') = Some (n, r')"
    unfolding scanNumber_def sg' by (simp add: n)
qed

end
