(* ===== verification/Json_Compact.thy ===== *)
theory Json_Compact
  imports Json_Value
begin

text \<open>
  Compaction is idempotent, prints no control character, and does not depend on the fuel.
\<close>

subsection \<open>Cases of a scanned value\<close>

lemma isWS_simps [simp]:
  "\<not> isWS dq" "\<not> isWS (CHR ''['')" "\<not> isWS (CHR ''{'')" "\<not> isWS (CHR '']'')" "\<not> isWS (CHR ''}'')"
  "\<not> isWS (CHR '','')" "\<not> isWS (CHR '':'')" "\<not> isWS (CHR ''t'')" "\<not> isWS (CHR ''f'')"
  "\<not> isWS (CHR ''n'')" "isWS (CHR '' '')" "isWS nl"
  by (simp_all add: isWS_def)

lemma skipws_length: "length (skipws s) \<le> length s"
  by (rule length_dropWhile_le)

lemma prefix_cases: "prefix p s \<Longrightarrow> s = p @ drop (length p) s"
  by (metis append_eq_conv_conj prefixE)

lemma scanValue_elim:
  assumes "scanValue f d s = Some (p, r)"
  obtains (str) g cs b where "f = Suc g" "skipws s = dq # cs" "scanString cs = Some (b, r)"
      "p = dq # escBody b @ [dq]"
  | (arr0) g cs where "f = Suc g" "skipws s = CHR ''['' # cs" "d \<noteq> 0" "skipws cs = CHR '']'' # r"
      "p = ''[]''"
  | (arr) g cs e es q where "f = Suc g" "skipws s = CHR ''['' # cs" "d \<noteq> 0" "skipws cs = e # es"
      "e \<noteq> CHR '']''" "scanElems g (d - 1) cs = Some (q, r)" "p = CHR ''['' # q"
  | (obj0) g cs where "f = Suc g" "skipws s = CHR ''{'' # cs" "d \<noteq> 0" "skipws cs = CHR ''}'' # r"
      "p = ''{}''"
  | (obj) g cs e es q fs where "f = Suc g" "skipws s = CHR ''{'' # cs" "d \<noteq> 0" "skipws cs = e # es"
      "e \<noteq> CHR ''}''" "scanMembers g (d - 1) cs = Some (q, fs, r)" "p = CHR ''{'' # q"
  | (lit) g where "f = Suc g" "skipws s = p @ r" "p \<in> {''true'', ''false'', ''null''}"
  | (num) g c cs where "f = Suc g" "skipws s = c # cs" "scanNumber (c # cs) = Some (p, r)"
proof -
  obtain g where f: "f = Suc g" using assms by (cases f) simp_all
  obtain c cs where s: "skipws s = c # cs" using assms f by (cases "skipws s") simp_all
  consider "c = dq" | "c = CHR ''[''" | "c = CHR ''{''"
    | "c \<noteq> dq" "c \<noteq> CHR ''[''" "c \<noteq> CHR ''{''" by blast
  then show thesis
  proof cases
    case 1
    with assms f s obtain b where "scanString cs = Some (b, r)" "p = dq # escBody b @ [dq]"
      by (auto split: option.splits)
    with 1 f s show thesis by (intro str) simp_all
  next
    case 2
    with assms f s have d: "d \<noteq> 0" by (simp split: if_splits)
    with assms f s 2 obtain e es where e: "skipws cs = e # es" by (cases "skipws cs") simp_all
    show thesis
    proof (cases "e = CHR '']''")
      case True
      with assms f s 2 d e have "p = ''[]''" "r = es" by simp_all
      with f s 2 d e True show thesis by (intro arr0) simp_all
    next
      case False
      with assms f s 2 d e obtain q where "scanElems g (d - 1) cs = Some (q, r)" "p = CHR ''['' # q"
        by (auto simp: map_option_eq_Some_conv)
      with f s 2 d e False show thesis by (intro arr) simp_all
    qed
  next
    case 3
    with assms f s have d: "d \<noteq> 0" by (simp split: if_splits)
    with assms f s 3 obtain e es where e: "skipws cs = e # es" by (cases "skipws cs") simp_all
    show thesis
    proof (cases "e = CHR ''}''")
      case True
      with assms f s 3 d e have "p = ''{}''" "r = es" by simp_all
      with f s 3 d e True show thesis by (intro obj0) simp_all
    next
      case False
      with assms f s 3 d e obtain q fs where "scanMembers g (d - 1) cs = Some (q, fs, r)"
        "p = CHR ''{'' # q"
        by (auto split: option.splits)
      with f s 3 d e False show thesis by (intro obj) simp_all
    qed
  next
    case 4
    consider "prefix ''true'' (c # cs)" | "prefix ''false'' (c # cs)" | "prefix ''null'' (c # cs)"
      | "\<not> prefix ''true'' (c # cs)" "\<not> prefix ''false'' (c # cs)" "\<not> prefix ''null'' (c # cs)"
      by blast
    then show thesis
    proof cases
      case 1
      with assms f s 4 have "p = ''true''" "r = drop 3 cs" by (auto simp del: Cons_prefix_Cons)
      with f s 1 prefix_cases [OF 1] show thesis by (intro lit) (simp_all add: eval_nat_numeral del: Cons_prefix_Cons)
    next
      case 2
      then have "\<not> prefix ''true'' (c # cs)" by auto
      with assms f s 4 2 have "p = ''false''" "r = drop 4 cs" by (auto simp del: Cons_prefix_Cons)
      with f s 2 prefix_cases [OF 2] show thesis by (intro lit) (simp_all add: eval_nat_numeral del: Cons_prefix_Cons)
    next
      case 3
      then have "\<not> prefix ''true'' (c # cs)" "\<not> prefix ''false'' (c # cs)" by auto
      with assms f s 4 3 have "p = ''null''" "r = drop 3 cs" by (auto simp del: Cons_prefix_Cons)
      with f s 3 prefix_cases [OF 3] show thesis by (intro lit) (simp_all add: eval_nat_numeral del: Cons_prefix_Cons)
    next
      case 5: 4
      with assms f s 4 have "scanNumber (c # cs) = Some (p, r)" by (simp del: Cons_prefix_Cons)
      with f s show thesis by (rule num)
    qed
  qed
qed

lemma scanElems_elim:
  assumes "scanElems f d s = Some (p, r)"
  obtains (more) g q t cs p' where "f = Suc g" "scanValue g d s = Some (q, t)"
      "skipws t = CHR '','' # cs" "scanElems g d cs = Some (p', r)" "p = q @ CHR '','' # p'"
  | (last) g q t where "f = Suc g" "scanValue g d s = Some (q, t)" "skipws t = CHR '']'' # r"
      "p = q @ '']''"
proof -
  obtain g where f: "f = Suc g" using assms by (cases f) simp_all
  obtain q t where q: "scanValue g d s = Some (q, t)" using assms f by (auto split: option.splits)
  obtain c cs where t: "skipws t = c # cs" using assms f q by (cases "skipws t") simp_all
  show thesis
  proof (cases "c = CHR '',''")
    case True
    with assms f q t obtain p' where "scanElems g d cs = Some (p', r)" "p = q @ CHR '','' # p'"
      by (auto simp: map_option_eq_Some_conv)
    with f q t True show thesis by (intro more) simp_all
  next
    case False
    with assms f q t have "c = CHR '']''" by (simp split: if_splits)
    with assms f q t show thesis by (intro last) auto
  qed
qed

lemma scanMembers_elim:
  assumes "scanMembers f d s = Some (p, fs, r)"
  obtains (more) g cs k t cs' q u es p' fs' where "f = Suc g" "skipws s = dq # cs"
      "scanString cs = Some (k, t)" "skipws t = CHR '':'' # cs'" "scanValue g d cs' = Some (q, u)"
      "skipws u = CHR '','' # es" "scanMembers g d es = Some (p', fs', r)"
      "p = dq # escBody k @ dq # CHR '':'' # q @ CHR '','' # p'"
      "fs = (k, take (length (skipws cs') - length u) (skipws cs')) # fs'"
  | (last) g cs k t cs' q u where "f = Suc g" "skipws s = dq # cs"
      "scanString cs = Some (k, t)" "skipws t = CHR '':'' # cs'" "scanValue g d cs' = Some (q, u)"
      "skipws u = CHR ''}'' # r"
      "p = dq # escBody k @ dq # CHR '':'' # q @ ''}''"
      "fs = [(k, take (length (skipws cs') - length u) (skipws cs'))]"
proof -
  obtain g where f: "f = Suc g" using assms by (cases f) simp_all
  obtain c cs where s: "skipws s = c # cs" using assms f by (cases "skipws s") simp_all
  have c: "c = dq" using assms f s by (simp split: if_splits)
  obtain k t where k: "scanString cs = Some (k, t)"
    using assms f s c by (auto split: option.splits)
  obtain c' cs' where t: "skipws t = c' # cs'" using assms f s c k by (cases "skipws t") simp_all
  have c': "c' = CHR '':''" using assms f s c k t by (simp split: if_splits)
  obtain q u where q: "scanValue g d cs' = Some (q, u)"
    using assms f s c k t c' by (auto split: option.splits)
  obtain e es where u: "skipws u = e # es"
    using assms f s c k t c' q by (cases "skipws u") (simp_all add: Let_def)
  show thesis
  proof (cases "e = CHR '',''")
    case True
    with assms f s c k t c' q u obtain p' fs' where "scanMembers g d es = Some (p', fs', r)"
      "p = dq # escBody k @ dq # CHR '':'' # q @ CHR '','' # p'"
      "fs = (k, take (length (skipws cs') - length u) (skipws cs')) # fs'"
      by (auto simp: Let_def split: option.splits)
    with f s c k t c' q u True show thesis by (intro more) simp_all
  next
    case False
    with assms f s c k t c' q u have "e = CHR ''}''" by (simp add: Let_def split: if_splits)
    with assms f s c k t c' q u show thesis by (intro last) (auto simp: Let_def)
  qed
qed

subsection \<open>Every value consumes input\<close>

lemma scan_length:
  "(\<forall>d s p r. scanValue f d s = Some (p, r) \<longrightarrow> length r < length s) \<and>
   (\<forall>d s p r. scanElems f d s = Some (p, r) \<longrightarrow> length r < length s) \<and>
   (\<forall>d s p fs r. scanMembers f d s = Some (p, fs, r) \<longrightarrow> length r < length s)"
proof (induction f)
  case 0
  then show ?case by simp
next
  case (Suc f)
  note V = Suc.IH [THEN conjunct1, rule_format]
    and E = Suc.IH [THEN conjunct2, THEN conjunct1, rule_format]
    and M = Suc.IH [THEN conjunct2, THEN conjunct2, rule_format]
  have V': "length r < length s" if "scanValue (Suc f) d s = Some (p, r)" for d s p r
    using that
  proof (cases rule: scanValue_elim)
    case (str g cs b)
    then show ?thesis using scanString_sound [OF str(3)] skipws_length [of s] by simp
  next
    case (arr0 g cs)
    then show ?thesis using skipws_length [of s] skipws_length [of cs] by simp
  next
    case (arr g cs e es q)
    then show ?thesis using E [of "d - 1" cs q r] skipws_length [of s] by simp
  next
    case (obj0 g cs)
    then show ?thesis using skipws_length [of s] skipws_length [of cs] by simp
  next
    case (obj g cs e es q fs)
    then show ?thesis using M [of "d - 1" cs q fs r] skipws_length [of s] by simp
  next
    case (lit g)
    then have "length r < length (skipws s)" by auto
    then show ?thesis using skipws_length [of s] by linarith
  next
    case (num g c cs)
    note N = scanNumber_again(1,2) [OF num(3)]
    have "length r < length (skipws s)" using N by (simp add: num(2))
    then show ?thesis using skipws_length [of s] by linarith
  qed
  have E': "length r < length s" if "scanElems (Suc f) d s = Some (p, r)" for d s p r
    using that
  proof (cases rule: scanElems_elim)
    case (more g q t cs p')
    then show ?thesis using V [of d s q t] E [of d cs p' r] skipws_length [of t] by simp
  next
    case (last g q t)
    then show ?thesis using V [of d s q t] skipws_length [of t] by simp
  qed
  have M': "length r < length s" if "scanMembers (Suc f) d s = Some (p, fs, r)" for d s p fs r
    using that
  proof (cases rule: scanMembers_elim)
    case (more g cs k t cs' q u es p' fs')
    then show ?thesis
      using V [of d cs' q u] M [of d es p' fs' r] scanString_sound [OF more(3)]
        skipws_length [of s] skipws_length [of t] skipws_length [of u] by simp
  next
    case (last g cs k t cs' q u)
    then show ?thesis
      using V [of d cs' q u] scanString_sound [OF last(3)]
        skipws_length [of s] skipws_length [of t] skipws_length [of u] by simp
  qed
  from V' E' M' show ?case by blast
qed

lemmas scanValue_length = scan_length [THEN conjunct1, rule_format]
lemmas scanElems_length = scan_length [THEN conjunct2, THEN conjunct1, rule_format]
lemmas scanMembers_length = scan_length [THEN conjunct2, THEN conjunct2, rule_format]

subsection \<open>Fuel\<close>

text \<open>A scan that succeeds with some fuel succeeds alike with any fuel above a bound.\<close>

lemma scan_fuel:
  "(\<forall>d s x f'. scanValue f d s = Some x \<longrightarrow> 2 * length s + 1 \<le> f' \<longrightarrow> scanValue f' d s = Some x) \<and>
   (\<forall>d s x f'. scanElems f d s = Some x \<longrightarrow> 2 * length s + 2 \<le> f' \<longrightarrow> scanElems f' d s = Some x) \<and>
   (\<forall>d s x f'. scanMembers f d s = Some x \<longrightarrow> 2 * length s + 2 \<le> f' \<longrightarrow> scanMembers f' d s = Some x)"
proof (induction f)
  case 0
  then show ?case by simp
next
  case (Suc f)
  note V = Suc.IH [THEN conjunct1, rule_format]
    and E = Suc.IH [THEN conjunct2, THEN conjunct1, rule_format]
    and M = Suc.IH [THEN conjunct2, THEN conjunct2, rule_format]
  have V': "scanValue f' d s = Some x"
    if sc: "scanValue (Suc f) d s = Some x" and f': "2 * length s + 1 \<le> f'" for d s x f'
  proof -
    obtain f'' where f'': "f' = Suc f''" "2 * length s \<le> f''" using f' by (cases f') simp_all
    obtain p r where x: "x = (p, r)" by fastforce
    from sc [unfolded x] show ?thesis
    proof (cases rule: scanValue_elim)
      case (arr g cs e es q)
      moreover have "2 * length cs + 2 \<le> f''"
        using skipws_length [of s] f''(2) arr(2) by simp
      ultimately show ?thesis using E [of "d - 1" cs "(q, r)" f''] f''(1) x by simp
    next
      case (obj g cs e es q fs)
      moreover have "2 * length cs + 2 \<le> f''"
        using skipws_length [of s] f''(2) obj(2) by simp
      ultimately show ?thesis using M [of "d - 1" cs "(q, fs, r)" f''] f''(1) x by simp
    next
      case (lit g)
      then show ?thesis using sc f''(1) by (auto simp del: Cons_prefix_Cons)
    next
      case (num g c cs)
      note N = scanNumber_again(3) [OF num(3)] scanNumber_again(1,2) [OF num(3)]
      have "c = hd p" using N by (cases p) simp_all
      then have "c \<noteq> dq \<and> c \<noteq> CHR ''['' \<and> c \<noteq> CHR ''{''" using N(1) by (auto simp: isDigit_def)
      then show ?thesis using sc f''(1) num(2) by (simp del: Cons_prefix_Cons)
    qed (use sc f''(1) in \<open>simp_all del: Cons_prefix_Cons\<close>)
  qed
  have E': "scanElems f' d s = Some x"
    if sc: "scanElems (Suc f) d s = Some x" and f': "2 * length s + 2 \<le> f'" for d s x f'
  proof -
    obtain f'' where f'': "f' = Suc f''" "2 * length s + 1 \<le> f''" using f' by (cases f') simp_all
    obtain p r where x: "x = (p, r)" by fastforce
    from sc [unfolded x] show ?thesis
    proof (cases rule: scanElems_elim)
      case (more g q t cs p')
      then have v: "scanValue f d s = Some (q, t)" by simp
      have "2 * length cs + 2 \<le> f''"
        using scanValue_length [OF v] skipws_length [of t] f''(2) more(3) by simp
      with more show ?thesis
        using V [OF v f''(2)] E [of d cs "(p', r)" f''] f''(1) x by simp
    next
      case (last g q t)
      then show ?thesis using V [of d s "(q, t)" f''] f'' x by simp
    qed
  qed
  have M': "scanMembers f' d s = Some x"
    if sc: "scanMembers (Suc f) d s = Some x" and f': "2 * length s + 2 \<le> f'" for d s x f'
  proof -
    obtain f'' where f'': "f' = Suc f''" "2 * length s + 1 \<le> f''" using f' by (cases f') simp_all
    obtain p fs r where x: "x = (p, fs, r)" by (cases x) auto
    from sc [unfolded x] show ?thesis
    proof (cases rule: scanMembers_elim)
      case (more g cs k t cs' q u es p' fs')
      then have v: "scanValue f d cs' = Some (q, u)" by simp
      have l: "length cs' < length s"
        using scanString_sound [OF more(3)] skipws_length [of s] skipws_length [of t] more(2,4) by simp
      moreover have "length es < length cs'"
        using scanValue_length [OF v] skipws_length [of u] more(6) by simp
      ultimately have "scanMembers f'' d es = Some (p', fs', r)"
        using M [of d es "(p', fs', r)" f''] more(1,7) f''(2) by simp
      moreover have "scanValue f'' d cs' = Some (q, u)" using V [OF v] l f''(2) by simp
      ultimately show ?thesis using more f''(1) x by (simp add: Let_def)
    next
      case (last g cs k t cs' q u)
      then have v: "scanValue f d cs' = Some (q, u)" by simp
      have "length cs' < length s"
        using scanString_sound [OF last(3)] skipws_length [of s] skipws_length [of t] last(2,4) by simp
      then have "scanValue f'' d cs' = Some (q, u)" using V [OF v] f''(2) by simp
      then show ?thesis using last f''(1) x by (simp add: Let_def)
    qed
  qed
  from V' E' M' show ?case by blast
qed

lemma scanValue_fuel:
  "scanValue f d s = Some x \<Longrightarrow> 2 * length s + 1 \<le> f' \<Longrightarrow> scanValue f' d s = Some x"
  using scan_fuel by blast

lemma scanMembers_fuel:
  "scanMembers f d s = Some x \<Longrightarrow> 2 * length s + 2 \<le> f' \<Longrightarrow> scanMembers f' d s = Some x"
  using scan_fuel by blast

subsection \<open>Compacted text scans to itself\<close>

definition okStart :: "bytes \<Rightarrow> bool" where
  "okStart p \<longleftrightarrow> (\<exists>c q. p = c # q \<and> \<not> isWS c \<and> c \<noteq> CHR '']'' \<and> c \<noteq> CHR ''}'')"

definition printable :: "bytes \<Rightarrow> bool" where
  "printable p \<longleftrightarrow> (\<forall>c \<in> set p. 32 \<le> byte c)"

lemma printable_simps [simp]:
  "printable []" "printable (c # p) \<longleftrightarrow> 32 \<le> byte c \<and> printable p"
  "printable (p @ q) \<longleftrightarrow> printable p \<and> printable q"
  by (auto simp: printable_def)

lemma okStart_skipws: "okStart p \<Longrightarrow> skipws (p @ r) = p @ r"
  by (auto simp: okStart_def)

lemma okStart_append: "okStart p \<Longrightarrow> okStart (p @ q)"
  by (auto simp: okStart_def)

lemma scanValue_number:
  assumes "scanNumber (p @ r') = Some (p, r')" "p \<noteq> []" "hd p = CHR ''-'' \<or> isDigit (hd p)"
  shows "scanValue (Suc g) d (p @ r') = Some (p, r')" "okStart p"
proof -
  obtain c q where p: "p = c # q" using assms(2) by (cases p) simp_all
  have c: "c = CHR ''-'' \<or> 48 \<le> byte c \<and> byte c \<le> 57" using assms(3) p by (simp add: isDigit_def)
  then have nws: "\<not> isWS c" and nb: "c \<noteq> CHR '']''" "c \<noteq> CHR ''}''" "c \<noteq> dq" "c \<noteq> CHR ''[''"
    "c \<noteq> CHR ''{''" "c \<noteq> CHR ''t''" "c \<noteq> CHR ''f''" "c \<noteq> CHR ''n''"
    by (auto simp: isWS_def)
  then show "okStart p" by (simp add: okStart_def p)
  show "scanValue (Suc g) d (p @ r') = Some (p, r')"
    using assms(1) nws nb by (simp add: p)
qed

lemma scan_again:
  "(\<forall>d s p r r'. scanValue f d s = Some (p, r) \<longrightarrow>
      okStart p \<and> printable p \<and> (valueEnd r' \<longrightarrow> scanValue f d (p @ r') = Some (p, r'))) \<and>
   (\<forall>d s p r r'. scanElems f d s = Some (p, r) \<longrightarrow>
      okStart p \<and> printable p \<and> scanElems f d (p @ r') = Some (p, r')) \<and>
   (\<forall>d s p fs r r'. scanMembers f d s = Some (p, fs, r) \<longrightarrow>
      okStart p \<and> printable p \<and> (\<exists>fs'. scanMembers f d (p @ r') = Some (p, fs', r')))"
proof (induction f)
  case 0
  then show ?case by simp
next
  case (Suc f)
  note V = Suc.IH [THEN conjunct1, rule_format]
    and E = Suc.IH [THEN conjunct2, THEN conjunct1, rule_format]
    and M = Suc.IH [THEN conjunct2, THEN conjunct2, rule_format]
  have V': "okStart p \<and> printable p \<and> (valueEnd r' \<longrightarrow> scanValue (Suc f) d (p @ r') = Some (p, r'))"
    if "scanValue (Suc f) d s = Some (p, r)" for d s p r r'
    using that
  proof (cases rule: scanValue_elim)
    case (str g cs b)
    have sb: "strBody (escBody b)"
      using scanString_sound [OF str(3)] by (simp add: strBody_escBody)
    have "printable (escBody b)" using strBody_printable [OF sb] by (simp add: printable_def)
    then show ?thesis
      using scanString_complete [OF sb, of r'] str(4) by (simp add: okStart_def)
  next
    case (arr g cs e es q)
    then have e: "scanElems f (d - 1) cs = Some (q, r)" by simp
    note Q = E [OF e, of r']
    from Q have "okStart q" by blast
    then obtain c q' where q: "q = c # q'" "\<not> isWS c" "c \<noteq> CHR '']''"
      by (auto simp: okStart_def)
    with Q arr(3) show ?thesis by (simp add: arr(7) okStart_def)
  next
    case (obj g cs e es q fs)
    then have m: "scanMembers f (d - 1) cs = Some (q, fs, r)" by simp
    note Q = M [OF m, of r']
    from Q have "okStart q" by blast
    then obtain c q' where q: "q = c # q'" "\<not> isWS c" "c \<noteq> CHR ''}''"
      by (auto simp: okStart_def)
    from Q obtain fs' where "scanMembers f (d - 1) (q @ r') = Some (q, fs', r')" by blast
    with Q q obj(3) show ?thesis by (simp add: obj(7) okStart_def)
  next
    case (lit g)
    from lit(3) show ?thesis by (elim insertE emptyE) (simp_all add: okStart_def)
  next
    case (num g c cs)
    note N = scanNumber_again(2-5) [OF num(3)]
    have "okStart p" "printable p"
      using scanValue_number(2) [OF N(4) N(1,2), of "[]"] N(3) by (simp_all add: printable_def)
    then show ?thesis using scanValue_number(1) [OF N(4) N(1,2)] by blast
  qed (auto simp: okStart_def)
  have E': "okStart p \<and> printable p \<and> scanElems (Suc f) d (p @ r') = Some (p, r')"
    if "scanElems (Suc f) d s = Some (p, r)" for d s p r r'
    using that
  proof (cases rule: scanElems_elim)
    case (more g q t cs p')
    then have v: "scanValue f d s = Some (q, t)" and e: "scanElems f d cs = Some (p', r)" by simp_all
    show ?thesis
      using V [OF v, of "CHR '','' # p' @ r'"] E [OF e, of r'] okStart_append
      by (auto simp: more(5))
  next
    case (last g q t)
    then have v: "scanValue f d s = Some (q, t)" by simp
    show ?thesis using V [OF v, of "CHR '']'' # r'"] okStart_append by (auto simp: last(4))
  qed
  have M': "okStart p \<and> printable p \<and> (\<exists>fs'. scanMembers (Suc f) d (p @ r') = Some (p, fs', r'))"
    if "scanMembers (Suc f) d s = Some (p, fs, r)" for d s p fs r r'
    using that
  proof (cases rule: scanMembers_elim)
    case (more g cs k t cs' q u es p' fs')
    then have v: "scanValue f d cs' = Some (q, u)" and m: "scanMembers f d es = Some (p', fs', r)"
      by simp_all
    have sb: "strBody (escBody k)"
      using scanString_sound [OF more(3)] by (simp add: strBody_escBody)
    have "printable (escBody k)" using strBody_printable [OF sb] by (simp add: printable_def)
    moreover obtain fs2 where "scanMembers f d (p' @ r') = Some (p', fs2, r')"
      using M [OF m, of r'] by blast
    ultimately show ?thesis
      using V [OF v, of "CHR '','' # p' @ r'"] M [OF m, of r']
        scanString_complete [OF sb, of "CHR '':'' # q @ CHR '','' # p' @ r'"]
      by (simp add: more(8) okStart_def Let_def)
  next
    case (last g cs k t cs' q u)
    then have v: "scanValue f d cs' = Some (q, u)" by simp
    have sb: "strBody (escBody k)"
      using scanString_sound [OF last(3)] by (simp add: strBody_escBody)
    have "printable (escBody k)" using strBody_printable [OF sb] by (simp add: printable_def)
    then show ?thesis
      using V [OF v, of "CHR ''}'' # r'"]
        scanString_complete [OF sb, of "CHR '':'' # q @ CHR ''}'' # r'"]
      by (simp add: last(7) okStart_def Let_def)
  qed
  from V' E' M' show ?case by blast
qed

lemma scanValue_again:
  "scanValue f d s = Some (p, r) \<Longrightarrow> valueEnd r' \<Longrightarrow> scanValue f d (p @ r') = Some (p, r')"
  using scan_again by blast

lemma scanValue_starts:
  "scanValue f d s = Some (p, r) \<Longrightarrow> okStart p \<and> printable p"
  using scan_again by blast

text \<open>
  Canonical text: what \<open>json.Marshal\<close> prints for a document that may be nested
  \<open>d\<close> levels deep.
\<close>

definition canonAt :: "nat \<Rightarrow> bytes \<Rightarrow> bool" where
  "canonAt d v \<longleftrightarrow> scanValue (scanFuel v) d v = Some (v, [])"

lemma scanFuel_bound [simp]: "2 * length s + 1 \<le> scanFuel s" "2 * length s + 2 \<le> scanFuel s"
  by (simp_all add: scanFuel_def)

lemma compact_canon: "compact s = Some v \<Longrightarrow> canonAt maxNestingDepth v"
proof -
  assume "compact s = Some v"
  then obtain r where "scanValue (scanFuel s) maxNestingDepth s = Some (v, r)"
    by (auto simp: compact_def split: option.splits if_splits)
  then have "scanValue (scanFuel s) maxNestingDepth (v @ []) = Some (v, [])"
    by (rule scanValue_again) simp
  from scanValue_fuel [OF this scanFuel_bound(1)] show ?thesis by (simp add: canonAt_def)
qed

lemma canon_compact: "canonAt maxNestingDepth v \<Longrightarrow> compact v = Some v"
  by (simp add: canonAt_def compact_def)

lemma canon_scan:
  assumes "canonAt d v" "valueEnd r" "2 * length (v @ r) + 1 \<le> f"
  shows "scanValue f d (v @ r) = Some (v, r)"
proof -
  have "scanValue (scanFuel v) d (v @ r) = Some (v, r)"
    using assms(1) [unfolded canonAt_def] assms(2) by (rule scanValue_again)
  then show ?thesis using assms(3) by (rule scanValue_fuel)
qed

lemma canon_okStart: "canonAt d v \<Longrightarrow> okStart v"
  and canon_printable: "canonAt d v \<Longrightarrow> printable v"
  unfolding canonAt_def by (simp_all add: scanValue_starts)

lemma canon_nonempty: "canonAt d v \<Longrightarrow> v \<noteq> []"
  using canon_okStart by (auto simp: okStart_def)

lemma printable_no_newline: "printable v \<Longrightarrow> nl \<notin> set v"
  by (auto simp: printable_def)

end
