(* ===== verification/Names.thy ===== *)
theory Names
  imports Prelude
begin

text \<open>
  Collection names: the grammar check of \<open>medb.go\<close> (\<open>validName\<close>), its mirror in
  the server (\<open>validCollectionName\<close> of \<open>cmd/medb/protocol.go\<close>), the reserved
  \<open>_meta\<close> namespace, and the snapshot path a name is stored under (\<open>collPath\<close>).

  A file-system path is the list of its components (\<open>string list\<close>), so
  \<open>filepath.Dir\<close> is \<open>butlast\<close> and \<open>filepath.Join\<close> of clean components
  is append.
\<close>

type_synonym path = "string list"

definition maxNameLen :: nat where
  "maxNameLen = 240"

definition nameChar :: "char \<Rightarrow> bool" where
  "nameChar c \<longleftrightarrow> CHR ''a'' \<le> c \<and> c \<le> CHR ''z'' \<or> CHR ''0'' \<le> c \<and> c \<le> CHR ''9''
     \<or> c = CHR ''_'' \<or> c = CHR ''-''"

text \<open>The loop of \<open>validName\<close>: \<open>seg\<close> counts the bytes of the current segment.\<close>

fun validName_loop :: "nat \<Rightarrow> string \<Rightarrow> bool" where
  "validName_loop seg [] = (seg > 0)"
| "validName_loop seg (c # cs) =
     (if c = CHR ''/'' then
        if seg = 0 then False else validName_loop 0 cs
      else if nameChar c then validName_loop (seg + 1) cs
      else False)"

definition validName :: "string \<Rightarrow> bool" where
  "validName name = (if length name > maxNameLen then False else validName_loop 0 name)"

text \<open>
  \<open>protocol.go\<close> repeats the check with an explicit test for the empty name and its own
  segment counter.
\<close>

fun validCollectionName_loop :: "nat \<Rightarrow> string \<Rightarrow> bool" where
  "validCollectionName_loop segment [] = (segment > 0)"
| "validCollectionName_loop segment (c # cs) =
     (if c = CHR ''/'' then
        if segment = 0 then False else validCollectionName_loop 0 cs
      else if CHR ''a'' \<le> c \<and> c \<le> CHR ''z'' \<or> CHR ''0'' \<le> c \<and> c \<le> CHR ''9''
              \<or> c = CHR ''-'' \<or> c = CHR ''_'' then
        validCollectionName_loop (segment + 1) cs
      else False)"

definition validCollectionName :: "string \<Rightarrow> bool" where
  "validCollectionName name =
     (if length name = 0 \<or> length name > 240 then False
      else validCollectionName_loop 0 name)"

definition reservedCollection :: "string \<Rightarrow> bool" where
  "reservedCollection name \<longleftrightarrow> name = ''_meta'' \<or> prefix ''_meta/'' name"

subsection \<open>Paths\<close>

text \<open>\<open>filepath.FromSlash\<close> followed by the split \<open>filepath.Join\<close> performs.\<close>

fun split_slash :: "string \<Rightarrow> path" where
  "split_slash [] = [[]]"
| "split_slash (c # cs) =
     (if c = CHR ''/'' then [] # split_slash cs
      else (case split_slash cs of [] \<Rightarrow> [[c]] | s # ss \<Rightarrow> (c # s) # ss))"

text \<open>\<open>filepath.ToSlash\<close> of a relative path.\<close>

fun join_slash :: "path \<Rightarrow> string" where
  "join_slash [] = []"
| "join_slash [s] = s"
| "join_slash (s # t # ss) = s @ CHR ''/'' # join_slash (t # ss)"

definition jsonExt :: string where
  "jsonExt = ''.json''"

definition collPath :: "path \<Rightarrow> string \<Rightarrow> path" where
  "collPath dir name = dir @ split_slash (name @ jsonExt)"

text \<open>
  \<open>strings.HasSuffix(d.Name(), ".json")\<close> and \<open>strings.TrimSuffix\<close>, as \<open>load\<close>
  uses them to recover a name from a relative path.
\<close>

definition trimSuffix :: "string \<Rightarrow> string \<Rightarrow> string" where
  "trimSuffix s suf = (if suffix suf s then take (length s - length suf) s else s)"

definition relName :: "path \<Rightarrow> string" where
  "relName rel = trimSuffix (join_slash rel) jsonExt"

subsection \<open>The name grammar\<close>

text \<open>
  The reference definition: one or more segments separated by slashes, each a non-empty
  word over \<open>[a-z0-9_-]\<close>.
\<close>

definition name_grammar :: "string \<Rightarrow> bool" where
  "name_grammar name \<longleftrightarrow> (\<forall>s \<in> set (split_slash name). s \<noteq> [] \<and> list_all nameChar s)"

lemma nameChar_not_slash [simp]: "\<not> nameChar (CHR ''/'')"
  by (simp add: nameChar_def less_eq_char_def)

lemma nameChar_not_dot [simp]: "\<not> nameChar (CHR ''.'')"
  by (simp add: nameChar_def less_eq_char_def)

lemma split_slash_not_Nil [simp]: "split_slash s \<noteq> []"
  by (cases s) (auto split: list.splits)

lemma hd_split_slash: "split_slash s = hd (split_slash s) # tl (split_slash s)"
  by simp

lemma validName_loop_split:
  "validName_loop n s \<longleftrightarrow>
     (n > 0 \<or> hd (split_slash s) \<noteq> []) \<and> list_all nameChar (hd (split_slash s)) \<and>
     (\<forall>t \<in> set (tl (split_slash s)). t \<noteq> [] \<and> list_all nameChar t)"
proof (induction s arbitrary: n)
  case Nil
  then show ?case by simp
next
  case (Cons c cs)
  obtain t ts where ts: "split_slash cs = t # ts"
    by (cases "split_slash cs") auto
  show ?case
    using Cons.IH [of 0] Cons.IH [of "n + 1"] by (auto simp: ts)
qed

lemma validName_iff: "validName name \<longleftrightarrow> length name \<le> maxNameLen \<and> name_grammar name"
  using hd_split_slash [of name]
  by (cases "split_slash name")
     (auto simp: validName_def validName_loop_split name_grammar_def)

lemma validCollectionName_loop_eq: "validCollectionName_loop n s = validName_loop n s"
  by (induction s arbitrary: n) (auto simp: nameChar_def)

lemma validName_nonempty: "validName name \<Longrightarrow> name \<noteq> []"
  by (auto simp: validName_def split: if_splits)

text \<open>
  The server's copy of the check agrees with \<open>validName\<close> on every string, so a name the server
  lets through never makes \<open>medb.C\<close> panic.
\<close>

lemma validCollectionName_eq_validName: "validCollectionName = validName"
proof
  fix name
  show "validCollectionName name = validName name"
    by (cases name)
       (simp_all add: validCollectionName_def validName_def maxNameLen_def
          validCollectionName_loop_eq)
qed

subsection \<open>Names and paths\<close>

lemma join_slash_Cons: "ss \<noteq> [] \<Longrightarrow> join_slash (s # ss) = s @ CHR ''/'' # join_slash ss"
  by (cases ss) auto

lemma join_split_slash [simp]: "join_slash (split_slash s) = s"
proof (induction s)
  case (Cons c cs)
  obtain t ts where "split_slash cs = t # ts"
    by (cases "split_slash cs") auto
  with Cons.IH show ?case
    by (cases ts) (auto simp: join_slash_Cons)
qed simp

lemma inj_split_slash: "split_slash s = split_slash t \<Longrightarrow> s = t"
  by (metis join_split_slash)

lemma split_slash_append_noslash:
  "CHR ''/'' \<notin> set t \<Longrightarrow>
     split_slash (s @ t) = butlast (split_slash s) @ [last (split_slash s) @ t]"
proof (induction s)
  case Nil
  then show ?case by (induction t) auto
next
  case (Cons c cs)
  obtain u us where us: "split_slash cs = u # us"
    by (cases "split_slash cs") auto
  with Cons show ?case by (cases us) auto
qed

lemma jsonExt_noslash [simp]: "CHR ''/'' \<notin> set jsonExt"
  by (simp add: jsonExt_def)

lemma collPath_alt:
  "collPath dir name =
     dir @ butlast (split_slash name) @ [last (split_slash name) @ jsonExt]"
  by (simp add: collPath_def split_slash_append_noslash)

lemma collPath_inj: "collPath dir a = collPath dir b \<Longrightarrow> a = b"
  by (auto simp: collPath_def dest: inj_split_slash)

lemma relName_collPath: "relName (split_slash (name @ jsonExt)) = name"
  by (simp add: relName_def trimSuffix_def suffix_def)

lemma collPath_not_Nil [simp]: "collPath dir name \<noteq> []"
  by (simp add: collPath_alt)

lemma last_collPath [simp]: "last (collPath dir name) = last (split_slash name) @ jsonExt"
  by (simp add: collPath_alt)

lemma butlast_collPath [simp]:
  "butlast (collPath dir name) = dir @ butlast (split_slash name)"
  by (simp add: collPath_alt butlast_append)

lemma split_slash_length: "s \<in> set (split_slash n) \<Longrightarrow> length s \<le> length n"
  by (induction n arbitrary: s) (fastforce split: if_splits list.splits)+

subsection \<open>The reference expression\<close>

text \<open>
  The regular expressions \<open>fuzz_test.go\<close> needs, with the strings they match as a whole, and its
  \<open>validNameRef\<close>, \<open>\A[a-z0-9_-]+(/[a-z0-9_-]+)*\z\<close>, with the class written out.
\<close>

datatype rexp = Chars string | Seq rexp rexp | Star rexp

inductive matches :: "rexp \<Rightarrow> string \<Rightarrow> bool" where
  chars: "c \<in> set cs \<Longrightarrow> matches (Chars cs) [c]"
| seq: "matches p s \<Longrightarrow> matches q t \<Longrightarrow> matches (Seq p q) (s @ t)"
| star_nil: "matches (Star p) []"
| star_step: "matches p s \<Longrightarrow> matches (Star p) t \<Longrightarrow> matches (Star p) (s @ t)"

inductive_simps matches_simps: "matches (Chars cs) s" "matches (Seq p q) s"

abbreviation plus :: "rexp \<Rightarrow> rexp" where
  "plus p \<equiv> Seq p (Star p)"

definition validNameRef :: rexp where
  "validNameRef = (let word = plus (Chars ''abcdefghijklmnopqrstuvwxyz0123456789_-'') in Seq word (Star (Seq (Chars ''/'') word)))"

lemma matches_star: "matches (Star p) s \<longleftrightarrow> (\<exists>ts. s = concat ts \<and> (\<forall>t \<in> set ts. matches p t))"
proof
  show "\<exists>ts. s = concat ts \<and> (\<forall>t \<in> set ts. matches p t)" if "matches (Star p) s"
    using that
  proof (induction "Star p" s rule: matches.induct)
    case star_nil
    show ?case by (rule exI [of _ "[]"]) simp
  next
    case (star_step s t)
    then obtain ts where "t = concat ts" "\<forall>t \<in> set ts. matches p t" by blast
    then show ?case using star_step(1) by (intro exI [of _ "s # ts"]) simp
  qed
  have "matches (Star p) (concat ts)" if "\<forall>t \<in> set ts. matches p t" for ts
    using that by (induction ts) (auto intro: matches.intros)
  then show "matches (Star p) s" if "\<exists>ts. s = concat ts \<and> (\<forall>t \<in> set ts. matches p t)" using that by blast
qed

lemma matches_letter: "matches (Chars cs) s \<longleftrightarrow> (\<exists>c \<in> set cs. s = [c])"
  by (auto simp: matches_simps)

lemma matches_letters: "matches (Star (Chars cs)) s \<longleftrightarrow> set s \<subseteq> set cs"
  unfolding matches_star matches_letter
proof
  show "set s \<subseteq> set cs" if "\<exists>ts. s = concat ts \<and> (\<forall>t \<in> set ts. \<exists>c \<in> set cs. t = [c])" using that by fastforce
  show "\<exists>ts. s = concat ts \<and> (\<forall>t \<in> set ts. \<exists>c \<in> set cs. t = [c])" if "set s \<subseteq> set cs"
    using that by (intro exI [of _ "map (\<lambda>c. [c]) s"]) auto
qed

lemma matches_word: "matches (plus (Chars cs)) s \<longleftrightarrow> s \<noteq> [] \<and> set s \<subseteq> set cs"
proof -
  have "matches (plus (Chars cs)) s \<longleftrightarrow> (\<exists>c \<in> set cs. \<exists>t. s = [c] @ t \<and> set t \<subseteq> set cs)"
    unfolding matches_simps(2) [of "Chars cs"] matches_letter matches_letters by blast
  then show ?thesis by (cases s) auto
qed

lemma nameChar_class: "nameChar c \<longleftrightarrow> c \<in> set ''abcdefghijklmnopqrstuvwxyz0123456789_-''"
proof -
  have "\<forall>c. nameChar c \<longleftrightarrow> c \<in> set ''abcdefghijklmnopqrstuvwxyz0123456789_-''" by code_simp
  then show ?thesis by blast
qed

lemma join_slash_concat: "join_slash (s # ss) = s @ concat (map (Cons (CHR ''/'')) ss)"
  by (induction ss arbitrary: s) simp_all

lemma split_join_words: "\<forall>t \<in> set (s # ss). CHR ''/'' \<notin> set t \<Longrightarrow> split_slash (join_slash (s # ss)) = s # ss"
proof (induction ss arbitrary: s)
  case Nil
  have "CHR ''/'' \<notin> set s \<Longrightarrow> split_slash s = [s]" by (induction s) auto
  then show ?case using Nil by simp
next
  case (Cons t ts)
  have "CHR ''/'' \<notin> set s \<Longrightarrow> split_slash (s @ CHR ''/'' # u) = s # split_slash u" for u by (induction s) auto
  then show ?case using Cons by simp
qed

lemma ref_grammar: "matches validNameRef name \<longleftrightarrow> name_grammar name"
proof -
  let ?good = "\<lambda>s. s \<noteq> [] \<and> list_all nameChar s"
  let ?word = "plus (Chars ''abcdefghijklmnopqrstuvwxyz0123456789_-'')"
  have w: "matches ?word s \<longleftrightarrow> ?good s" for s
    unfolding matches_word list_all_iff nameChar_class by blast
  have "matches (Star (Seq (Chars ''/'') ?word)) t \<longleftrightarrow> (\<exists>ss. t = concat (map (Cons (CHR ''/'')) ss) \<and> (\<forall>s \<in> set ss. ?good s))" for t
  proof -
    have "matches (Seq (Chars ''/'') ?word) u \<longleftrightarrow> (\<exists>s. u = CHR ''/'' # s \<and> ?good s)" for u
      unfolding w [symmetric] by (subst matches_simps(2)) (auto simp: matches_simps(1))
    then have "matches (Star (Seq (Chars ''/'') ?word)) t \<longleftrightarrow> (\<exists>ts. t = concat ts \<and> (\<forall>u \<in> set ts. \<exists>s. u = CHR ''/'' # s \<and> ?good s))"
      by (simp add: matches_star)
    also have "\<dots> \<longleftrightarrow> (\<exists>ss. t = concat (map (Cons (CHR ''/'')) ss) \<and> (\<forall>s \<in> set ss. ?good s))"
    proof
      assume "\<exists>ts. t = concat ts \<and> (\<forall>u \<in> set ts. \<exists>s. u = CHR ''/'' # s \<and> ?good s)"
      then obtain ts where ts: "t = concat ts" "\<forall>u \<in> set ts. \<exists>s. u = CHR ''/'' # s \<and> ?good s" by blast
      then have "map (Cons (CHR ''/'')) (map tl ts) = ts" by (intro nth_equalityI) (fastforce dest: nth_mem)+
      then show "\<exists>ss. t = concat (map (Cons (CHR ''/'')) ss) \<and> (\<forall>s \<in> set ss. ?good s)"
        using ts by (intro exI [of _ "map tl ts"]) fastforce
    qed fastforce
    finally show ?thesis .
  qed
  then have "matches validNameRef name \<longleftrightarrow> (\<exists>s ss. name = join_slash (s # ss) \<and> (\<forall>t \<in> set (s # ss). ?good t))"
    unfolding validNameRef_def Let_def join_slash_concat by (subst matches_simps(2)) (auto simp: w)
  also have "\<dots> \<longleftrightarrow> name_grammar name"
  proof
    assume "\<exists>s ss. name = join_slash (s # ss) \<and> (\<forall>t \<in> set (s # ss). ?good t)"
    then obtain s ss where x: "name = join_slash (s # ss)" "\<forall>t \<in> set (s # ss). ?good t" by blast
    then have "split_slash name = s # ss" using split_join_words [of s ss] nameChar_not_slash by (metis list_all_iff)
    then show "name_grammar name" using x(2) by (simp add: name_grammar_def)
  next
    assume "name_grammar name"
    moreover obtain s ss where "split_slash name = s # ss" using hd_split_slash by blast
    ultimately show "\<exists>s ss. name = join_slash (s # ss) \<and> (\<forall>t \<in> set (s # ss). ?good t)"
      unfolding name_grammar_def by (metis join_split_slash)
  qed
  finally show ?thesis .
qed

subsection \<open>Properties\<close>

text \<open>
  C27: \<open>validName\<close> accepts exactly the names of at most 240 bytes that match \<open>validNameRef\<close>, the
  regular expression the repository keeps as an independent reference.  The reference itself has no
  limit of length; on longer names the two differ, and \<open>validName\<close> refuses all of them.
\<close>

theorem validName_spec: "validName name \<longleftrightarrow> length name \<le> 240 \<and> matches validNameRef name"
  by (simp add: validName_iff ref_grammar maxNameLen_def)

text \<open>
  C28: The snapshot path of a valid name stays below the database directory: no component is
  empty, \<open>.\<close> or \<open>..\<close>, every component leaves room for the \<open>.tmp\<close> suffix of
  an atomic write within 255 bytes, distinct names have distinct paths, and the path is neither
  the lock file nor the log.
\<close>

theorem collPath_safe:
  assumes "validName name"
  shows "(\<exists>q. collPath dr name = dr @ q \<and> q \<noteq> [] \<and>
      (\<forall>c \<in> set q. c \<notin> {[], ''.'', ''..''} \<and> length (c @ ''.tmp'') \<le> 255)) \<and>
    (collPath dr name = collPath dr other \<longleftrightarrow> name = other) \<and>
    collPath dr name \<notin> {dr @ [''lock''], dr @ [''wal.log'']}"
proof (intro conjI)
  let ?segs = "split_slash name"
  define q where "q = butlast ?segs @ [last ?segs @ jsonExt]"
  have seg: "s \<noteq> [] \<and> list_all nameChar s \<and> length s \<le> 240" if "s \<in> set ?segs" for s
    using assms that split_slash_length [OF that]
    by (auto simp: validName_iff name_grammar_def maxNameLen_def)
  have dots: "list_all nameChar s \<Longrightarrow> s \<noteq> ''.'' \<and> s \<noteq> ''..''" for s by auto
  have "c \<notin> {[], ''.'', ''..''} \<and> length (c @ ''.tmp'') \<le> 255" if "c \<in> set q" for c
  proof (cases "c \<in> set (butlast ?segs)")
    case True
    then show ?thesis using seg [of c] dots [of c] by (auto dest: in_set_butlastD)
  next
    case False
    with that have "c = last ?segs @ jsonExt" by (simp add: q_def)
    then show ?thesis using seg [of "last ?segs"] by (auto simp: jsonExt_def append_eq_Cons_conv)
  qed
  moreover have "collPath dr name = dr @ q" by (simp add: collPath_alt q_def)
  ultimately show "\<exists>q. collPath dr name = dr @ q \<and> q \<noteq> [] \<and>
      (\<forall>c \<in> set q. c \<notin> {[], ''.'', ''..''} \<and> length (c @ ''.tmp'') \<le> 255)"
    by (auto simp: q_def)
  show "collPath dr name = collPath dr other \<longleftrightarrow> name = other"
    using collPath_inj by blast
  have "last (collPath dr name) \<noteq> ''lock'' \<and> last (collPath dr name) \<noteq> ''wal.log''"
    by (auto simp: jsonExt_def append_eq_Cons_conv)
  then show "collPath dr name \<notin> {dr @ [''lock''], dr @ [''wal.log'']}"
    by (auto simp del: last_collPath)
qed

text \<open>Witness for C28: the path of \<open>a/b\<close>.\<close>

theorem collPath_safe_witness:
  "\<exists>q. collPath [''data''] ''a/b'' = ''data'' # q \<and> q \<noteq> []"
proof -
  have "validName ''a/b''" by (simp add: validName_def maxNameLen_def nameChar_def less_eq_char_def)
  then show ?thesis using collPath_safe [of "''a/b''" "[''data'']"] by auto
qed

end
