(* ===== verification/Store.thy ===== *)
theory Store
  imports Names
begin

text \<open>
  The in-memory state of a database and the records that change it: the \<open>record\<close> struct
  and \<open>DB.apply\<close> of \<open>wal.go\<close>.  \<open>db.colls\<close> maps a collection name to
  its documents, \<open>db.dirty\<close> is the set of names changed since the last snapshot.

  The key fact is that every document (and the existence of every collection) is a
  last-writer-wins register of the record sequence.  The locale \<open>lww_log\<close> states that
  contract and derives what crash recovery needs: replaying a log over a state that already
  contains part or all of its effects.
\<close>

type_synonym docs = "(string, bytes) fmap"
type_synonym colls = "(string, docs) fmap"

subsection \<open>Records\<close>

text \<open>\<open>opSet\<close>, \<open>opDel\<close> and \<open>opDrop\<close> are string constants in the source.\<close>

definition opSet :: string where
  "opSet = ''set''"

definition opDel :: string where
  "opDel = ''del''"

definition opDrop :: string where
  "opDrop = ''drop''"

record wal_record =
  Op :: string
  Coll :: string
  ID :: string
  Doc :: bytes

text \<open>The part of \<open>DB\<close> guarded by \<open>db.mu\<close> that records change.\<close>

record mem =
  colls :: colls
  dirty :: "string fset"

lemma op_distinct [simp]:
  "opSet \<noteq> opDel" "opDel \<noteq> opSet" "opSet \<noteq> opDrop" "opDrop \<noteq> opSet" "opDel \<noteq> opDrop"
  "opDrop \<noteq> opDel"
  by (simp_all add: opSet_def opDel_def opDrop_def)

subsection \<open>Applying a record\<close>

text \<open>
  \<open>DB.apply\<close>.  A missing collection reads as a nil map: a lookup in it fails and
  \<open>opSet\<close> replaces it by a fresh map.  An unknown operation matches no case and is
  ignored.
\<close>

definition applyRec :: "wal_record \<Rightarrow> 'a mem_scheme \<Rightarrow> 'a mem_scheme" where
  "applyRec r db =
     (if Op r = opSet then
        db\<lparr>colls := fmupd (Coll r) (fmupd (ID r) (Doc r) (fmget (colls db) (Coll r))) (colls db),
           dirty := finsert (Coll r) (dirty db)\<rparr>
      else if Op r = opDel then
        (case fmlookup (fmget (colls db) (Coll r)) (ID r) of
           None \<Rightarrow> db
         | Some _ \<Rightarrow>
             db\<lparr>colls := fmupd (Coll r) (fmdrop (ID r) (fmget (colls db) (Coll r))) (colls db),
                dirty := finsert (Coll r) (dirty db)\<rparr>)
      else if Op r = opDrop then
        (case fmlookup (colls db) (Coll r) of
           None \<Rightarrow> db
         | Some _ \<Rightarrow>
             db\<lparr>colls := fmdrop (Coll r) (colls db),
                dirty := finsert (Coll r) (dirty db)\<rparr>)
      else db)"

text \<open>A sequence of records, first to last, as \<open>replayLog\<close> applies them.\<close>

fun applyAll :: "wal_record list \<Rightarrow> 'a mem_scheme \<Rightarrow> 'a mem_scheme" where
  "applyAll [] db = db"
| "applyAll (r # rs) db = applyAll rs (applyRec r db)"

lemma applyAll_append [simp]: "applyAll (rs @ ss) db = applyAll ss (applyAll rs db)"
  by (induction rs arbitrary: db) auto

subsection \<open>Cells: what a reader can observe\<close>

text \<open>
  A cell is a document of a collection (\<open>Some id\<close>) or the existence of the collection
  itself (\<open>None\<close>).
\<close>

type_synonym cell = "string \<times> string option"

definition cell :: "colls \<Rightarrow> cell \<Rightarrow> bytes option" where
  "cell cs c = (case c of
     (n, None) \<Rightarrow> (case fmlookup cs n of None \<Rightarrow> None | Some _ \<Rightarrow> Some [])
   | (n, Some i) \<Rightarrow> fmlookup (fmget cs n) i)"

text \<open>What a record writes to a cell: \<open>None\<close> when it leaves the cell alone.\<close>

definition effect :: "wal_record \<Rightarrow> cell \<Rightarrow> bytes option option" where
  "effect r c =
     (if fst c \<noteq> Coll r then None
      else if Op r = opSet then
        (case snd c of None \<Rightarrow> Some (Some [])
         | Some i \<Rightarrow> if i = ID r then Some (Some (Doc r)) else None)
      else if Op r = opDel then (if snd c = Some (ID r) then Some None else None)
      else if Op r = opDrop then Some None
      else None)"

lemma colls_eqI:
  assumes "\<And>c. cell cs c = cell ds c"
  shows "cs = ds"
proof (rule fmap_ext)
  fix n
  have e: "(fmlookup cs n = None) = (fmlookup ds n = None)"
    using assms [of "(n, None)"] by (auto simp: cell_def split: option.splits)
  have "fmget cs n = fmget ds n"
    using assms [of "(n, Some i)" for i] by (intro fmap_ext) (simp add: cell_def)
  with e show "fmlookup cs n = fmlookup ds n"
    by (cases "fmlookup cs n"; cases "fmlookup ds n") (auto simp: fmget_def)
qed

lemma cell_applyRec:
  "cell (colls (applyRec r db)) c =
     (case effect r c of None \<Rightarrow> cell (colls db) c | Some v \<Rightarrow> v)"
  by (cases c; cases "snd c")
     (auto simp: applyRec_def effect_def cell_def fmget_def split: option.splits)

subsection \<open>Last-writer-wins logs\<close>

locale lww_log =
  fixes step :: "'r \<Rightarrow> 's \<Rightarrow> 's"
    and look :: "'s \<Rightarrow> 'c \<Rightarrow> 'v"
    and eff :: "'r \<Rightarrow> 'c \<Rightarrow> 'v option"
  assumes look_step: "look (step r s) c = (case eff r c of None \<Rightarrow> look s c | Some v \<Rightarrow> v)"
begin

fun run :: "'r list \<Rightarrow> 's \<Rightarrow> 's" where
  "run [] s = s"
| "run (r # rs) s = run rs (step r s)"

fun last_eff :: "'r list \<Rightarrow> 'c \<Rightarrow> 'v option" where
  "last_eff [] c = None"
| "last_eff (r # rs) c = (case last_eff rs c of None \<Rightarrow> eff r c | Some v \<Rightarrow> Some v)"

lemma run_append: "run (rs @ ss) s = run ss (run rs s)"
  by (induction rs arbitrary: s) auto

lemma look_run: "look (run rs s) c = (case last_eff rs c of None \<Rightarrow> look s c | Some v \<Rightarrow> v)"
  by (induction rs arbitrary: s) (auto simp: look_step split: option.splits)

lemma last_eff_append:
  "last_eff (rs @ ss) c = (case last_eff ss c of None \<Rightarrow> last_eff rs c | Some v \<Rightarrow> Some v)"
  by (induction rs) (auto split: option.splits)

lemma last_eff_none: "(\<And>r. r \<in> set rs \<Longrightarrow> eff r c = None) \<Longrightarrow> last_eff rs c = None"
  by (induction rs) auto

lemma last_eff_nth:
  assumes "j < length rs" "eff (rs ! j) c = Some v" "\<And>l. j < l \<Longrightarrow> l < length rs \<Longrightarrow> eff (rs ! l) c = None"
  shows "last_eff rs c = Some v"
proof -
  have "last_eff (drop (Suc j) rs) c = None"
    by (rule last_eff_none) (use assms(3) in \<open>auto simp: in_set_conv_nth\<close>)
  then have "last_eff (take j rs @ rs ! j # drop (Suc j) rs) c = Some v"
    using assms(2) by (simp add: last_eff_append)
  then show ?thesis using id_take_nth_drop [OF assms(1)] by simp
qed

text \<open>Replaying a log over a state it already produced changes nothing.\<close>

lemma look_run_idem: "look (run rs (run rs s)) c = look (run rs s) c"
  by (auto simp: look_run split: option.splits)

text \<open>Replaying a log over any later state: a cell holds its old or its later value.\<close>

lemma look_run_mixed:
  "look (run rs (run ss s)) c = look s c \<or> look (run rs (run ss s)) c = look (run ss s) c
   \<or> look (run rs (run ss s)) c = look (run rs s) c"
  by (auto simp: look_run split: option.splits)

text \<open>
  A log is the segment from position \<open>b\<close> to \<open>m\<close> of the history \<open>h\<close>,
  and the state under it was produced by the first \<open>k\<close> records, \<open>b \<le> k\<close>.
  Replaying the segment gives, cell by cell, the value after \<open>m\<close> or after \<open>k\<close>
  records, and the value after the later of the two where the segment reaches past
  \<open>k\<close>.
\<close>

lemma look_replay_segment:
  assumes "b \<le> k" "b \<le> m" "m \<le> length h"
  shows "look (run (take (m - b) (drop b h)) (run (take k h) s)) c =
     (if m \<le> k then
        (case last_eff (take (m - b) (drop b h)) c of
           None \<Rightarrow> look (run (take k h) s) c
         | Some v \<Rightarrow> look (run (take m h) s) c)
      else look (run (take m h) s) c)"
proof -
  define seg where "seg = take (m - b) (drop b h)"
  have m: "take m h = take b h @ seg"
    using assms(2) by (simp add: seg_def) (metis le_add_diff_inverse take_add)
  show ?thesis
  proof (cases "m \<le> k")
    case True
    then show ?thesis
      unfolding seg_def [symmetric] m
      by (auto simp: look_run last_eff_append split: option.splits)
  next
    case False
    define rest where "rest = take (m - k) (drop k h)"
    have m2: "take m h = take k h @ rest"
      using False by (simp add: rest_def) (metis le_add_diff_inverse nle_le take_add)
    have "seg = take (k - b) (drop b h) @ rest"
      using False assms(1) unfolding seg_def rest_def
      by (metis (no_types, lifting) diff_add_inverse2 drop_drop le_add_diff_inverse
          nat_le_linear ordered_cancel_comm_monoid_diff_class.diff_add_assoc2 take_add)
    moreover have "take k h = take b h @ take (k - b) (drop b h)"
      using assms(1) by (metis le_add_diff_inverse take_add)
    ultimately show ?thesis
      unfolding seg_def [symmetric] m2
      using False by (auto simp: run_append look_run last_eff_append split: option.splits)
  qed
qed

end

text \<open>The store keeps that contract: \<open>applyRec\<close> is such a step on every cell.\<close>

interpretation st: lww_log "applyRec :: wal_record \<Rightarrow> 'a mem_scheme \<Rightarrow> 'a mem_scheme"
    "\<lambda>db. cell (colls db)" effect
  by unfold_locales (simp add: cell_applyRec)

lemma run_eq_applyAll: "st.run = applyAll"
proof (intro ext)
  fix rs and db :: "'a mem_scheme"
  show "st.run rs db = applyAll rs db"
    by (induction rs arbitrary: db) auto
qed

subsection \<open>Frame and dirtiness\<close>

lemma applyRec_other:
  "n \<noteq> Coll r \<Longrightarrow> fmlookup (colls (applyRec r db)) n = fmlookup (colls db) n"
  by (auto simp: applyRec_def split: option.splits)

lemma applyRec_dirty_mono: "dirty db |\<subseteq>| dirty (applyRec r db)"
  by (auto simp: applyRec_def split: option.splits)

lemma applyRec_clean:
  "n |\<notin>| dirty (applyRec r db) \<Longrightarrow> fmlookup (colls (applyRec r db)) n = fmlookup (colls db) n"
  by (auto simp: applyRec_def split: option.splits if_splits)

lemma applyAll_dirty_mono: "dirty db |\<subseteq>| dirty (applyAll rs db)"
proof (induction rs arbitrary: db)
  case (Cons r rs)
  then show ?case using applyRec_dirty_mono [of db r] by (metis applyAll.simps(2) order_trans)
qed simp

lemma applyAll_clean:
  "n |\<notin>| dirty (applyAll rs db) \<Longrightarrow>
     fmlookup (colls (applyAll rs db)) n = fmlookup (colls db) n"
proof (induction rs arbitrary: db)
  case (Cons r rs)
  then have "n |\<notin>| dirty (applyRec r db)"
    using applyAll_dirty_mono [of "applyRec r db" rs] by auto
  with Cons show ?case by (simp add: applyRec_clean)
qed simp

lemma applyRec_dirty_names: "dirty (applyRec r db) |\<subseteq>| finsert (Coll r) (dirty db)"
  by (auto simp: applyRec_def split: option.splits)

subsection \<open>Properties\<close>

text \<open>
  C26: Replaying a log is idempotent, and a log replayed over a state that already contains
  later changes never resurrects anything older: for a history \<open>h\<close>, a state produced by its
  first \<open>k\<close> records and a log holding the records from \<open>b\<close> (at most \<open>k\<close>) to
  \<open>m\<close>, every document afterwards has the value it had after \<open>m\<close> or after \<open>k\<close>
  records, and after \<open>m\<close> where the log reaches past the state.
\<close>

theorem replay_segment:
  assumes "b \<le> k" "b \<le> m" "m \<le> length h"
  shows "cell (colls (applyAll (take (m - b) (drop b h)) (applyAll (take k h) s))) c
      \<in> {cell (colls (applyAll (take m h) s)) c, cell (colls (applyAll (take k h) s)) c} \<and>
    (k \<le> m \<longrightarrow> colls (applyAll (take (m - b) (drop b h)) (applyAll (take k h) s)) =
       colls (applyAll (take m h) s))"
proof -
  note R = st.look_replay_segment [OF assms, unfolded run_eq_applyAll]
  have eq: "cell (colls (applyAll (take (m - b) (drop b h)) (applyAll (take k h) s))) c' =
      cell (colls (applyAll (take m h) s)) c'" if "k \<le> m" for c'
    using that by (subst R) (auto split: option.splits)
  show ?thesis
    using R [of s c] eq by (auto intro!: colls_eqI split: option.splits if_splits)
qed

text \<open>Witness for C26: a log that starts before the snapshot it is replayed over.\<close>

theorem replay_segment_witness:
  "let h = [\<lparr>Op = ''set'', Coll = ''u'', ID = ''a'', Doc = ''1''\<rparr>,
            \<lparr>Op = ''drop'', Coll = ''u'', ID = [], Doc = []\<rparr>];
       s = \<lparr>colls = fmempty, dirty = {||}\<rparr>
   in colls (applyAll (take (2 - 0) (drop 0 h)) (applyAll (take 1 h) s)) =
      colls (applyAll (take 2 h) s)"
  unfolding Let_def
  using replay_segment [of 0 1 2 "[\<lparr>Op = ''set'', Coll = ''u'', ID = ''a'', Doc = ''1''\<rparr>,
            \<lparr>Op = ''drop'', Coll = ''u'', ID = [], Doc = []\<rparr>]"
     "\<lparr>colls = fmempty, dirty = {||}\<rparr>" undefined]
  by simp

end
