(* ===== verification/Codec.thy ===== *)
theory Codec
  imports Json_Compact Store
begin

text \<open>
  The two JSON documents the storage layer writes and reads: one log record per line
  (\<open>json.Marshal(rec)\<close> and \<open>json.Unmarshal(line, &rec)\<close> on the \<open>record\<close>
  struct of \<open>wal.go\<close>) and one object per collection snapshot (\<open>json.Marshal(coll)\<close>
  and \<open>json.Unmarshal(data, &c)\<close> on \<open>map[string]json.RawMessage\<close> in
  \<open>snapshot.go\<close>), with the errors of the package.
\<close>

subsection \<open>Errors\<close>

datatype errno = ENOENT | ENOTDIR | EISDIR | EEXIST | EIO | ENOSPC | EACCES
  | EINVAL | ENOTSUP | EOPNOTSUPP | ENOSYS | EWOULDBLOCK

text \<open>
  The sentinel errors of \<open>medb.go\<close>, \<open>internal/lock\<close> and \<open>internal/fsutil\<close>, the
  wrapped errors the code builds with \<open>fmt.Errorf\<close>, and bare system errors.
\<close>

datatype error =
    ErrNotFound
  | ErrLocked
  | ErrNotSupported
  | ErrClosed
  | ErrTooLarge int int
  | ErrDirSync errno
  | ErrSys errno
  | ErrJSON
  | ErrOption string int
  | ErrCorruptWal nat
  | ErrTruncateTail errno
  | ErrSyncTail errno
  | ErrCorruptSnapshot path
  | ErrUser string

subsection \<open>Printing objects\<close>

fun renderFields :: "fields \<Rightarrow> bytes" where
  "renderFields [] = []"
| "renderFields [(k, v)] = dq # k @ dq # CHR '':'' # v"
| "renderFields ((k, v) # kv # kvs) =
     dq # k @ dq # CHR '':'' # v @ CHR '','' # renderFields (kv # kvs)"

definition renderObject :: "fields \<Rightarrow> bytes" where
  "renderObject kvs = CHR ''{'' # renderFields kvs @ ''}''"

definition renderable :: "nat \<Rightarrow> fields \<Rightarrow> bool" where
  "renderable d kvs \<longleftrightarrow> (\<forall>(k, v) \<in> set kvs. strBody k \<and> escBody k = k \<and> canonAt d v)"

subsection \<open>Log records\<close>

text \<open>
  Struct fields print in order; \<open>omitempty\<close> drops an empty ID or Doc.  Marshalling fails
  only if the raw document is not JSON.
\<close>

definition recordFields :: "wal_record \<Rightarrow> bytes \<Rightarrow> fields" where
  "recordFields r doc =
     [(''op'', quote (Op r)), (''coll'', quote (Coll r))]
     @ (if ID r = [] then [] else [(''id'', quote (ID r))])
     @ (if Doc r = [] then [] else [(''doc'', doc)])"

definition marshalRecord :: "wal_record \<Rightarrow> error + bytes" where
  "marshalRecord r =
     (if Doc r = [] then Inr (renderObject (recordFields r []))
      else case compact (Doc r) of None \<Rightarrow> Inl ErrJSON
           | Some doc \<Rightarrow> Inr (renderObject (recordFields r doc)))"

text \<open>
  Field names match up to case (\<open>foldName\<close>); the only non-ASCII letters that fold to an
  ASCII one are U+017F and U+212A.
\<close>

fun foldName :: "bytes \<Rightarrow> bytes" where
  "foldName [] = []"
| "foldName (c # cs) =
     (if 97 \<le> byte c \<and> byte c \<le> 122 then char_of (byte c - 32) # foldName cs
      else case cs of
        c1 # ds \<Rightarrow>
          if c = CHR 0xC5 \<and> c1 = CHR 0xBF then CHR ''S'' # foldName ds
          else (case ds of
             c2 # es \<Rightarrow> if c = CHR 0xE2 \<and> c1 = CHR 0x84 \<and> c2 = CHR 0xAA then CHR ''K'' # foldName es
                         else c # foldName cs
           | [] \<Rightarrow> c # foldName cs)
      | [] \<Rightarrow> c # foldName cs)"

definition fieldIs :: "bytes \<Rightarrow> string \<Rightarrow> bool" where
  "fieldIs key name \<longleftrightarrow> foldName key = foldName name"

text \<open>A JSON value stored into a Go string: \<open>null\<close> keeps the old value.\<close>

definition storeString :: "bytes \<Rightarrow> string \<Rightarrow> error + string" where
  "storeString raw old =
     (if raw = ''null'' then Inr old
      else case unquote raw of None \<Rightarrow> Inl ErrJSON | Some s \<Rightarrow> Inr s)"

definition storeField :: "bytes \<times> bytes \<Rightarrow> wal_record \<Rightarrow> error + wal_record" where
  "storeField kv r = (case kv of (k, raw) \<Rightarrow>
     (case unquoteBody k of None \<Rightarrow> Inl ErrJSON
      | Some key \<Rightarrow>
          if fieldIs key ''op'' then
            (case storeString raw (Op r) of Inl e \<Rightarrow> Inl e | Inr s \<Rightarrow> Inr (r\<lparr>Op := s\<rparr>))
          else if fieldIs key ''coll'' then
            (case storeString raw (Coll r) of Inl e \<Rightarrow> Inl e | Inr s \<Rightarrow> Inr (r\<lparr>Coll := s\<rparr>))
          else if fieldIs key ''id'' then
            (case storeString raw (ID r) of Inl e \<Rightarrow> Inl e | Inr s \<Rightarrow> Inr (r\<lparr>ID := s\<rparr>))
          else if fieldIs key ''doc'' then Inr (r\<lparr>Doc := raw\<rparr>)
          else Inr r))"

fun storeFields :: "fields \<Rightarrow> wal_record \<Rightarrow> error + wal_record" where
  "storeFields [] r = Inr r"
| "storeFields (kv # kvs) r =
     (case storeField kv r of Inl e \<Rightarrow> Inl e | Inr r' \<Rightarrow> storeFields kvs r')"

definition zeroRecord :: wal_record where
  "zeroRecord = \<lparr>Op = [], Coll = [], ID = [], Doc = []\<rparr>"

definition unmarshalRecord :: "bytes \<Rightarrow> error + wal_record" where
  "unmarshalRecord line =
     (case compact line of None \<Rightarrow> Inl ErrJSON
      | Some v \<Rightarrow>
          if v = ''null'' then Inr zeroRecord
          else (case objectFields line of None \<Rightarrow> Inl ErrJSON
                | Some fs \<Rightarrow> storeFields fs zeroRecord))"

subsection \<open>Collection snapshots\<close>

text \<open>\<open>json.Marshal\<close> of a map prints the keys in ascending order.\<close>

fun marshalFields :: "(string \<times> bytes) list \<Rightarrow> fields option" where
  "marshalFields [] = Some []"
| "marshalFields ((k, v) # kvs) =
     (case compact v of None \<Rightarrow> None
      | Some p \<Rightarrow> map_option ((#) (quoteBody k, p)) (marshalFields kvs))"

definition sortedEntries :: "docs \<Rightarrow> (string \<times> bytes) list" where
  "sortedEntries m = map (\<lambda>k. (k, the (fmlookup m k))) (sortedKeys m)"

definition marshalDocs :: "docs \<Rightarrow> error + bytes" where
  "marshalDocs m = (case marshalFields (sortedEntries m) of None \<Rightarrow> Inl ErrJSON
     | Some fs \<Rightarrow> Inr (renderObject fs))"

text \<open>A \<open>null\<close> document leaves a nil map, which reads as an empty one.\<close>

fun storeDocs :: "fields \<Rightarrow> docs \<Rightarrow> error + docs" where
  "storeDocs [] m = Inr m"
| "storeDocs ((k, raw) # kvs) m =
     (case unquoteBody k of None \<Rightarrow> Inl ErrJSON
      | Some key \<Rightarrow> storeDocs kvs (fmupd key raw m))"

definition unmarshalDocs :: "bytes \<Rightarrow> error + docs" where
  "unmarshalDocs data =
     (case compact data of None \<Rightarrow> Inl ErrJSON
      | Some v \<Rightarrow>
          if v = ''null'' then Inr fmempty
          else (case objectFields data of None \<Rightarrow> Inl ErrJSON
                | Some fs \<Rightarrow> storeDocs fs fmempty))"

subsection \<open>Scanning printed objects\<close>

lemma scan_depth:
  "(\<forall>d d' s x. scanValue f d s = Some x \<longrightarrow> d \<le> d' \<longrightarrow> scanValue f d' s = Some x) \<and>
   (\<forall>d d' s x. scanElems f d s = Some x \<longrightarrow> d \<le> d' \<longrightarrow> scanElems f d' s = Some x) \<and>
   (\<forall>d d' s x. scanMembers f d s = Some x \<longrightarrow> d \<le> d' \<longrightarrow> scanMembers f d' s = Some x)"
proof (induction f)
  case 0
  then show ?case by simp
next
  case (Suc f)
  note V = Suc.IH [THEN conjunct1, rule_format]
    and E = Suc.IH [THEN conjunct2, THEN conjunct1, rule_format]
    and M = Suc.IH [THEN conjunct2, THEN conjunct2, rule_format]
  have V': "scanValue (Suc f) d' s = Some x"
    if sc: "scanValue (Suc f) d s = Some x" and d': "d \<le> d'" for d d' s x
  proof -
    obtain p r where x: "x = (p, r)" by fastforce
    from sc [unfolded x] show ?thesis
    proof (cases rule: scanValue_elim)
      case (arr g cs e es q)
      then show ?thesis using E [of "d - 1" cs "(q, r)" "d' - 1"] d' x by simp
    next
      case (obj g cs e es q fs)
      then show ?thesis using M [of "d - 1" cs "(q, fs, r)" "d' - 1"] d' x by simp
    next
      case (lit g)
      then show ?thesis using x by (elim insertE emptyE) simp_all
    next
      case (num g c cs)
      note N = scanNumber_again(3) [OF num(3)] scanNumber_again(1,2) [OF num(3)]
      have "c = hd p" using N by (cases p) simp_all
      then have "c \<noteq> dq \<and> c \<noteq> CHR ''['' \<and> c \<noteq> CHR ''{''" using N(1) by (auto simp: isDigit_def)
      then show ?thesis using sc num(2) by (simp del: Cons_prefix_Cons)
    qed (use sc d' x in \<open>simp_all del: Cons_prefix_Cons\<close>)
  qed
  have E': "scanElems (Suc f) d' s = Some x"
    if sc: "scanElems (Suc f) d s = Some x" and d': "d \<le> d'" for d d' s x
  proof -
    obtain p r where x: "x = (p, r)" by fastforce
    from sc [unfolded x] show ?thesis
    proof (cases rule: scanElems_elim)
      case (more g q t cs p')
      then show ?thesis using V [of d s "(q, t)" d'] E [of d cs "(p', r)" d'] d' x by simp
    next
      case (last g q t)
      then show ?thesis using V [of d s "(q, t)" d'] d' x by simp
    qed
  qed
  have M': "scanMembers (Suc f) d' s = Some x"
    if sc: "scanMembers (Suc f) d s = Some x" and d': "d \<le> d'" for d d' s x
  proof -
    obtain p fs r where x: "x = (p, fs, r)" by (cases x) auto
    from sc [unfolded x] show ?thesis
    proof (cases rule: scanMembers_elim)
      case (more g cs k t cs' q u es p' fs')
      then show ?thesis
        using V [of d cs' "(q, u)" d'] M [of d es "(p', fs', r)" d'] d' x by (simp add: Let_def)
    next
      case (last g cs k t cs' q u)
      then show ?thesis using V [of d cs' "(q, u)" d'] d' x by (simp add: Let_def)
    qed
  qed
  from V' E' M' show ?case by blast
qed

lemma canonAt_mono: "canonAt d v \<Longrightarrow> d \<le> d' \<Longrightarrow> canonAt d' v"
  unfolding canonAt_def using scan_depth [THEN conjunct1] by blast

lemma scanMembers_render:
  assumes "kvs \<noteq> []" "renderable d kvs" "2 * length (renderFields kvs @ CHR ''}'' # r) + 2 \<le> f"
  shows "scanMembers f d (renderFields kvs @ CHR ''}'' # r) = Some (renderFields kvs @ ''}'', kvs, r)"
  using assms
proof (induction kvs arbitrary: f rule: renderFields.induct)
  case 1
  then show ?case by simp
next
  case (2 k v)
  then obtain g where f: "f = Suc g" by (cases f) simp_all
  have k: "strBody k" "escBody k = k" and v: "canonAt d v"
    using 2(2) by (simp_all add: renderable_def)
  have val: "scanValue g d (v @ CHR ''}'' # r) = Some (v, CHR ''}'' # r)"
    using 2(3) f by (intro canon_scan [OF v]) simp_all
  have "take (length (v @ CHR ''}'' # r) - length (CHR ''}'' # r)) (v @ CHR ''}'' # r) = v" by simp
  with val k(2) scanString_complete [OF k(1), of "CHR '':'' # v @ CHR ''}'' # r"]
  show ?case by (simp add: f Let_def okStart_skipws [OF canon_okStart [OF v]])
next
  case (3 k v kv kvs)
  then obtain g where f: "f = Suc g" by (cases f) simp_all
  let ?rest = "CHR '','' # renderFields (kv # kvs) @ CHR ''}'' # r"
  have k: "strBody k" "escBody k = k" and v: "canonAt d v" and rest: "renderable d (kv # kvs)"
    using 3(3) by (simp_all add: renderable_def)
  have val: "scanValue g d (v @ ?rest) = Some (v, ?rest)"
    using 3(4) f by (intro canon_scan [OF v]) simp_all
  have "scanMembers g d (renderFields (kv # kvs) @ CHR ''}'' # r) =
      Some (renderFields (kv # kvs) @ ''}'', kv # kvs, r)"
    using 3(1) [OF _ rest, of g] 3(4) f by simp
  moreover have "take (length (v @ ?rest) - length ?rest) (v @ ?rest) = v" by simp
  ultimately show ?case
    using val k(2) scanString_complete [OF k(1), of "CHR '':'' # v @ ?rest"]
    by (simp add: f Let_def okStart_skipws [OF canon_okStart [OF v]])
qed

lemma renderFields_starts: "kvs \<noteq> [] \<Longrightarrow> \<exists>q. renderFields kvs = dq # q"
  by (cases kvs rule: renderFields.cases) simp_all

lemma scanValue_render:
  assumes "renderable d kvs" "scanFuel (renderObject kvs) \<le> f"
  shows "scanValue f (Suc d) (renderObject kvs) = Some (renderObject kvs, [])"
proof -
  obtain g where f: "f = Suc g" using assms(2) by (cases f) (simp_all add: scanFuel_def)
  show ?thesis
  proof (cases "kvs = []")
    case True
    then show ?thesis by (simp add: f renderObject_def)
  next
    case False
    then obtain q where q: "renderFields kvs = dq # q" using renderFields_starts by blast
    have "scanMembers g d (renderFields kvs @ CHR ''}'' # []) = Some (renderFields kvs @ ''}'', kvs, [])"
      using assms(2) f by (intro scanMembers_render [OF False assms(1)]) (simp add: scanFuel_def renderObject_def)
    with q show ?thesis by (simp add: f renderObject_def)
  qed
qed

lemma maxNestingDepth_Suc: "maxNestingDepth = Suc 9999"
  by (simp add: maxNestingDepth_def)

lemma compact_render: "renderable 9999 kvs \<Longrightarrow> compact (renderObject kvs) = Some (renderObject kvs)"
  using scanValue_render [of 9999 kvs "scanFuel (renderObject kvs)"]
  by (simp add: compact_def maxNestingDepth_def)

lemma objectFields_render: "renderable 9999 kvs \<Longrightarrow> objectFields (renderObject kvs) = Some kvs"
proof -
  assume r: "renderable 9999 kvs"
  have v: "validJSON (renderObject kvs)" using compact_render [OF r] by (simp add: validJSON_def)
  show ?thesis
  proof (cases "kvs = []")
    case True
    then show ?thesis using v by (simp add: objectFields_def renderObject_def)
  next
    case False
    then obtain q where q: "renderFields kvs = dq # q" using renderFields_starts by blast
    have "scanMembers (scanFuel (renderObject kvs)) 9999 (renderFields kvs @ CHR ''}'' # []) =
        Some (renderFields kvs @ ''}'', kvs, [])"
      by (intro scanMembers_render [OF False r]) (simp add: scanFuel_def renderObject_def)
    with q v show ?thesis
      by (simp add: objectFields_def renderObject_def maxNestingDepth_def)
  qed
qed

lemma renderable_printable: "renderable d kvs \<Longrightarrow> printable (renderObject kvs)"
proof -
  have "renderable d kvs \<Longrightarrow> printable (renderFields kvs)"
    by (induction kvs rule: renderFields.induct)
       (auto simp: renderable_def dest: canon_printable strBody_printable simp: printable_def)
  then show "renderable d kvs \<Longrightarrow> printable (renderObject kvs)" by (simp add: renderObject_def)
qed

lemma canon_quote: "canonAt d (quote s)"
proof -
  have "scanValue (Suc g) d (quote s) = Some (quote s, [])" for g
    using scanString_complete [OF strBody_quoteBody, of s "[]"] by (simp add: quote_def)
  then show ?thesis unfolding canonAt_def by (cases "scanFuel (quote s)") (simp_all add: scanFuel_def)
qed

subsection \<open>Plain text\<close>

definition plainText :: "bytes \<Rightarrow> bool" where
  "plainText s \<longleftrightarrow> list_all (\<lambda>c. c \<notin> set (dq # bsl # ''<>&'') \<and> 32 \<le> byte c \<and> byte c < 128) s"

lemma plainText_body:
  assumes "plainText s"
  shows "strBody s" "escBody s = s" "unquoteBody s = Some s" "validUTF8 s"
proof -
  show "strBody s"
    using assms by (induction s) (simp_all add: plainText_def strBody.nil strBody.plain)
  have E2: "byte c < 128 \<Longrightarrow> c \<noteq> CHR 0xE2" for c by (cases "c = CHR 0xE2") simp_all
  show "escBody s = s"
    using assms by (induction s) (simp_all add: plainText_def escBody_keep E2)
  show "unquoteBody s = Some s"
    using assms by (induction s) (simp_all add: plainText_def unquoteBody.simps)
  have "byte c < 128 \<Longrightarrow> \<not> badRune (c # cs)" for c cs
    by (auto simp: badRune_def runeError_def)
  then show "validUTF8 s"
    using assms by (induction s) (simp_all add: plainText_def validUTF8.simps)
qed

lemma plainText_literals [simp]:
  "plainText ''op''" "plainText ''coll''" "plainText ''id''" "plainText ''doc''"
  "plainText ''set''" "plainText ''del''" "plainText ''drop''"
  by (simp_all add: plainText_def)

lemma nameChar_plain:
  "nameChar c \<Longrightarrow> c \<notin> set (dq # bsl # ''<>&'') \<and> 32 \<le> byte c \<and> byte c < 128"
  by (auto simp: nameChar_def less_eq_char_def)

lemma validName_plain: "validName name \<Longrightarrow> plainText name"
proof -
  have "validName_loop n s \<Longrightarrow> plainText s" for n s
    by (induction s arbitrary: n)
       (auto simp: plainText_def dest: nameChar_plain split: if_splits)
  then show "validName name \<Longrightarrow> plainText name"
    by (auto simp: validName_def split: if_splits)
qed

lemma unquote_quote_valid: "validUTF8 s \<Longrightarrow> unquote (quote s) = Some s"
  by (simp add: unquote_quote sanitize_valid)

lemma storeString_quote: "validUTF8 s \<Longrightarrow> storeString (quote s) old = Inr s"
  by (simp add: storeString_def unquote_quote_valid) (simp add: quote_def)

lemma storeString_quote_any: "storeString (quote s) old = Inr (sanitize s)"
  by (simp add: storeString_def unquote_quote) (simp add: quote_def)

subsection \<open>Round trips\<close>

text \<open>A record the store can write: its document nests at most 9999 levels.\<close>

definition recOK :: "wal_record \<Rightarrow> bool" where
  "recOK r \<longleftrightarrow> Op r \<in> {opSet, opDel, opDrop} \<and> validName (Coll r) \<and> validUTF8 (ID r) \<and>
     (if Op r = opSet then canonAt 9999 (Doc r) else Doc r = [])"

lemma foldName_fields [simp]:
  "fieldIs ''op'' ''op''" "fieldIs ''coll'' ''coll''" "fieldIs ''id'' ''id''" "fieldIs ''doc'' ''doc''"
  "\<not> fieldIs ''coll'' ''op''" "\<not> fieldIs ''id'' ''op''" "\<not> fieldIs ''id'' ''coll''"
  "\<not> fieldIs ''doc'' ''op''" "\<not> fieldIs ''doc'' ''coll''" "\<not> fieldIs ''doc'' ''id''"
  by (simp_all add: fieldIs_def char_of_eq_iff)

lemma storeField_record:
  "storeField (''op'', quote s) r = Inr (r\<lparr>Op := sanitize s\<rparr>)"
  "storeField (''coll'', quote s) r = Inr (r\<lparr>Coll := sanitize s\<rparr>)"
  "storeField (''id'', quote s) r = Inr (r\<lparr>ID := sanitize s\<rparr>)"
  "storeField (''doc'', v) r = Inr (r\<lparr>Doc := v\<rparr>)"
  by (simp_all add: storeField_def plainText_body storeString_quote_any)

lemma renderable_record: "Doc r \<noteq> [] \<longrightarrow> canonAt d doc \<Longrightarrow> renderable d (recordFields r doc)"
  by (auto simp: renderable_def recordFields_def plainText_body canon_quote)

lemma renderObject_not_null: "renderObject kvs \<noteq> ''null''"
  by (simp add: renderObject_def)

lemma unmarshal_renderRecord:
  assumes "Doc r \<noteq> [] \<longrightarrow> canonAt 9999 (Doc r)"
  shows "unmarshalRecord (renderObject (recordFields r (Doc r))) =
     Inr (r\<lparr>Op := sanitize (Op r), Coll := sanitize (Coll r), ID := sanitize (ID r)\<rparr>)"
proof -
  have ren: "renderable 9999 (recordFields r (Doc r))"
    using assms by (rule renderable_record)
  have "storeFields (recordFields r (Doc r)) zeroRecord =
      Inr (r\<lparr>Op := sanitize (Op r), Coll := sanitize (Coll r), ID := sanitize (ID r)\<rparr>)"
    by (simp add: recordFields_def storeField_record zeroRecord_def)
  then show ?thesis
    by (simp add: unmarshalRecord_def compact_render [OF ren] objectFields_render [OF ren]
        renderObject_not_null)
qed

lemma marshalRecord_canon:
  assumes "Doc r \<noteq> [] \<longrightarrow> canonAt 9999 (Doc r)"
  shows "marshalRecord r = Inr (renderObject (recordFields r (Doc r)))"
proof (cases "Doc r = []")
  case False
  with assms have "canonAt maxNestingDepth (Doc r)"
    using canonAt_mono [of 9999 "Doc r" maxNestingDepth] by (simp add: maxNestingDepth_def)
  with False show ?thesis by (simp add: marshalRecord_def canon_compact)
qed (simp add: marshalRecord_def recordFields_def)

lemma recOK_doc: "recOK r \<Longrightarrow> Doc r \<noteq> [] \<longrightarrow> canonAt 9999 (Doc r)"
  by (auto simp: recOK_def split: if_splits)

lemma recOK_sanitize:
  "recOK r \<Longrightarrow> sanitize (Op r) = Op r \<and> sanitize (Coll r) = Coll r \<and> sanitize (ID r) = ID r"
  using plainText_body(4) [of "Op r"] plainText_body(4) [OF validName_plain, of "Coll r"]
  by (auto simp: recOK_def sanitize_valid opSet_def opDel_def opDrop_def)

lemma marshalRecord_roundtrip:
  assumes "recOK r"
  obtains line where "marshalRecord r = Inr line" "unmarshalRecord line = Inr r" "nl \<notin> set line"
proof -
  have d: "Doc r \<noteq> [] \<longrightarrow> canonAt 9999 (Doc r)" by (rule recOK_doc [OF assms])
  have "nl \<notin> set (renderObject (recordFields r (Doc r)))"
    using renderable_record [OF d] by (intro printable_no_newline renderable_printable)
  then show thesis
    using that marshalRecord_canon [OF d] unmarshal_renderRecord [OF d] recOK_sanitize [OF assms]
    by simp
qed

text \<open>A collection whose snapshot reads back as it was written.\<close>

definition docsOK :: "docs \<Rightarrow> bool" where
  "docsOK m \<longleftrightarrow> (\<forall>(k, v) \<in> set (sortedEntries m). validUTF8 k \<and> canonAt 9999 v)"

lemma docsOK_iff: "docsOK m \<longleftrightarrow> (\<forall>k v. fmlookup m k = Some v \<longrightarrow> validUTF8 k \<and> canonAt 9999 v)"
  by (auto simp: docsOK_def sortedEntries_def fmdom'_alt_def fmlookup_dom_iff split: prod.splits)
     (metis fmdom'_alt_def fmdom'I option.sel)

lemma marshalFields_canon:
  "\<forall>(k, v) \<in> set kvs. canonAt 9999 v \<Longrightarrow>
     marshalFields kvs = Some (map (\<lambda>(k, v). (quoteBody k, v)) kvs)"
proof (induction kvs)
  case (Cons kv kvs)
  then have "canonAt maxNestingDepth (snd kv)"
    using canonAt_mono [of 9999 "snd kv" maxNestingDepth] by (auto simp: maxNestingDepth_def)
  with Cons show ?case by (cases kv) (simp add: canon_compact)
qed simp

lemma storeDocs_quoted:
  "\<forall>(k, v) \<in> set kvs. validUTF8 k \<Longrightarrow>
     storeDocs (map (\<lambda>(k, v). (quoteBody k, v)) kvs) m = Inr (foldl (\<lambda>m (k, v). fmupd k v m) m kvs)"
  by (induction kvs arbitrary: m) (auto simp: unquote_quoteBody sanitize_valid)

lemma fold_entries:
  "distinct ks \<Longrightarrow> fmlookup (foldl (\<lambda>m (k, v). fmupd k v m) m (map (\<lambda>k. (k, g k)) ks)) k =
     (if k \<in> set ks then Some (g k) else fmlookup m k)"
  by (induction ks arbitrary: m) auto

lemma fold_sortedEntries: "foldl (\<lambda>m (k, v). fmupd k v m) fmempty (sortedEntries m) = m"
proof (rule fmap_ext)
  fix k
  show "fmlookup (foldl (\<lambda>m (k, v). fmupd k v m) fmempty (sortedEntries m)) k = fmlookup m k"
    unfolding sortedEntries_def
    by (subst fold_entries) (auto simp: fmlookup_dom'_iff)
qed

lemma marshalDocs_roundtrip:
  assumes "docsOK m"
  obtains data where "marshalDocs m = Inr data" "unmarshalDocs data = Inr m"
proof -
  let ?fs = "map (\<lambda>(k, v). (quoteBody k, v)) (sortedEntries m)"
  have c: "\<forall>(k, v) \<in> set (sortedEntries m). canonAt 9999 v"
    and u: "\<forall>(k, v) \<in> set (sortedEntries m). validUTF8 k"
    using assms by (auto simp: docsOK_def)
  have ren: "renderable 9999 ?fs"
    using c by (auto simp: renderable_def strBody_quoteBody)
  have "marshalDocs m = Inr (renderObject ?fs)"
    by (simp add: marshalDocs_def marshalFields_canon [OF c])
  moreover have "unmarshalDocs (renderObject ?fs) = Inr m"
    by (simp add: unmarshalDocs_def compact_render [OF ren] objectFields_render [OF ren]
        renderObject_not_null storeDocs_quoted [OF u] fold_sortedEntries)
  ultimately show thesis by (rule that)
qed

subsection \<open>Properties\<close>

text \<open>
  C24: A log record survives its encoding.  For a record the store writes (a valid collection
  name, an ID of valid UTF-8, for a set a document nested at most 9999 levels),
  \<open>json.Marshal\<close> succeeds, the line holds no newline (so the log can be cut at newlines), and
  \<open>json.Unmarshal\<close> gives the record back.
\<close>

theorem record_roundtrip:
  assumes "recOK r"
  shows "\<exists>line. marshalRecord r = Inr line \<and> CHR 0x0A \<notin> set line \<and> unmarshalRecord line = Inr r"
  using marshalRecord_roundtrip [OF assms] by metis

text \<open>Witness for C24: a set record with an empty object.\<close>

theorem record_roundtrip_witness:
  "\<exists>line. marshalRecord \<lparr>Op = ''set'', Coll = ''users'', ID = ''a'', Doc = ''{}''\<rparr> = Inr line \<and>
     unmarshalRecord line = Inr \<lparr>Op = ''set'', Coll = ''users'', ID = ''a'', Doc = ''{}''\<rparr>"
proof -
  have "recOK \<lparr>Op = ''set'', Coll = ''users'', ID = ''a'', Doc = ''{}''\<rparr>"
  proof -
    have "canonAt 1 ''{}''" by code_simp
    then have "canonAt 9999 ''{}''" by (rule canonAt_mono) simp
    moreover have "validName ''users''" by code_simp
    moreover have "validUTF8 ''a''" by (simp add: plainText_body plainText_def)
    ultimately show ?thesis by (simp add: recOK_def opSet_def)
  qed
  then show ?thesis using record_roundtrip by blast
qed

text \<open>
  C25: A snapshot survives its encoding: a collection whose IDs are valid UTF-8 and whose
  documents nest at most 9999 levels marshals, and the file content unmarshals to the same
  collection.
\<close>

theorem snapshot_roundtrip:
  assumes "docsOK m"
  shows "\<exists>data. marshalDocs m = Inr data \<and> unmarshalDocs data = Inr m"
  using marshalDocs_roundtrip [OF assms] by metis

text \<open>Witness for C25: a collection of one document.\<close>

theorem snapshot_roundtrip_witness:
  "\<exists>data. marshalDocs (fmupd ''a'' ''[1]'' fmempty) = Inr data \<and>
     unmarshalDocs data = Inr (fmupd ''a'' ''[1]'' fmempty)"
proof -
  have "canonAt 1 ''[1]''" by code_simp
  then have "canonAt 9999 ''[1]''" by (rule canonAt_mono) simp
  moreover have "validUTF8 ''a''" by (simp add: plainText_body plainText_def)
  ultimately have "docsOK (fmupd ''a'' ''[1]'' fmempty)" by (simp add: docsOK_iff)
  then show ?thesis using snapshot_roundtrip by blast
qed

end
