(* ===== verification/Fs.thy ===== *)
theory Fs
  imports Codec "HOL-Library.State_Monad"
begin

text \<open>
  The file system under the database and the helpers of \<open>internal/fsutil\<close> and
  \<open>internal/lock\<close>.

  The disk keeps two layers.  \<open>ents\<close> and \<open>content\<close> are what running processes
  see.  \<open>dhist\<close> and \<open>chist\<close> list, for a directory and for a file, what it may hold
  after a power loss: every state it went through since it was last synced.  A rename within a
  directory is one state change of that directory, so it is atomic; a write to a file adds each
  of its prefixes, so a torn write is among them.  \<open>fsync\<close> of a file or of a directory
  forgets all states but the current one.

  Every system call consults a fault schedule: at a tick with a fault it fails without effect
  (a write may have stored a prefix).  A crash is a schedule in which every call from some tick
  on fails: the disk no longer changes from there on.

  \<open>rangeOrder\<close> stands for the unspecified order in which Go ranges over the keys of a map.
\<close>

type_synonym ino = nat

datatype node = DirN | FileN ino

record disk =
  ents :: "(path, node) fmap"
  content :: "ino \<Rightarrow> bytes"
  dhist :: "path \<Rightarrow> (string \<Rightarrow> node option) list"
  chist :: "ino \<Rightarrow> bytes list"
  nextIno :: ino

record world =
  disk :: disk
  held :: "path fset"
  faults :: "nat \<Rightarrow> (errno \<times> nat) option"
  tick :: nat
  rangeOrder :: "string fset \<Rightarrow> string list"

type_synonym 'a io = "(world, 'a) state"

abbreviation ret :: "'a \<Rightarrow> 'a io" where
  "ret \<equiv> State_Monad.return"

subsection \<open>Path resolution\<close>

fun resolve :: "(path, node) fmap \<Rightarrow> path \<Rightarrow> path \<Rightarrow> errno + node" where
  "resolve m acc [] =
     (if acc = [] then Inr DirN
      else case fmlookup m acc of None \<Rightarrow> Inl ENOENT | Some n \<Rightarrow> Inr n)"
| "resolve m acc (c # cs) =
     (case (if acc = [] then Some DirN else fmlookup m acc) of
        None \<Rightarrow> Inl ENOENT
      | Some (FileN _) \<Rightarrow> Inl ENOTDIR
      | Some DirN \<Rightarrow> resolve m (acc @ [c]) cs)"

definition lookupNode :: "disk \<Rightarrow> path \<Rightarrow> errno + node" where
  "lookupNode d p = resolve (ents d) [] p"

text \<open>The parent of a new entry must be a directory.\<close>

definition parentDir :: "disk \<Rightarrow> path \<Rightarrow> errno + unit" where
  "parentDir d p = (case lookupNode d (butlast p) of
     Inl e \<Rightarrow> Inl e | Inr (FileN _) \<Rightarrow> Inl ENOTDIR | Inr DirN \<Rightarrow> Inr ())"

subsection \<open>Primitive changes of the disk\<close>

text \<open>What a directory holds, as a map from names to nodes.\<close>

definition children :: "(path, node) fmap \<Rightarrow> path \<Rightarrow> string \<Rightarrow> node option" where
  "children m dr c = fmlookup m (dr @ [c])"

text \<open>A new set of entries; each directory in \<open>touched\<close> goes through one more state.\<close>

definition changeEnts :: "path list \<Rightarrow> (path, node) fmap \<Rightarrow> disk \<Rightarrow> disk" where
  "changeEnts touched m d = d\<lparr>ents := m,
     dhist := (\<lambda>dr. if dr \<in> set touched then dhist d dr @ [children m dr] else dhist d dr)\<rparr>"

definition setEntry :: "path \<Rightarrow> node option \<Rightarrow> disk \<Rightarrow> disk" where
  "setEntry p n d =
     changeEnts [butlast p] (case n of None \<Rightarrow> fmdrop p (ents d) | Some x \<Rightarrow> fmupd p x (ents d)) d"

definition setContent :: "ino \<Rightarrow> bytes \<Rightarrow> bytes list \<Rightarrow> disk \<Rightarrow> disk" where
  "setContent i c via d = d\<lparr>content := (content d)(i := c), chist := (chist d)(i := chist d i @ via @ [c])\<rparr>"

definition newFile :: "path \<Rightarrow> disk \<Rightarrow> ino \<times> disk" where
  "newFile p d = (let i = nextIno d in
     (i, setEntry p (Some (FileN i))
           (d\<lparr>content := (content d)(i := []), chist := (chist d)(i := [[]]), nextIno := Suc i\<rparr>)))"

definition appendFile :: "ino \<Rightarrow> bytes \<Rightarrow> disk \<Rightarrow> disk" where
  "appendFile i buf d =
     setContent i (content d i @ buf) (map (\<lambda>n. content d i @ take n buf) [0..<length buf]) d"

definition isChild :: "path \<Rightarrow> path \<Rightarrow> bool" where
  "isChild dir p \<longleftrightarrow> p \<noteq> [] \<and> butlast p = dir"

definition flushDir :: "path \<Rightarrow> disk \<Rightarrow> disk" where
  "flushDir dr d = d\<lparr>dhist := (dhist d)(dr := [children (ents d) dr])\<rparr>"

text \<open>A new directory is empty, on disk too.\<close>

definition newDir :: "path \<Rightarrow> disk \<Rightarrow> disk" where
  "newDir p d = (let d' = setEntry p (Some DirN) d in d'\<lparr>dhist := (dhist d')(p := [\<lambda>_. None])\<rparr>)"

definition flushFile :: "ino \<Rightarrow> disk \<Rightarrow> disk" where
  "flushFile i d = d\<lparr>chist := (chist d)(i := [content d i])\<rparr>"

subsection \<open>System calls\<close>

definition syscall :: "(disk \<Rightarrow> (errno + 'a) \<times> disk) \<Rightarrow> (errno + 'a) io" where
  "syscall f = State (\<lambda>w.
     case faults w (tick w) of
       Some (e, _) \<Rightarrow> (Inl e, w\<lparr>tick := Suc (tick w)\<rparr>)
     | None \<Rightarrow> (case f (disk w) of (r, d) \<Rightarrow> (r, w\<lparr>disk := d, tick := Suc (tick w)\<rparr>)))"

definition sysStat :: "path \<Rightarrow> (errno + node) io" where
  "sysStat p = syscall (\<lambda>d. (lookupNode d p, d))"

definition sysMkdir :: "path \<Rightarrow> (errno + unit) io" where
  "sysMkdir p = syscall (\<lambda>d.
     case parentDir d p of Inl e \<Rightarrow> (Inl e, d)
     | Inr _ \<Rightarrow> (case lookupNode d p of Inr _ \<Rightarrow> (Inl EEXIST, d)
                  | Inl _ \<Rightarrow> (Inr (), newDir p d)))"

text \<open>\<open>os.OpenFile\<close> for writing with \<open>O_CREATE\<close>, and with or without \<open>O_TRUNC\<close>.\<close>

definition sysOpen :: "bool \<Rightarrow> path \<Rightarrow> (errno + ino) io" where
  "sysOpen trunc p = syscall (\<lambda>d.
     case parentDir d p of Inl e \<Rightarrow> (Inl e, d)
     | Inr _ \<Rightarrow>
         (case lookupNode d p of
            Inr DirN \<Rightarrow> (Inl EISDIR, d)
          | Inr (FileN i) \<Rightarrow> (Inr i, if trunc then setContent i [] [] d else d)
          | Inl _ \<Rightarrow> (case newFile p d of (i, d') \<Rightarrow> (Inr i, d'))))"

definition sysOpenDir :: "path \<Rightarrow> (errno + unit) io" where
  "sysOpenDir p = syscall (\<lambda>d.
     case lookupNode d p of Inl e \<Rightarrow> (Inl e, d) | Inr _ \<Rightarrow> (Inr (), d))"

definition sysWrite :: "ino \<Rightarrow> bytes \<Rightarrow> (errno + unit) io" where
  "sysWrite i buf = State (\<lambda>w.
     case faults w (tick w) of
       Some (e, n) \<Rightarrow> (Inl e, w\<lparr>disk := appendFile i (take n buf) (disk w), tick := Suc (tick w)\<rparr>)
     | None \<Rightarrow> (Inr (), w\<lparr>disk := appendFile i buf (disk w), tick := Suc (tick w)\<rparr>))"

definition sysFsync :: "ino \<Rightarrow> (errno + unit) io" where
  "sysFsync i = syscall (\<lambda>d. (Inr (), flushFile i d))"

definition sysFsyncDir :: "path \<Rightarrow> (errno + unit) io" where
  "sysFsyncDir p = syscall (\<lambda>d. (Inr (), flushDir p d))"

definition sysTruncate :: "ino \<Rightarrow> nat \<Rightarrow> (errno + unit) io" where
  "sysTruncate i n = syscall (\<lambda>d. (Inr (), setContent i (take n (content d i)) [] d))"

definition sysClose :: "(errno + unit) io" where
  "sysClose = syscall (\<lambda>d. (Inr (), d))"

definition sysRename :: "path \<Rightarrow> path \<Rightarrow> (errno + unit) io" where
  "sysRename a b = syscall (\<lambda>d.
     case (lookupNode d a, parentDir d b) of
       (Inl e, _) \<Rightarrow> (Inl e, d)
     | (Inr _, Inl e) \<Rightarrow> (Inl e, d)
     | (Inr n, Inr _) \<Rightarrow>
         (case lookupNode d b of
            Inr DirN \<Rightarrow> (Inl EISDIR, d)
          | _ \<Rightarrow> (Inr (), changeEnts [butlast a, butlast b] (fmdrop a (fmupd b n (ents d))) d)))"

definition sysRemove :: "path \<Rightarrow> (errno + unit) io" where
  "sysRemove p = syscall (\<lambda>d.
     case lookupNode d p of Inl e \<Rightarrow> (Inl e, d)
     | Inr DirN \<Rightarrow> if fBex (fmdom (ents d)) (isChild p) then (Inl EEXIST, d)
                    else (Inr (), setEntry p None d)
     | Inr (FileN _) \<Rightarrow> (Inr (), setEntry p None d))"

definition sysReadFile :: "path \<Rightarrow> (errno + bytes) io" where
  "sysReadFile p = syscall (\<lambda>d.
     case lookupNode d p of Inl e \<Rightarrow> (Inl e, d)
     | Inr DirN \<Rightarrow> (Inl EISDIR, d)
     | Inr (FileN i) \<Rightarrow> (Inr (content d i), d))"

text \<open>\<open>flock(LOCK_EX | LOCK_NB)\<close>: fails if any process holds the file.\<close>

definition sysFlock :: "path \<Rightarrow> (errno + unit) io" where
  "sysFlock p = State (\<lambda>w.
     case faults w (tick w) of
       Some (e, _) \<Rightarrow> (Inl e, w\<lparr>tick := Suc (tick w)\<rparr>)
     | None \<Rightarrow> if p |\<in>| held w then (Inl EWOULDBLOCK, w\<lparr>tick := Suc (tick w)\<rparr>)
               else (Inr (), w\<lparr>held := finsert p (held w), tick := Suc (tick w)\<rparr>))"

text \<open>Closing the lock file releases the lock, even if \<open>close\<close> reports an error.\<close>

definition sysUnlock :: "path \<Rightarrow> (errno + unit) io" where
  "sysUnlock p = State (\<lambda>w.
     (case faults w (tick w) of Some (e, _) \<Rightarrow> Inl e | None \<Rightarrow> Inr (),
      w\<lparr>held := held w |-| {|p|}, tick := Suc (tick w)\<rparr>))"

subsection \<open>The standard library's \<open>os.MkdirAll\<close>\<close>

text \<open>The path is given with its components reversed, so the parent is the tail.\<close>

fun osMkdirAll :: "string list \<Rightarrow> errno option io" where
  "osMkdirAll [] = do {
     r \<leftarrow> sysStat [];
     (case r of Inr DirN \<Rightarrow> ret None | Inr (FileN _) \<Rightarrow> ret (Some ENOTDIR) | Inl e \<Rightarrow> ret (Some e))
   }"
| "osMkdirAll (c # cs) = do {
     r \<leftarrow> sysStat (rev (c # cs));
     (case r of
        Inr DirN \<Rightarrow> ret None
      | Inr (FileN _) \<Rightarrow> ret (Some ENOTDIR)
      | Inl _ \<Rightarrow> do {
          e \<leftarrow> osMkdirAll cs;
          (case e of
             Some x \<Rightarrow> ret (Some x)
           | None \<Rightarrow> do {
               m \<leftarrow> sysMkdir (rev (c # cs));
               (case m of
                  Inr _ \<Rightarrow> ret None
                | Inl x \<Rightarrow> do {
                    l \<leftarrow> sysStat (rev (c # cs));
                    (case l of Inr DirN \<Rightarrow> ret None | _ \<Rightarrow> ret (Some x))
                  })
             })
        })
   }"

subsection \<open>\<open>internal/fsutil\<close>\<close>

definition dirSyncUnsupported :: "errno \<Rightarrow> bool" where
  "dirSyncUnsupported e \<longleftrightarrow> e = EINVAL \<or> e = ENOTSUP \<or> e = EOPNOTSUPP \<or> e = ENOSYS"

definition syncDir :: "path \<Rightarrow> (errno + unit) io \<Rightarrow> error option io" where
  "syncDir path sync = do {
     d \<leftarrow> sysOpenDir path;
     (case d of
        Inl e \<Rightarrow> ret (Some (ErrDirSync e))
      | Inr _ \<Rightarrow> do {
          s \<leftarrow> sync;
          (case s of
             Inl e \<Rightarrow>
               if \<not> dirSyncUnsupported e then do { _ \<leftarrow> sysClose; ret (Some (ErrDirSync e)) }
               else do { c \<leftarrow> sysClose;
                 (case c of Inl e' \<Rightarrow> ret (Some (ErrDirSync e')) | Inr _ \<Rightarrow> ret None) }
           | Inr _ \<Rightarrow> do { c \<leftarrow> sysClose;
               (case c of Inl e' \<Rightarrow> ret (Some (ErrDirSync e')) | Inr _ \<Rightarrow> ret None) })
        })
   }"

definition SyncDir :: "path \<Rightarrow> error option io" where
  "SyncDir path = syncDir path (sysFsyncDir path)"

text \<open>The first loop of \<open>mkdirAll\<close>: the parents of the directories that do not exist yet.\<close>

fun missingParents :: "string list \<Rightarrow> path list \<Rightarrow> (errno + path list) io" where
  "missingParents [] parents = do {
     r \<leftarrow> sysStat [];
     (case r of Inr _ \<Rightarrow> ret (Inr parents) | Inl e \<Rightarrow> ret (Inl e))
   }"
| "missingParents (c # cs) parents = do {
     r \<leftarrow> sysStat (rev (c # cs));
     (case r of
        Inr _ \<Rightarrow> ret (Inr parents)
      | Inl e \<Rightarrow> if e \<noteq> ENOENT then ret (Inl e)
                  else missingParents cs (parents @ [rev cs]))
   }"

text \<open>The last loop, from the first existing ancestor downwards.\<close>

fun syncParents :: "(path \<Rightarrow> error option io) \<Rightarrow> path list \<Rightarrow> error option io" where
  "syncParents sync [] = ret None"
| "syncParents sync (p # ps) = do {
     e \<leftarrow> sync p;
     (case e of Some x \<Rightarrow> ret (Some x) | None \<Rightarrow> syncParents sync ps)
   }"

definition mkdirAll :: "path \<Rightarrow> (path \<Rightarrow> error option io) \<Rightarrow> error option io" where
  "mkdirAll path sync = do {
     ps \<leftarrow> missingParents (rev path) [];
     (case ps of
        Inl e \<Rightarrow> ret (Some (ErrSys e))
      | Inr parents \<Rightarrow> do {
          e \<leftarrow> osMkdirAll (rev path);
          (case e of
             Some x \<Rightarrow> ret (Some (ErrSys x))
           | None \<Rightarrow> syncParents sync (rev parents))
        })
   }"

definition MkdirAll :: "path \<Rightarrow> error option io" where
  "MkdirAll path = mkdirAll path SyncDir"

definition tmpPath :: "path \<Rightarrow> path" where
  "tmpPath path = butlast path @ [last path @ ''.tmp'']"

definition WriteFileAtomic :: "path \<Rightarrow> bytes \<Rightarrow> error option io" where
  "WriteFileAtomic path data = do {
     f \<leftarrow> sysOpen True (tmpPath path);
     (case f of
        Inl e \<Rightarrow> ret (Some (ErrSys e))
      | Inr i \<Rightarrow> do {
          w \<leftarrow> sysWrite i data;
          (case w of
             Inl e \<Rightarrow> do { _ \<leftarrow> sysClose; ret (Some (ErrSys e)) }
           | Inr _ \<Rightarrow> do {
               s \<leftarrow> sysFsync i;
               (case s of
                  Inl e \<Rightarrow> do { _ \<leftarrow> sysClose; ret (Some (ErrSys e)) }
                | Inr _ \<Rightarrow> do {
                    c \<leftarrow> sysClose;
                    (case c of
                       Inl e \<Rightarrow> ret (Some (ErrSys e))
                     | Inr _ \<Rightarrow> do {
                         r \<leftarrow> sysRename (tmpPath path) path;
                         (case r of
                            Inl e \<Rightarrow> ret (Some (ErrSys e))
                          | Inr _ \<Rightarrow> SyncDir (butlast path))
                       })
                  })
             })
        })
   }"

subsection \<open>\<open>internal/lock\<close>\<close>

text \<open>\<open>Acquire\<close> of \<open>lock_unix.go\<close>, and the fallback for other systems.\<close>

definition Acquire :: "path \<Rightarrow> (error + path) io" where
  "Acquire path = do {
     f \<leftarrow> sysOpen False path;
     (case f of
        Inl e \<Rightarrow> ret (Inl (ErrSys e))
      | Inr _ \<Rightarrow> do {
          l \<leftarrow> sysFlock path;
          (case l of
             Inl _ \<Rightarrow> do { _ \<leftarrow> sysClose; ret (Inl ErrLocked) }
           | Inr _ \<Rightarrow> ret (Inr path))
        })
   }"

definition Acquire_other :: "path \<Rightarrow> (error + path) io" where
  "Acquire_other path = ret (Inl ErrNotSupported)"

end
