(* ===== verification/Wal.thy ===== *)
theory Wal
  imports Fs
begin

text \<open>
  The write-ahead log: \<open>wal.go\<close>, with the \<open>options\<close> and \<open>DB\<close> types of
  \<open>medb.go\<close>.

  The model's \<open>db\<close> extends the store with the fields guarded by \<open>logMu\<close> and the
  worker's own state.  A \<open>*commit\<close> is a number; \<open>results\<close> holds the outcome of
  every commit whose \<open>done\<close> channel has been closed, so \<open>wait\<close> returns when its number
  is there.  \<open>runErr\<close> is the local variable \<open>err\<close> of \<open>run\<close>.  The
  \<open>notify\<close> channel has capacity one and is a flag.  \<open>buf\<close> and \<open>spare\<close> only
  recycle memory and are left out.
\<close>

record options =
  maxDocSize :: int
  flushBytes :: int
  flushInterval :: int

record db = mem +
  dir :: path
  opts :: options
  closed :: bool
  log :: ino
  logSize :: int
  pending :: "bytes list"
  commit :: "nat option"
  nextCommit :: nat
  results :: "(nat, error option) fmap"
  notify :: bool
  stopped :: bool
  runErr :: "error option"
  failed :: "error option"

definition walName :: string where
  "walName = ''wal.log''"

definition lockName :: string where
  "lockName = ''lock''"

subsection \<open>Group commit\<close>

definition commit_wait :: "nat \<Rightarrow> db \<Rightarrow> error option option" where
  "commit_wait c d = fmlookup (results d) c"

definition openLog :: "path \<Rightarrow> (error + ino) io" where
  "openLog path = do {
     f \<leftarrow> sysOpen False path;
     (case f of
        Inl e \<Rightarrow> ret (Inl (ErrSys e))
      | Inr i \<Rightarrow> do {
          s \<leftarrow> SyncDir (butlast path);
          (case s of
             Some e \<Rightarrow> do { _ \<leftarrow> sysClose; ret (Inl e) }
           | None \<Rightarrow> ret (Inr i))
        })
   }"

text \<open>\<open>enqueue\<close>: join the open group commit or start one, and wake the worker.\<close>

definition enqueue :: "bytes \<Rightarrow> db \<Rightarrow> nat \<times> db" where
  "enqueue rec d =
     (let d1 = (case commit d of
          None \<Rightarrow> d\<lparr>commit := Some (nextCommit d), nextCommit := Suc (nextCommit d)\<rparr>
        | Some _ \<Rightarrow> d);
          c = (case commit d of None \<Rightarrow> nextCommit d | Some c \<Rightarrow> c)
      in (c, d1\<lparr>pending := pending d1 @ [rec], notify := True\<rparr>))"

definition logBuf :: "bytes list \<Rightarrow> bytes" where
  "logBuf batch = concat (map (\<lambda>rec. rec @ [nl]) batch)"

text \<open>
  \<open>writeLog\<close>: take the batch, append and sync it unless an earlier error sticks, then
  close the commit with the outcome.
\<close>

definition writeLog :: "error option \<Rightarrow> db \<Rightarrow> (error option \<times> db) io" where
  "writeLog err d =
     (let batch = pending d; c = commit d; d1 = d\<lparr>pending := [], commit := None\<rparr> in
      case c of
        None \<Rightarrow> ret (err, d1)
      | Some cid \<Rightarrow> do {
          rd \<leftarrow>
            (if err = None \<and> length batch > 0 then do {
               w \<leftarrow> sysWrite (log d) (logBuf batch);
               (case w of
                  Inl e \<Rightarrow> ret (Some (ErrSys e), d1)
                | Inr _ \<Rightarrow> do {
                    s \<leftarrow> sysFsync (log d);
                    (case s of
                       Inl e \<Rightarrow> ret (Some (ErrSys e), d1)
                     | Inr _ \<Rightarrow> ret (None, d1\<lparr>logSize := logSize d1 + int (length (logBuf batch))\<rparr>))
                  })
             }
             else ret (err, d1));
          (case rd of (e, d2) \<Rightarrow> ret (e, d2\<lparr>results := fmupd cid e (results d2)\<rparr>))
        })"

subsection \<open>Replay\<close>

text \<open>\<open>bytes.IndexByte(data, newline)\<close>: the line before the first newline and the rest.\<close>

fun cutLine :: "bytes \<Rightarrow> (bytes \<times> bytes) option" where
  "cutLine [] = None"
| "cutLine (c # cs) =
     (if c = nl then Some ([], cs)
      else map_option (\<lambda>(l, r). (c # l, r)) (cutLine cs))"

lemma cutLine_length: "cutLine s = Some (l, r) \<Longrightarrow> length r < length s"
  by (induction s arbitrary: l) (fastforce split: if_splits simp: map_option_eq_Some_conv)+

function replayLoop :: "nat \<Rightarrow> bytes \<Rightarrow> nat \<Rightarrow> 'a mem_scheme \<Rightarrow> error + nat \<times> 'a mem_scheme" where
  "replayLoop n data sz d =
     (case cutLine data of
        None \<Rightarrow> Inr (sz, d)
      | Some (line, rest) \<Rightarrow>
          (case unmarshalRecord line of
             Inl _ \<Rightarrow> Inl (ErrCorruptWal n)
           | Inr r \<Rightarrow>
               if \<not> validName (Coll r) then Inl (ErrCorruptWal n)
               else if Op r = opSet \<and> length (Doc r) = 0 then Inl (ErrCorruptWal n)
               else replayLoop (n + 1) rest (sz + length line + 1) (applyRec r d)))"
  by pat_completeness auto
termination
  by (relation "measure (\<lambda>(n, data, sz, d). length data)") (auto dest: cutLine_length)

declare replayLoop.simps [simp del]

definition replayLog :: "path \<Rightarrow> db \<Rightarrow> (error + db) io" where
  "replayLog path d = do {
     f \<leftarrow> sysReadFile path;
     (case f of
        Inl e \<Rightarrow> ret (Inl (ErrSys e))
      | Inr data \<Rightarrow>
          (case replayLoop 1 data 0 d of
             Inl e \<Rightarrow> ret (Inl e)
           | Inr (sz, d1) \<Rightarrow>
               if sz < length data then do {
                 t \<leftarrow> sysTruncate (log d) sz;
                 (case t of
                    Inl e \<Rightarrow> ret (Inl (ErrTruncateTail e))
                  | Inr _ \<Rightarrow> do {
                      s \<leftarrow> sysFsync (log d);
                      (case s of
                         Inl e \<Rightarrow> ret (Inl (ErrSyncTail e))
                       | Inr _ \<Rightarrow> ret (Inr (d1\<lparr>logSize := int sz\<rparr>)))
                    })
               }
               else ret (Inr (d1\<lparr>logSize := int sz\<rparr>))))
   }"

end
