(* ===== verification/Snapshot.thy ===== *)
theory Snapshot
  imports Wal
begin

text \<open>
  Snapshots: \<open>snapshot.go\<close>.  \<open>writeSnapshot\<close> writes every dirty collection to its file,
  removes the files of dropped ones, then empties the log; \<open>load\<close> reads the files back
  when the database opens.
\<close>

subsection \<open>Writing\<close>

text \<open>The loop over the dirty names, under \<open>db.mu\<close>: encode what exists, note what was dropped.\<close>

fun collectSnaps :: "colls \<Rightarrow> string list \<Rightarrow> (string, bytes) fmap \<Rightarrow> string list
    \<Rightarrow> error + (string, bytes) fmap \<times> string list" where
  "collectSnaps cs [] snaps dropped = Inr (snaps, dropped)"
| "collectSnaps cs (name # names) snaps dropped =
     (case fmlookup cs name of
        None \<Rightarrow> collectSnaps cs names snaps (dropped @ [name])
      | Some coll \<Rightarrow>
          (case marshalDocs coll of
             Inl e \<Rightarrow> Inl e
           | Inr b \<Rightarrow> collectSnaps cs names (fmupd name b snaps) dropped))"

fun writeSnaps :: "path \<Rightarrow> (string, bytes) fmap \<Rightarrow> string list \<Rightarrow> error option io" where
  "writeSnaps dr snaps [] = ret None"
| "writeSnaps dr snaps (name # names) =
     (case fmlookup snaps name of
        None \<Rightarrow> writeSnaps dr snaps names
      | Some data \<Rightarrow> do {
          m \<leftarrow> MkdirAll (butlast (collPath dr name));
          (case m of
             Some e \<Rightarrow> ret (Some e)
           | None \<Rightarrow> do {
               w \<leftarrow> WriteFileAtomic (collPath dr name) data;
               (case w of
                  Some e \<Rightarrow> ret (Some e)
                | None \<Rightarrow> writeSnaps dr snaps names)
             })
        })"

definition removeColl :: "path \<Rightarrow> string \<Rightarrow> error option io" where
  "removeColl dr name = do {
     r \<leftarrow> sysRemove (collPath dr name);
     (case r of
        Inl e \<Rightarrow> if e = ENOENT then ret None else ret (Some (ErrSys e))
      | Inr _ \<Rightarrow> SyncDir (butlast (collPath dr name)))
   }"

fun removeDropped :: "path \<Rightarrow> string list \<Rightarrow> error option io" where
  "removeDropped dr [] = ret None"
| "removeDropped dr (name # names) = do {
     r \<leftarrow> removeColl dr name;
     (case r of Some e \<Rightarrow> ret (Some e) | None \<Rightarrow> removeDropped dr names)
   }"

definition getOrder :: "string fset \<Rightarrow> string list io" where
  "getOrder s = State (\<lambda>w. (rangeOrder w s, w))"

definition writeSnapshot :: "error option \<Rightarrow> db \<Rightarrow> (error option \<times> db) io" where
  "writeSnapshot err d =
     (if err \<noteq> None then ret (err, d)
      else if dirty d = {||} \<and> logSize d = 0 then ret (None, d)
      else do {
        names \<leftarrow> getOrder (dirty d);
        (let d1 = d\<lparr>dirty := {||}\<rparr> in
         case collectSnaps (colls d) names fmempty [] of
           Inl e \<Rightarrow> ret (Some e, d1)
         | Inr (snaps, dropped) \<Rightarrow> do {
             order \<leftarrow> getOrder (fmdom snaps);
             w \<leftarrow> writeSnaps (dir d) snaps order;
             (case w of
                Some e \<Rightarrow> ret (Some e, d1)
              | None \<Rightarrow> do {
                  r \<leftarrow> removeDropped (dir d) dropped;
                  (case r of
                     Some e \<Rightarrow> ret (Some e, d1)
                   | None \<Rightarrow> do {
                       t \<leftarrow> sysTruncate (log d) 0;
                       (case t of
                          Inl e \<Rightarrow> ret (Some (ErrSys e), d1)
                        | Inr _ \<Rightarrow> do {
                            s \<leftarrow> sysFsync (log d);
                            (case s of
                               Inl e \<Rightarrow> ret (Some (ErrSys e), d1)
                             | Inr _ \<Rightarrow> ret (None, d1\<lparr>logSize := 0\<rparr>))
                          })
                     })
                })
           })
      })"

subsection \<open>Loading\<close>

text \<open>
  \<open>filepath.WalkDir\<close> visits every entry below the root in lexical order, a directory before
  its content: the lexicographic order of component lists.
\<close>

definition walkEntries :: "disk \<Rightarrow> path \<Rightarrow> (path \<times> node) list" where
  "walkEntries d root =
     concat (map (\<lambda>p. case lookupNode d p of Inl _ \<Rightarrow> [] | Inr n \<Rightarrow> if prefix root p then [(p, n)] else [])
       (sortedKeys (ents d)))"

definition sysWalkDir :: "path \<Rightarrow> (errno + (path \<times> node) list) io" where
  "sysWalkDir root = syscall (\<lambda>d. (Inr (walkEntries d root), d))"

text \<open>The callback of \<open>WalkDir\<close>, for one entry after the other.\<close>

fun loadFiles :: "(path \<times> node) list \<Rightarrow> db \<Rightarrow> (error + db) io" where
  "loadFiles [] d = ret (Inr d)"
| "loadFiles ((p, n) # es) d =
     (if n = DirN \<or> \<not> suffix jsonExt (last p) then loadFiles es d
      else
        let name = relName (drop (length (dir d)) p) in
        if \<not> validName name then loadFiles es d
        else do {
          f \<leftarrow> sysReadFile p;
          (case f of
             Inl e \<Rightarrow> ret (Inl (ErrSys e))
           | Inr data \<Rightarrow>
               (case unmarshalDocs data of
                  Inl _ \<Rightarrow> ret (Inl (ErrCorruptSnapshot p))
                | Inr c \<Rightarrow> loadFiles es (d\<lparr>colls := fmupd name c (colls d)\<rparr>)))
        })"

definition load :: "db \<Rightarrow> (error + db) io" where
  "load d = do {
     w \<leftarrow> sysWalkDir (dir d);
     (case w of
        Inl e \<Rightarrow> ret (Inl (ErrSys e))
      | Inr es \<Rightarrow> loadFiles es d)
   }"

end
