(* ===== verification/Db.thy ===== *)
theory Db
  imports Snapshot
begin

text \<open>
  The database handle: \<open>medb.go\<close>.  Client operations change the in-memory state and
  queue a log record; the worker goroutine \<open>run\<close> is the only one that touches the disk
  after \<open>Open\<close>.  Its three \<open>select\<close> branches are three operations here, and
  \<open>db_step\<close> lets clients and the worker interleave in any order.
\<close>

subsection \<open>Options\<close>

definition WithMaxDocSize :: "int \<Rightarrow> options \<Rightarrow> options" where
  "WithMaxDocSize n o' = o'\<lparr>maxDocSize := n\<rparr>"

definition WithFlushBytes :: "int \<Rightarrow> options \<Rightarrow> options" where
  "WithFlushBytes n o' = o'\<lparr>flushBytes := n\<rparr>"

definition WithFlushInterval :: "int \<Rightarrow> options \<Rightarrow> options" where
  "WithFlushInterval n o' = o'\<lparr>flushInterval := n\<rparr>"

definition validate :: "options \<Rightarrow> error option" where
  "validate o' =
     (if maxDocSize o' \<le> 0 then Some (ErrOption ''max document size'' (maxDocSize o'))
      else if flushBytes o' \<le> 0 then Some (ErrOption ''flush threshold'' (flushBytes o'))
      else if flushInterval o' \<le> 0 then Some (ErrOption ''flush interval'' (flushInterval o'))
      else None)"

text \<open>16 MiB, 64 MiB and five seconds in nanoseconds.\<close>

definition defaultOptions :: options where
  "defaultOptions = \<lparr>maxDocSize = 16 * 2 ^ 20, flushBytes = 64 * 2 ^ 20,
     flushInterval = 5 * 1000000000\<rparr>"

subsection \<open>Open\<close>

definition newDB :: "path \<Rightarrow> options \<Rightarrow> ino \<Rightarrow> db" where
  "newDB dr o' lg = \<lparr>colls = fmempty, dirty = {||}, dir = dr, opts = o', closed = False,
     log = lg, logSize = 0, pending = [], commit = None, nextCommit = 0, results = fmempty,
     notify = False, stopped = False, runErr = None, failed = None\<rparr>"

text \<open>Releasing what \<open>Open\<close> acquired when it fails: the deferred closes.\<close>

definition abandon :: "path \<Rightarrow> error \<Rightarrow> (error + db) io" where
  "abandon lk e = do { _ \<leftarrow> sysClose; _ \<leftarrow> sysUnlock lk; ret (Inl e) }"

text \<open>Snapshots, log and a first snapshot, once the log is open.\<close>

definition openRecover :: "path \<Rightarrow> path \<Rightarrow> db \<Rightarrow> (error + db) io" where
  "openRecover flock logPath d = do {
     l \<leftarrow> load d;
     (case l of
        Inl e \<Rightarrow> abandon flock e
      | Inr d1 \<Rightarrow> do {
          r \<leftarrow> replayLog logPath d1;
          (case r of
             Inl e \<Rightarrow> abandon flock e
           | Inr d2 \<Rightarrow> do {
               s \<leftarrow> writeSnapshot None d2;
               (case s of
                  (Some e, _) \<Rightarrow> abandon flock e
                | (None, d3) \<Rightarrow> ret (Inr d3))
             })
        })
   }"

definition openLocked :: "path \<Rightarrow> path \<Rightarrow> options \<Rightarrow> (error + db) io" where
  "openLocked flock dr o' = do {
     lg \<leftarrow> openLog (dr @ [walName]);
     (case lg of
        Inl e \<Rightarrow> do { _ \<leftarrow> sysUnlock flock; ret (Inl e) }
      | Inr i \<Rightarrow> openRecover flock (dr @ [walName]) (newDB dr o' i))
   }"

definition Open :: "path \<Rightarrow> (options \<Rightarrow> options) list \<Rightarrow> (error + db) io" where
  "Open dr os =
     (let o' = fold (\<lambda>f x. f x) os defaultOptions in
      case validate o' of
        Some e \<Rightarrow> ret (Inl e)
      | None \<Rightarrow> do {
          m \<leftarrow> MkdirAll dr;
          (case m of
             Some e \<Rightarrow> ret (Inl e)
           | None \<Rightarrow> do {
               lk \<leftarrow> Acquire (dr @ [lockName]);
               (case lk of
                  Inl e \<Rightarrow> ret (Inl e)
                | Inr flock \<Rightarrow> openLocked flock dr o')
             })
        })"

text \<open>
  \<open>Open\<close> is the function for a directory that \<open>filepath.Abs\<close> has resolved; \<open>OpenDir\<close> has the
  result of that call, which comes after the options are validated.
\<close>

definition OpenDir :: "error + path \<Rightarrow> (options \<Rightarrow> options) list \<Rightarrow> (error + db) io" where
  "OpenDir absDir os =
     (case validate (fold (\<lambda>f x. f x) os defaultOptions) of
        Some e \<Rightarrow> ret (Inl e)
      | None \<Rightarrow> (case absDir of Inl e \<Rightarrow> ret (Inl e) | Inr dr \<Rightarrow> Open dr os))"

subsection \<open>Client operations\<close>

text \<open>
  \<open>DB.write\<close> up to the point where it waits: an error, or the commit to wait for.
\<close>

definition DB_write :: "wal_record \<Rightarrow> db \<Rightarrow> (error + nat) \<times> db" where
  "DB_write rec d =
     (case marshalRecord rec of
        Inl e \<Rightarrow> (Inl e, d)
      | Inr buf \<Rightarrow>
          if closed d then (Inl ErrClosed, d)
          else (case enqueue buf (applyRec rec d) of (c, d') \<Rightarrow> (Inr c, d')))"

definition DB_read :: "string \<Rightarrow> string \<Rightarrow> db \<Rightarrow> error + bytes" where
  "DB_read coll i d =
     (if closed d then Inl ErrClosed
      else case fmlookup (fmget (colls d) coll) i of
        None \<Rightarrow> Inl ErrNotFound
      | Some raw \<Rightarrow> Inr raw)"

text \<open>\<open>None\<close> is the panic of \<open>mustValidName\<close>.\<close>

definition mustValidName :: "string \<Rightarrow> unit option" where
  "mustValidName name = (if \<not> validName name then None else Some ())"

definition Drop :: "string \<Rightarrow> db \<Rightarrow> ((error + nat) \<times> db) option" where
  "Drop name d = (case mustValidName name of None \<Rightarrow> None
     | Some _ \<Rightarrow> Some (DB_write \<lparr>Op = opDrop, Coll = name, ID = [], Doc = []\<rparr> d))"

definition Collections :: "db \<Rightarrow> string list" where
  "Collections d = (if closed d then [] else sortedKeys (colls d))"

definition checkDocSize :: "bytes \<Rightarrow> db \<Rightarrow> error option" where
  "checkDocSize raw d =
     (if int (length raw) > maxDocSize (opts d)
      then Some (ErrTooLarge (int (length raw)) (maxDocSize (opts d))) else None)"

subsection \<open>The worker\<close>

text \<open>\<open>case <-ticker.C\<close>; \<open>runErr\<close> is the local variable \<open>err\<close> of the loop.\<close>

definition runTick :: "db \<Rightarrow> db io" where
  "runTick d = do {
     y \<leftarrow> writeSnapshot (runErr d) d;
     (case y of (e', d2) \<Rightarrow> ret (d2\<lparr>runErr := e'\<rparr>))
   }"

text \<open>\<open>case <-db.notify\<close>: the batch, and a snapshot if the log has become long.\<close>

definition runLog :: "db \<Rightarrow> db io" where
  "runLog d = do {
     x \<leftarrow> writeLog (runErr d) d;
     (case x of (e, d1) \<Rightarrow> ret (d1\<lparr>runErr := e\<rparr>))
   }"

definition runNotify :: "db \<Rightarrow> db io" where
  "runNotify d = do {
     d1 \<leftarrow> runLog (d\<lparr>notify := False\<rparr>);
     (if logSize d1 \<ge> flushBytes (opts d1) then runTick d1 else ret d1)
   }"

text \<open>\<open>case <-db.stop\<close>: the last batch and snapshot, then the worker ends.\<close>

definition runStop :: "db \<Rightarrow> db io" where
  "runStop d = do {
     x \<leftarrow> writeLog (runErr d) d;
     (case x of (e, d1) \<Rightarrow> do {
        y \<leftarrow> writeSnapshot e d1;
        (case y of (e', d2) \<Rightarrow> ret (d2\<lparr>runErr := e, failed := e', stopped := True\<rparr>))
      })
   }"

subsection \<open>Close\<close>

text \<open>
  \<open>Close\<close> in two parts: marking the handle closed under \<open>db.mu\<close>, and, after the worker
  has stopped, releasing the files.
\<close>

definition Close_begin :: "db \<Rightarrow> error option \<times> db" where
  "Close_begin d = (if closed d then (Some ErrClosed, d) else (None, d\<lparr>closed := True\<rparr>))"

definition Close_end :: "db \<Rightarrow> (error option \<times> db) io" where
  "Close_end d = do {
     l \<leftarrow> sysClose;
     (let err = (case failed d of Some e \<Rightarrow> Some e
                 | None \<Rightarrow> (case l of Inl e \<Rightarrow> Some (ErrSys e) | Inr _ \<Rightarrow> None)) in do {
        u \<leftarrow> sysUnlock (dir d @ [lockName]);
        (let err' = (case err of Some e \<Rightarrow> Some e
                     | None \<Rightarrow> (case u of Inl e \<Rightarrow> Some (ErrSys e) | Inr _ \<Rightarrow> None)) in
         ret (err', d\<lparr>colls := fmempty, dirty := {||}\<rparr>))
      })
   }"

text \<open>A whole \<open>Close\<close> with no other goroutine running.\<close>

definition Close :: "db \<Rightarrow> (error option \<times> db) io" where
  "Close d = (case Close_begin d of
     (Some e, d1) \<Rightarrow> ret (Some e, d1)
   | (None, d1) \<Rightarrow> do { d2 \<leftarrow> runStop d1; Close_end d2 })"

subsection \<open>Identifiers\<close>

text \<open>\<open>NewID\<close>: the hexadecimal text of sixteen random bytes.\<close>

definition hexEncode :: "bytes \<Rightarrow> string" where
  "hexEncode bs = concat (map (\<lambda>c. [hexDigit (byte c div 16), hexDigit (byte c mod 16)]) bs)"

definition NewID :: "bytes \<Rightarrow> string" where
  "NewID rnd = hexEncode (take 16 rnd)"

end
