(* ===== verification/Crash.thy ===== *)
theory Crash
  imports Fs
begin

text \<open>
  What survives a power loss.  \<open>crashOf k k'\<close> says that the disk \<open>k\<close> may come back as
  \<open>k'\<close>: every directory in one of the states it went through since it was last synced, every
  file with one of its contents, and an entry only if all directories above it came back.

  \<open>possAt k p S\<close> is the local condition the proofs carry through the system calls: whatever
  happens, the content of the file at \<open>p\<close> after a power loss (\<open>None\<close> for no file) is in
  \<open>S\<close>.  \<open>hyg\<close> holds the bookkeeping facts about histories that every operation keeps.
\<close>

subsection \<open>Power loss\<close>

definition live :: "(path \<Rightarrow> string \<Rightarrow> node option) \<Rightarrow> path \<Rightarrow> bool" where
  "live ver p \<longleftrightarrow> (\<forall>q c. strict_prefix (q @ [c]) p \<longrightarrow> ver q c = Some DirN)"

definition settled :: "disk \<Rightarrow> bool" where
  "settled k \<longleftrightarrow> (\<forall>D. dhist k D = [children (ents k) D]) \<and> (\<forall>i. chist k i = [content k i])"

definition survives :: "disk \<Rightarrow> disk \<Rightarrow> (path \<Rightarrow> string \<Rightarrow> node option) \<Rightarrow> bool" where
  "survives k k' ver \<longleftrightarrow> (\<forall>D. ver D \<in> set (dhist k D)) \<and> fmlookup (ents k') [] = None \<and>
     (\<forall>D c. fmlookup (ents k') (D @ [c]) = (if live ver (D @ [c]) then ver D c else None))"

definition crashOf :: "disk \<Rightarrow> disk \<Rightarrow> bool" where
  "crashOf k k' \<longleftrightarrow> settled k' \<and> nextIno k' = nextIno k \<and> (\<forall>i. content k' i \<in> set (chist k i)) \<and>
     (\<exists>ver. survives k k' ver)"

definition fileAt :: "disk \<Rightarrow> path \<Rightarrow> bytes option" where
  "fileAt k p = (case fmlookup (ents k) p of Some (FileN i) \<Rightarrow> Some (content k i) | _ \<Rightarrow> None)"

subsection \<open>Possible contents\<close>

definition stableDir :: "disk \<Rightarrow> path \<Rightarrow> bool" where
  "stableDir k D \<longleftrightarrow> (\<forall>q c. prefix (q @ [c]) D \<longrightarrow> (\<forall>v \<in> set (dhist k q). v c = Some DirN))"

definition nodeIn :: "disk \<Rightarrow> bytes option set \<Rightarrow> node option \<Rightarrow> bool" where
  "nodeIn k S x = (case x of None \<Rightarrow> None \<in> S | Some DirN \<Rightarrow> False
     | Some (FileN i) \<Rightarrow> Some ` set (chist k i) \<subseteq> S)"

definition possAt :: "disk \<Rightarrow> path \<Rightarrow> bytes option set \<Rightarrow> bool" where
  "possAt k p S \<longleftrightarrow> p \<noteq> [] \<and> (\<forall>v \<in> set (dhist k (butlast p)). nodeIn k S (v (last p))) \<and>
     (None \<notin> S \<longrightarrow> stableDir k (butlast p))"

lemma nodeIn_mono: "nodeIn k S x \<Longrightarrow> S \<subseteq> T \<Longrightarrow> nodeIn k T x"
  by (auto simp: nodeIn_def split: option.splits node.splits)

lemma possAt_mono: "possAt k p S \<Longrightarrow> S \<subseteq> T \<Longrightarrow> possAt k p T"
  unfolding possAt_def using nodeIn_mono by blast

text \<open>Every existing directory survives, except entries of the directories in \<open>P\<close>.\<close>

definition stableBut :: "path set \<Rightarrow> disk \<Rightarrow> bool" where
  "stableBut P k \<longleftrightarrow> (\<forall>q c. fmlookup (ents k) (q @ [c]) = Some DirN \<longrightarrow> q \<notin> P \<longrightarrow>
     (\<forall>v \<in> set (dhist k q). v c = Some DirN))"

definition isTmp :: "string \<Rightarrow> bool" where
  "isTmp c \<longleftrightarrow> suffix ''.tmp'' c"

subsection \<open>Bookkeeping\<close>

text \<open>
  The current state is among the possible ones; inode numbers are below the counter; an inode
  belongs to one directory and, within a version, to one name; a file with a name other than a
  temporary one, now or in a possible state, is not reachable under another name; no entry without
  its directory.
\<close>

definition inVer :: "disk \<Rightarrow> path \<Rightarrow> (string \<Rightarrow> node option) \<Rightarrow> string \<Rightarrow> node \<Rightarrow> bool" where
  "inVer k D v c n \<longleftrightarrow> v \<in> set (dhist k D) \<and> v c = Some n"

definition hygCur :: "disk \<Rightarrow> bool" where
  "hygCur k \<longleftrightarrow> (\<forall>D. children (ents k) D \<in> set (dhist k D)) \<and> (\<forall>i. content k i \<in> set (chist k i))"

definition hygVer :: "disk \<Rightarrow> bool" where
  "hygVer k \<longleftrightarrow> (\<forall>D v c i. inVer k D v c (FileN i) \<longrightarrow> i < nextIno k \<and>
     (\<forall>E u e. inVer k E u e (FileN i) \<longrightarrow> D = E) \<and> (\<forall>e. inVer k D v e (FileN i) \<longrightarrow> c = e) \<and>
     (\<not> isTmp c \<longrightarrow> (\<forall>q. fmlookup (ents k) q = Some (FileN i) \<longrightarrow> q = D @ [c])))"

definition hygTree :: "disk \<Rightarrow> bool" where
  "hygTree k \<longleftrightarrow> fmlookup (ents k) [] = None \<and>
     (\<forall>D c. fmlookup (ents k) (D @ [c]) \<noteq> None \<longrightarrow> D = [] \<or> fmlookup (ents k) D = Some DirN)"

definition hyg :: "disk \<Rightarrow> bool" where
  "hyg k \<longleftrightarrow> hygCur k \<and> hygVer k \<and> hygTree k"

lemma hyg_children: "hyg k \<Longrightarrow> children (ents k) D \<in> set (dhist k D)"
  by (simp add: hyg_def hygCur_def)

lemma hyg_content: "hyg k \<Longrightarrow> content k i \<in> set (chist k i)"
  by (simp add: hyg_def hygCur_def)

lemma hyg_bound: "hyg k \<Longrightarrow> inVer k D v c (FileN i) \<Longrightarrow> i < nextIno k"
  unfolding hyg_def hygVer_def by blast

lemma hyg_dir: "hyg k \<Longrightarrow> inVer k D v c (FileN i) \<Longrightarrow> inVer k E u e (FileN i) \<Longrightarrow> D = E"
  unfolding hyg_def hygVer_def by blast

lemma hyg_name: "hyg k \<Longrightarrow> inVer k D v c (FileN i) \<Longrightarrow> inVer k D v e (FileN i) \<Longrightarrow> c = e"
  unfolding hyg_def hygVer_def by blast

lemma hyg_owned: "hyg k \<Longrightarrow> inVer k D v c (FileN i) \<Longrightarrow> \<not> isTmp c \<Longrightarrow>
    fmlookup (ents k) q = Some (FileN i) \<Longrightarrow> q = D @ [c]"
  unfolding hyg_def hygVer_def by blast

lemma hygVerI:
  assumes "\<And>D v c i. inVer k D v c (FileN i) \<Longrightarrow> i < nextIno k"
    and "\<And>D v c i E u e. inVer k D v c (FileN i) \<Longrightarrow> inVer k E u e (FileN i) \<Longrightarrow> D = E"
    and "\<And>D v c i e. inVer k D v c (FileN i) \<Longrightarrow> inVer k D v e (FileN i) \<Longrightarrow> c = e"
    and "\<And>D v c i q. inVer k D v c (FileN i) \<Longrightarrow> \<not> isTmp c \<Longrightarrow>
        fmlookup (ents k) q = Some (FileN i) \<Longrightarrow> q = D @ [c]"
  shows "hygVer k"
  unfolding hygVer_def
proof (intro allI impI conjI)
  fix D v c i assume v: "inVer k D v c (FileN i)"
  show "i < nextIno k" using assms(1) v .
  show "D = E" if "inVer k E u e (FileN i)" for E u e using assms(2) v that .
  show "c = e" if "inVer k D v e (FileN i)" for e using assms(3) v that .
  show "q = D @ [c]" if "\<not> isTmp c" "fmlookup (ents k) q = Some (FileN i)" for q
    using assms(4) v that .
qed

lemma hygVer_sub:
  assumes "hyg k" "\<And>D v c n. inVer k' D v c n \<Longrightarrow> inVer k D v c n" "ents k' = ents k"
    "nextIno k' = nextIno k"
  shows "hygVer k'"
proof (rule hygVerI)
  fix D v c i assume v: "inVer k' D v c (FileN i)"
  show "i < nextIno k'" using hyg_bound [OF assms(1) assms(2) [OF v]] assms(4) by simp
  show "D = E" if "inVer k' E u e (FileN i)" for E u e
    using hyg_dir [OF assms(1) assms(2) [OF v] assms(2) [OF that]] .
  show "c = e" if "inVer k' D v e (FileN i)" for e
    using hyg_name [OF assms(1) assms(2) [OF v] assms(2) [OF that]] .
  show "q = D @ [c]" if "\<not> isTmp c" "fmlookup (ents k') q = Some (FileN i)" for q
    using hyg_owned [OF assms(1) assms(2) [OF v] that(1)] that(2) assms(3) by simp
qed

lemma hyg_parent: "hyg k \<Longrightarrow> fmlookup (ents k) (D @ [c]) \<noteq> None \<Longrightarrow> D \<noteq> [] \<Longrightarrow>
    fmlookup (ents k) D = Some DirN"
  by (auto simp: hyg_def hygTree_def)

lemma hyg_root: "hyg k \<Longrightarrow> fmlookup (ents k) [] = None"
  by (simp add: hyg_def hygTree_def)

lemma inVer_current:
  "hyg k \<Longrightarrow> fmlookup (ents k) (D @ [c]) = Some n \<Longrightarrow> inVer k D (children (ents k) D) c n"
  by (simp add: inVer_def hyg_children children_def)

lemma hyg_entry:
  assumes "hyg k" "fmlookup (ents k) p = Some n"
  shows "p \<noteq> []" "inVer k (butlast p) (children (ents k) (butlast p)) (last p) n"
proof -
  show "p \<noteq> []" using assms hyg_root by force
  then show "inVer k (butlast p) (children (ents k) (butlast p)) (last p) n"
    using assms by (intro inVer_current) simp_all
qed

lemma hyg_bound_ents: "hyg k \<Longrightarrow> fmlookup (ents k) p = Some (FileN i) \<Longrightarrow> i < nextIno k"
  using hyg_bound hyg_entry(2) by blast

lemma hyg_inj_ents:
  assumes "hyg k" "fmlookup (ents k) p = Some (FileN i)" "fmlookup (ents k) q = Some (FileN i)"
  shows "p = q"
proof -
  note P = hyg_entry [OF assms(1,2)] and Q = hyg_entry [OF assms(1,3)]
  have b: "butlast p = butlast q" using hyg_dir [OF assms(1) P(2) Q(2)] .
  then have "last p = last q" using hyg_name [OF assms(1) P(2)] Q(2) by simp
  with b P(1) Q(1) show ?thesis by (metis append_butlast_last_id)
qed

subsection \<open>Contents of files\<close>

lemma setContent_simps [simp]:
  "ents (setContent i c via k) = ents k" "dhist (setContent i c via k) = dhist k"
  "nextIno (setContent i c via k) = nextIno k"
  "content (setContent i c via k) = (content k)(i := c)"
  "chist (setContent i c via k) = (chist k)(i := chist k i @ via @ [c])"
  by (simp_all add: setContent_def)

lemma flushFile_simps [simp]:
  "ents (flushFile i k) = ents k" "dhist (flushFile i k) = dhist k"
  "nextIno (flushFile i k) = nextIno k" "content (flushFile i k) = content k"
  "chist (flushFile i k) = (chist k)(i := [content k i])"
  by (simp_all add: flushFile_def)

lemma flushDir_simps [simp]:
  "ents (flushDir D k) = ents k" "dhist (flushDir D k) = (dhist k)(D := [children (ents k) D])"
  "nextIno (flushDir D k) = nextIno k" "content (flushDir D k) = content k"
  "chist (flushDir D k) = chist k"
  by (simp_all add: flushDir_def)

lemma hyg_setContent: "hyg k \<Longrightarrow> hyg (setContent i c via k)"
  using hygVer_sub [of k "setContent i c via k"]
  by (simp add: hyg_def hygCur_def hygTree_def inVer_def)

lemma hyg_flushFile: "hyg k \<Longrightarrow> hyg (flushFile i k)"
  using hygVer_sub [of k "flushFile i k"]
  by (simp add: hyg_def hygCur_def hygTree_def inVer_def)

lemma stableDir_content [simp]:
  "stableDir (setContent i c via k) D = stableDir k D" "stableDir (flushFile i k) D = stableDir k D"
  by (simp_all add: stableDir_def)

lemma stableBut_content [simp]:
  "stableBut P (setContent i c via k) = stableBut P k" "stableBut P (flushFile i k) = stableBut P k"
  by (simp_all add: stableBut_def)

lemma nodeIn_setContent:
  assumes "nodeIn k S x" "x \<noteq> Some (FileN i)"
  shows "nodeIn (setContent i c via k) S x"
  using assms by (auto simp: nodeIn_def split: option.splits node.splits)

lemma possAt_setContent_other:
  assumes "hyg k" "possAt k p S" "fmlookup (ents k) q = Some (FileN i)" "q \<noteq> p" "\<not> isTmp (last p)"
  shows "possAt (setContent i c via k) p S"
proof -
  have "p \<noteq> []" using assms(2) by (simp add: possAt_def)
  have "v (last p) \<noteq> Some (FileN i)" if "v \<in> set (dhist k (butlast p))" for v
    using hyg_owned [OF assms(1) _ assms(5,3)] that assms(4) \<open>p \<noteq> []\<close> unfolding inVer_def by fastforce
  then show ?thesis
    using assms(2) nodeIn_setContent by (simp add: possAt_def)
qed

lemma possAt_setContent:
  assumes "possAt k p S" "Some ` set (c # via) \<subseteq> T" "S \<subseteq> T"
  shows "possAt (setContent i c via k) p T"
proof -
  have "nodeIn (setContent i c via k) T x" if "nodeIn k S x" for x
    using that assms(2,3) by (auto simp: nodeIn_def split: option.splits node.splits)
  then show ?thesis
    using assms(1,3) by (auto simp: possAt_def)
qed

lemma possAt_flushFile:
  assumes "hyg k" "possAt k p S"
  shows "possAt (flushFile i k) p S"
proof -
  have "nodeIn (flushFile i k) S x" if "nodeIn k S x" for x
    using that hyg_content [OF assms(1), of i] by (auto simp: nodeIn_def split: option.splits node.splits)
  then show ?thesis
    using assms(2) by (auto simp: possAt_def)
qed

subsection \<open>Directory syncs\<close>

lemma hyg_flushDir:
  assumes "hyg k"
  shows "hyg (flushDir D k)"
proof -
  have "hygVer (flushDir D k)"
    by (rule hygVer_sub [OF assms])
       (use hyg_children [OF assms, of D] in \<open>auto simp: inVer_def split: if_splits\<close>)
  then show ?thesis using assms by (simp add: hyg_def hygCur_def hygTree_def)
qed

lemma stableDir_flushDir: "hyg k \<Longrightarrow> stableDir k E \<Longrightarrow> stableDir (flushDir D k) E"
  using hyg_children [of k D] by (auto simp: stableDir_def)

lemma nodeIn_flushDir [simp]: "nodeIn (flushDir D k) S x = nodeIn k S x"
  by (simp add: nodeIn_def split: option.split node.split)

lemma possAt_flushDir: "hyg k \<Longrightarrow> possAt k p S \<Longrightarrow> possAt (flushDir D k) p S"
  using hyg_children [of k D] by (auto simp: possAt_def stableDir_flushDir)

lemma stableBut_flushDir:
  assumes "hyg k" "stableBut P k"
  shows "stableBut (P - {D}) (flushDir D k)"
  using assms by (auto simp: stableBut_def children_def)

lemma stableBut_dir:
  assumes "hyg k" "stableBut {} k" "fmlookup (ents k) D = Some DirN \<or> D = []"
  shows "stableDir k D"
proof -
  have dirs: "fmlookup (ents k) q = Some DirN" if "prefix q D" "q \<noteq> []" for q
  proof -
    obtain r where "D = q @ r" using \<open>prefix q D\<close> prefixE by blast
    then show ?thesis using assms(3) \<open>q \<noteq> []\<close>
    proof (induction r arbitrary: D rule: rev_induct)
      case (snoc x r)
      then show ?case using hyg_parent [OF assms(1), of "q @ r" x] by auto
    qed auto
  qed
  show ?thesis
    unfolding stableDir_def using dirs assms(2) by (auto simp: stableBut_def)
qed

text \<open>Syncing the directory of a file leaves the current entry as the only possibility.\<close>

lemma possAt_flushDir_current:
  assumes "hyg k" "stableBut {} k" "fmlookup (ents k) p = Some (FileN i)" "set (chist k i) = {c}"
  shows "possAt (flushDir (butlast p) k) p {Some c}"
proof -
  have ne: "p \<noteq> []" using assms(1,3) hyg_root by fastforce
  then have "fmlookup (ents k) (butlast p) = Some DirN \<or> butlast p = []"
    using hyg_parent [OF assms(1), of "butlast p" "last p"] assms(3) by auto
  then have "stableDir k (butlast p)" by (rule stableBut_dir [OF assms(1,2)])
  then show ?thesis
    using assms ne by (simp add: possAt_def stableDir_flushDir children_def nodeIn_def)
qed

lemma possAt_flushDir_absent:
  assumes "p \<noteq> []" "fmlookup (ents k) p = None"
  shows "possAt (flushDir (butlast p) k) p {None}"
  using assms by (simp add: possAt_def children_def nodeIn_def)


subsection \<open>Changes of one directory\<close>

lemma changeEnts_simps [simp]:
  "ents (changeEnts Ds m k) = m" "content (changeEnts Ds m k) = content k"
  "chist (changeEnts Ds m k) = chist k" "nextIno (changeEnts Ds m k) = nextIno k"
  by (simp_all add: changeEnts_def)

lemma dhist_changeEnts:
  "dhist (changeEnts Ds m k) D = (if D \<in> set Ds then dhist k D @ [children m D] else dhist k D)"
  by (simp add: changeEnts_def)

lemma nodeIn_changeEnts [simp]: "nodeIn (changeEnts Ds m k) S x = nodeIn k S x"
  by (simp add: nodeIn_def split: option.split node.split)

lemma inVer_changeEnts:
  "inVer (changeEnts Ds m k) D v c n \<longleftrightarrow>
     inVer k D v c n \<or> D \<in> set Ds \<and> v = children m D \<and> fmlookup m (D @ [c]) = Some n"
  by (auto simp: inVer_def dhist_changeEnts children_def)

text \<open>A change of entries of \<open>D\<close> that keeps its subdirectories.\<close>

definition dirChange :: "disk \<Rightarrow> path \<Rightarrow> (path, node) fmap \<Rightarrow> bool" where
  "dirChange k D m \<longleftrightarrow> fmlookup m [] = None \<and>
     (\<forall>E c. E \<noteq> D \<longrightarrow> fmlookup m (E @ [c]) = fmlookup (ents k) (E @ [c])) \<and>
     (\<forall>c. fmlookup (ents k) (D @ [c]) = Some DirN \<longrightarrow> fmlookup m (D @ [c]) = Some DirN)"

lemma dirChange_dir:
  "dirChange k D m \<Longrightarrow> fmlookup (ents k) (E @ [c]) = Some DirN \<Longrightarrow> fmlookup m (E @ [c]) = Some DirN"
  by (cases "E = D") (auto simp: dirChange_def)

lemma children_other: "dirChange k D m \<Longrightarrow> E \<noteq> D \<Longrightarrow> children m E = children (ents k) E"
  by (auto simp: dirChange_def children_def)

lemma hygCur_change:
  assumes "hyg k" "dirChange k D m"
  shows "hygCur (changeEnts [D] m k)"
  using assms children_other [OF assms(2)]
  by (auto simp: hygCur_def dhist_changeEnts hyg_children hyg_content)

lemma hygTree_change:
  assumes "hyg k" "dirChange k D m" "D = [] \<or> fmlookup (ents k) D = Some DirN"
  shows "hygTree (changeEnts [D] m k)"
proof -
  have "fmlookup m E = Some DirN" if "fmlookup m (E @ [c]) \<noteq> None" "E \<noteq> []" for E c
  proof -
    have "fmlookup (ents k) E = Some DirN"
      using that assms(2,3) hyg_parent [OF assms(1), of E c]
      by (cases "E = D") (auto simp: dirChange_def)
    then show ?thesis
      using dirChange_dir [OF assms(2), of "butlast E" "last E"] \<open>E \<noteq> []\<close> by simp
  qed
  then show ?thesis using assms(2) by (auto simp: hygTree_def dirChange_def)
qed

lemma stableDir_change:
  assumes "hyg k" "dirChange k D m" "stableDir k E"
  shows "stableDir (changeEnts [D] m k) E"
  unfolding stableDir_def
proof (intro allI impI ballI)
  fix q c v assume q: "prefix (q @ [c]) E" and v: "v \<in> set (dhist (changeEnts [D] m k) q)"
  have all: "u c = Some DirN" if "u \<in> set (dhist k q)" for u
    using assms(3) q that by (simp add: stableDir_def)
  then have "fmlookup (ents k) (q @ [c]) = Some DirN"
    using hyg_children [OF assms(1), of q] by (fastforce simp: children_def)
  then have "children m q c = Some DirN"
    using dirChange_dir [OF assms(2)] by (simp add: children_def)
  with v all show "v c = Some DirN" by (auto simp: dhist_changeEnts split: if_splits)
qed

lemma stableBut_change:
  assumes "hyg k" "dirChange k D m" "stableBut P k"
    "\<And>c. fmlookup m (D @ [c]) = Some DirN \<Longrightarrow> D \<notin> P \<Longrightarrow> fmlookup (ents k) (D @ [c]) = Some DirN"
  shows "stableBut P (changeEnts [D] m k)"
  unfolding stableBut_def
proof (intro allI impI ballI)
  fix q c v assume q: "fmlookup (ents (changeEnts [D] m k)) (q @ [c]) = Some DirN" "q \<notin> P"
    and v: "v \<in> set (dhist (changeEnts [D] m k) q)"
  have "fmlookup (ents k) (q @ [c]) = Some DirN"
    using q assms(2,4) by (cases "q = D") (auto simp: dirChange_def)
  with assms(3) q v show "v c = Some DirN"
    by (auto simp: stableBut_def dhist_changeEnts children_def split: if_splits)
qed

lemma possAt_change:
  assumes "hyg k" "dirChange k D m" "possAt k p S" "S \<subseteq> T"
    "butlast p = D \<Longrightarrow> fmlookup m p \<noteq> fmlookup (ents k) p \<Longrightarrow> nodeIn k T (fmlookup m p)"
  shows "possAt (changeEnts [D] m k) p T"
proof -
  have ne: "p \<noteq> []" and cur: "nodeIn k S (fmlookup (ents k) p)"
    using assms(3) hyg_children [OF assms(1), of "butlast p"]
    by (fastforce simp: possAt_def children_def)+
  have "nodeIn k T (children m D (last p))" if "butlast p = D"
    using that assms(5) cur nodeIn_mono [OF _ assms(4)] ne
    by (cases "fmlookup m p = fmlookup (ents k) p") (auto simp: children_def)
  then show ?thesis
    using possAt_mono [OF assms(3,4)] stableDir_change [OF assms(1,2)] ne
    by (auto simp: possAt_def dhist_changeEnts)
qed


lemma changeEnts_twice [simp]: "changeEnts [D, D] m k = changeEnts [D] m k"
  by (simp add: changeEnts_def)


text \<open>
  Files in the new version were in the directory before or are not known at all, no two names share
  a file, and a file that had a lasting name in an older version keeps that name.
\<close>

lemma hygVer_change:
  assumes "hyg k" "dirChange k D m"
    and src: "\<And>c i. fmlookup m (D @ [c]) = Some (FileN i) \<Longrightarrow>
      (\<exists>e. fmlookup (ents k) (D @ [e]) = Some (FileN i)) \<or>
      i < nextIno k \<and> (\<forall>E u e. \<not> inVer k E u e (FileN i))"
    and inj: "\<And>c e i. fmlookup m (D @ [c]) = Some (FileN i) \<Longrightarrow> fmlookup m (D @ [e]) = Some (FileN i) \<Longrightarrow> c = e"
    and keep: "\<And>v c e i. inVer k D v c (FileN i) \<Longrightarrow> \<not> isTmp c \<Longrightarrow> fmlookup m (D @ [e]) = Some (FileN i) \<Longrightarrow> e = c"
  shows "hygVer (changeEnts [D] m k)"
proof (rule hygVerI)
  have new: "E = D" if "fmlookup m (D @ [c]) = Some (FileN i)" "inVer k E u e (FileN i)" for c i E u e
    using src [OF that(1)] hyg_dir [OF assms(1)] inVer_current [OF assms(1)] that(2) by blast
  fix E v c i assume v: "inVer (changeEnts [D] m k) E v c (FileN i)"
  then have v': "inVer k E v c (FileN i) \<or> E = D \<and> fmlookup m (D @ [c]) = Some (FileN i)"
    by (auto simp: inVer_changeEnts)
  show "i < nextIno (changeEnts [D] m k)"
    using v' src hyg_bound [OF assms(1)] inVer_current [OF assms(1)] by (metis changeEnts_simps(4))
  show "E = F" if "inVer (changeEnts [D] m k) F u e (FileN i)" for F u e
    using that v' new hyg_dir [OF assms(1)] unfolding inVer_changeEnts
    by (metis empty_set list.simps(15) singletonD)
  show "c = e" if u: "inVer (changeEnts [D] m k) E v e (FileN i)" for e
  proof (cases "E = D \<and> v = children m D")
    case True
    then show ?thesis using u v inj by (auto simp: inVer_def children_def)
  next
    case False
    then show ?thesis using u v hyg_name [OF assms(1)] by (auto simp: inVer_changeEnts)
  qed
  show "q = E @ [c]" if c: "\<not> isTmp c" and q: "fmlookup (ents (changeEnts [D] m k)) q = Some (FileN i)" for q
  proof -
    have "q \<noteq> []" using q assms(2) by (auto simp: dirChange_def)
    then obtain F e where q': "q = F @ [e]" by (metis append_butlast_last_id)
    show ?thesis
    proof (cases "F = D")
      case True
      then have m: "fmlookup m (D @ [e]) = Some (FileN i)" using q q' by simp
      from v' show ?thesis
      proof
        assume old: "inVer k E v c (FileN i)"
        then show ?thesis using new [OF m old] keep [OF _ c m] True q' by auto
      qed (use inj m True q' in auto)
    next
      case False
      then have f: "fmlookup (ents k) q = Some (FileN i)"
        using q q' assms(2) by (auto simp: dirChange_def)
      from v' show ?thesis
      proof
        assume "E = D \<and> fmlookup m (D @ [c]) = Some (FileN i)"
        then show ?thesis using new inVer_current [OF assms(1)] f q' False by blast
      qed (use hyg_owned [OF assms(1) _ c f] in blast)
    qed
  qed
qed

lemma hyg_change:
  assumes "hyg k" "dirChange k D m" "D = [] \<or> fmlookup (ents k) D = Some DirN"
    "hygVer (changeEnts [D] m k)"
  shows "hyg (changeEnts [D] m k)"
  using assms hygCur_change hygTree_change by (simp add: hyg_def)

subsection \<open>A new file\<close>

definition freshIno :: "disk \<Rightarrow> disk" where
  "freshIno k = k\<lparr>content := (content k)(nextIno k := []), chist := (chist k)(nextIno k := [[]]),
     nextIno := Suc (nextIno k)\<rparr>"

lemma freshIno_simps [simp]:
  "ents (freshIno k) = ents k" "dhist (freshIno k) = dhist k" "nextIno (freshIno k) = Suc (nextIno k)"
  "content (freshIno k) = (content k)(nextIno k := [])"
  "chist (freshIno k) = (chist k)(nextIno k := [[]])"
  "inVer (freshIno k) = inVer k" "stableDir (freshIno k) = stableDir k"
  "stableBut P (freshIno k) = stableBut P k"
  by (auto simp: freshIno_def inVer_def stableDir_def stableBut_def fun_eq_iff)

lemma newFile_eq:
  "p \<noteq> [] \<Longrightarrow> newFile p k =
     (nextIno k, changeEnts [butlast p] (fmupd p (FileN (nextIno k)) (ents k)) (freshIno k))"
  by (simp add: newFile_def setEntry_def Let_def freshIno_def)

lemma hyg_freshIno:
  assumes "hyg k"
  shows "hyg (freshIno k)"
proof -
  have "hygVer (freshIno k)"
    using hygVerI [of "freshIno k"] hyg_bound [OF assms] hyg_dir [OF assms] hyg_name [OF assms]
      hyg_owned [OF assms] by (simp add: less_SucI)
  then show ?thesis using assms by (auto simp: hyg_def hygCur_def hygTree_def)
qed

lemma possAt_freshIno:
  assumes "hyg k" "possAt k p S"
  shows "possAt (freshIno k) p S"
proof -
  have "nodeIn (freshIno k) S (v (last p))" if v: "v \<in> set (dhist k (butlast p))" for v
  proof -
    have "nodeIn k S (v (last p))" using v assms(2) by (simp add: possAt_def)
    moreover have "v (last p) \<noteq> Some (FileN (nextIno k))"
      using hyg_bound [OF assms(1), of "butlast p" v "last p"] v by (auto simp: inVer_def)
    ultimately show ?thesis
      by (auto simp: nodeIn_def split: option.splits node.splits)
  qed
  then show ?thesis using assms(2) by (simp add: possAt_def)
qed

text \<open>The directory a new entry goes to.\<close>

definition inDir :: "disk \<Rightarrow> path \<Rightarrow> bool" where
  "inDir k p \<longleftrightarrow> p \<noteq> [] \<and> (butlast p = [] \<or> fmlookup (ents k) (butlast p) = Some DirN)"

lemma dirChange_upd:
  assumes "hyg k" "inDir k p" "fmlookup (ents k) p \<noteq> Some DirN \<or> n = DirN"
  shows "dirChange k (butlast p) (fmupd p n (ents k))"
  using assms hyg_root [OF assms(1)] by (auto simp: dirChange_def inDir_def)

lemma hyg_newFile:
  assumes "hyg k" "inDir k p" "fmlookup (ents k) p = None"
  shows "hyg (snd (newFile p k))"
proof -
  let ?k = "freshIno k" and ?m = "fmupd p (FileN (nextIno k)) (ents k)"
  have ne: "p \<noteq> []" and d: "butlast p = [] \<or> fmlookup (ents ?k) (butlast p) = Some DirN"
    using assms(2) by (simp_all add: inDir_def)
  have h: "hyg ?k" using hyg_freshIno [OF assms(1)] .
  have ch: "dirChange ?k (butlast p) ?m"
    using dirChange_upd [of ?k p] h assms(2,3) by (simp add: inDir_def)
  have old: "\<not> inVer k D v c (FileN (nextIno k))" for D v c using hyg_bound [OF assms(1)] by blast
  then have ent: "fmlookup (ents k) q \<noteq> Some (FileN (nextIno k))" for q
    using hyg_entry(2) [OF assms(1)] by blast
  have "hygVer (changeEnts [butlast p] ?m ?k)"
  proof (rule hygVer_change [OF h ch])
    fix c e i
    assume c: "fmlookup ?m (butlast p @ [c]) = Some (FileN i)"
    show "(\<exists>e. fmlookup (ents ?k) (butlast p @ [e]) = Some (FileN i)) \<or>
        i < nextIno ?k \<and> (\<forall>E u e. \<not> inVer ?k E u e (FileN i))"
      using c old by (auto split: if_splits)
    show "c = e" if "fmlookup ?m (butlast p @ [e]) = Some (FileN i)"
    proof (cases "butlast p @ [c] = p")
      case True
      then have "i = nextIno k" "butlast p @ [e] = p" using c that ent by (auto split: if_splits)
      with True show ?thesis by (metis last_snoc)
    next
      case False
      then show ?thesis
        using c that ent hyg_inj_ents [OF assms(1), of "butlast p @ [c]" i "butlast p @ [e]"]
        by (auto split: if_splits)
    qed
  next
    fix v c e i
    assume "inVer ?k (butlast p) v c (FileN i)" "\<not> isTmp c" "fmlookup ?m (butlast p @ [e]) = Some (FileN i)"
    then show "e = c"
      using old hyg_owned [OF assms(1), of "butlast p" v c i "butlast p @ [e]"] by (auto split: if_splits)
  qed
  then show ?thesis using hyg_change [OF h ch d] by (simp add: newFile_eq [OF ne])
qed

lemma ents_newFile: "p \<noteq> [] \<Longrightarrow> ents (snd (newFile p k)) = fmupd p (FileN (nextIno k)) (ents k)"
  by (simp add: newFile_eq)

lemma possAt_newFile_other:
  assumes "hyg k" "inDir k p" "fmlookup (ents k) p = None" "possAt k q S" "q \<noteq> p"
  shows "possAt (snd (newFile p k)) q S"
proof -
  have "dirChange (freshIno k) (butlast p) (fmupd p (FileN (nextIno k)) (ents k))"
    using dirChange_upd [of "freshIno k" p] hyg_freshIno [OF assms(1)] assms(2,3) by (simp add: inDir_def)
  then show ?thesis
    using possAt_change [OF hyg_freshIno [OF assms(1)] _ possAt_freshIno [OF assms(1,4)], of "butlast p"
        "fmupd p (FileN (nextIno k)) (ents k)" S] assms(2,5)
    by (simp add: newFile_eq inDir_def)
qed

lemma stableBut_newFile:
  assumes "hyg k" "inDir k p" "fmlookup (ents k) p = None" "stableBut P k"
  shows "stableBut P (snd (newFile p k))"
proof -
  have "dirChange (freshIno k) (butlast p) (fmupd p (FileN (nextIno k)) (ents k))"
    using dirChange_upd [of "freshIno k" p] hyg_freshIno [OF assms(1)] assms(2,3) by (simp add: inDir_def)
  then have "stableBut P (changeEnts [butlast p] (fmupd p (FileN (nextIno k)) (ents k)) (freshIno k))"
    by (rule stableBut_change [OF hyg_freshIno [OF assms(1)]]) (use assms(4) in \<open>auto split: if_splits\<close>)
  then show ?thesis using assms(2) by (simp add: newFile_eq inDir_def)
qed

subsection \<open>Renaming a temporary file\<close>

definition renamed :: "path \<Rightarrow> path \<Rightarrow> disk \<Rightarrow> disk" where
  "renamed a b k = (case fmlookup (ents k) a of None \<Rightarrow> k
     | Some n \<Rightarrow> changeEnts [butlast a, butlast b] (fmdrop a (fmupd b n (ents k))) k)"

text \<open>\<open>a\<close> and \<open>b\<close> are a temporary and a lasting name in the same directory.\<close>

definition renameOK :: "disk \<Rightarrow> path \<Rightarrow> path \<Rightarrow> ino \<Rightarrow> bool" where
  "renameOK k a b i \<longleftrightarrow> inDir k b \<and> butlast a = butlast b \<and> a \<noteq> [] \<and> isTmp (last a) \<and> \<not> isTmp (last b) \<and>
     fmlookup (ents k) a = Some (FileN i) \<and> fmlookup (ents k) b \<noteq> Some DirN"

lemma renameOK_ne: "renameOK k a b i \<Longrightarrow> a \<noteq> b"
  by (auto simp: renameOK_def)

lemma renamed_eq:
  "renameOK k a b i \<Longrightarrow> renamed a b k = changeEnts [butlast b] (fmdrop a (fmupd b (FileN i) (ents k))) k"
  by (auto simp: renameOK_def renamed_def)

lemma dirChange_rename:
  assumes "hyg k" "renameOK k a b i"
  shows "dirChange k (butlast b) (fmdrop a (fmupd b (FileN i) (ents k)))"
  using assms hyg_root [OF assms(1)] by (auto simp: dirChange_def renameOK_def inDir_def)

lemma hyg_renamed:
  assumes "hyg k" "renameOK k a b i"
  shows "hyg (renamed a b k)"
proof -
  let ?m = "fmdrop a (fmupd b (FileN i) (ents k))" and ?D = "butlast b"
  note ch = dirChange_rename [OF assms]
  have r: "butlast a = ?D" "a \<noteq> []" "b \<noteq> []" and ab: "isTmp (last a)" "fmlookup (ents k) a = Some (FileN i)"
    using assms(2) by (simp_all add: renameOK_def inDir_def)
  have a: "?D @ [c] = a \<longleftrightarrow> c = last a" and b: "?D @ [c] = b \<longleftrightarrow> c = last b" for c
    using r by (metis append_butlast_last_id last_snoc)+
  have "a \<noteq> b" by (rule renameOK_ne [OF assms(2)])
  have m: "fmlookup ?m (?D @ [c]) = Some (FileN j) \<longleftrightarrow> c = last b \<and> j = i \<or>
      c \<noteq> last a \<and> c \<noteq> last b \<and> fmlookup (ents k) (?D @ [c]) = Some (FileN j)" for c j
    using \<open>a \<noteq> b\<close> a [of c] b [of c] by (auto simp: eq_commute [of b])
  have a': "fmlookup (ents k) (?D @ [last a]) = Some (FileN i)" using ab(2) a by metis
  have "hygVer (changeEnts [?D] ?m k)"
  proof (rule hygVer_change [OF assms(1) ch])
    fix c e j
    assume c: "fmlookup ?m (?D @ [c]) = Some (FileN j)"
    show "(\<exists>e. fmlookup (ents k) (?D @ [e]) = Some (FileN j)) \<or>
        j < nextIno k \<and> (\<forall>E u e. \<not> inVer k E u e (FileN j))"
      using c a' unfolding m by blast
    show "c = e" if "fmlookup ?m (?D @ [e]) = Some (FileN j)"
      using c that a' hyg_inj_ents [OF assms(1), of "?D @ [c]" j "?D @ [e]"]
        hyg_inj_ents [OF assms(1) a', of "?D @ [c]"] hyg_inj_ents [OF assms(1) a', of "?D @ [e]"]
      unfolding m by auto
  next
    fix v c e j
    assume v: "inVer k ?D v c (FileN j)" "\<not> isTmp c" "fmlookup ?m (?D @ [e]) = Some (FileN j)"
    show "e = c"
      using v hyg_owned [OF assms(1) v(1,2), of "?D @ [e]"] hyg_owned [OF assms(1) v(1,2), of "?D @ [last a]"]
        ab(1) a' unfolding m by auto
  qed
  then show ?thesis
    using hyg_change [OF assms(1) ch] assms(2) by (simp add: renamed_eq [OF assms(2)] renameOK_def inDir_def)
qed

lemma possAt_renamed_other:
  assumes "hyg k" "renameOK k a b i" "possAt k p S" "p \<noteq> a" "p \<noteq> b"
  shows "possAt (renamed a b k) p S"
  using possAt_change [OF assms(1) dirChange_rename [OF assms(1,2)] assms(3), of S] assms(4,5)
  by (simp add: renamed_eq [OF assms(2)])

lemma possAt_renamed:
  assumes "hyg k" "renameOK k a b i" "possAt k b S" "Some ` set (chist k i) \<subseteq> T" "S \<subseteq> T"
  shows "possAt (renamed a b k) b T"
  using possAt_change [OF assms(1) dirChange_rename [OF assms(1,2)] assms(3,5)] assms(4)
    renameOK_ne [OF assms(2)]
  by (simp add: renamed_eq [OF assms(2)] nodeIn_def)

lemma stableBut_renamed:
  assumes "hyg k" "renameOK k a b i" "stableBut P k"
  shows "stableBut P (renamed a b k)"
proof -
  have "stableBut P (changeEnts [butlast b] (fmdrop a (fmupd b (FileN i) (ents k))) k)"
    by (rule stableBut_change [OF assms(1) dirChange_rename [OF assms(1,2)] assms(3)])
       (auto split: if_splits)
  then show ?thesis by (simp add: renamed_eq [OF assms(2)])
qed

subsection \<open>Removing a file\<close>

lemma setEntry_None: "setEntry p None k = changeEnts [butlast p] (fmdrop p (ents k)) k"
  by (simp add: setEntry_def)

lemma dirChange_drop:
  "hyg k \<Longrightarrow> fmlookup (ents k) p = Some (FileN i) \<Longrightarrow> dirChange k (butlast p) (fmdrop p (ents k))"
  using hyg_entry(1) [of k p] by (auto simp: dirChange_def hyg_root)

lemma hyg_remove:
  assumes "hyg k" "fmlookup (ents k) p = Some (FileN i)"
  shows "hyg (setEntry p None k)"
proof -
  let ?m = "fmdrop p (ents k)"
  note ch = dirChange_drop [OF assms]
  have m: "fmlookup ?m q = Some n \<Longrightarrow> fmlookup (ents k) q = Some n" for q n by (auto split: if_splits)
  have "hygVer (changeEnts [butlast p] ?m k)"
    using hyg_inj_ents [OF assms(1)] hyg_owned [OF assms(1)] m
    by (intro hygVer_change [OF assms(1) ch]) blast+
  then show ?thesis
    using hyg_change [OF assms(1) ch] hyg_parent [OF assms(1), of "butlast p" "last p"]
      hyg_entry(1) [OF assms] assms(2)
    by (auto simp: setEntry_None)
qed

lemma possAt_remove:
  assumes "hyg k" "fmlookup (ents k) p = Some (FileN i)" "possAt k q S" "q = p \<Longrightarrow> None \<in> T" "S \<subseteq> T"
  shows "possAt (setEntry p None k) q T"
  unfolding setEntry_None
  by (rule possAt_change [OF assms(1) dirChange_drop [OF assms(1,2)] assms(3,5)])
     (use assms(4) in \<open>auto simp: nodeIn_def split: if_splits\<close>)

lemma stableBut_remove:
  assumes "hyg k" "fmlookup (ents k) p = Some (FileN i)" "stableBut P k"
  shows "stableBut P (setEntry p None k)"
proof -
  have "stableBut P (changeEnts [butlast p] (fmdrop p (ents k)) k)"
    by (rule stableBut_change [OF assms(1) dirChange_drop [OF assms(1,2)] assms(3)])
       (auto split: if_splits)
  then show ?thesis by (simp add: setEntry_None)
qed

subsection \<open>A new directory\<close>

lemma newDir_simps:
  "p \<noteq> [] \<Longrightarrow> newDir p k = (changeEnts [butlast p] (fmupd p DirN (ents k)) k)
     \<lparr>dhist := (dhist (changeEnts [butlast p] (fmupd p DirN (ents k)) k))(p := [\<lambda>_. None])\<rparr>"
  by (simp add: newDir_def setEntry_def Let_def)

lemma dhist_newDir:
  "p \<noteq> [] \<Longrightarrow> dhist (newDir p k) D = (if D = p then [\<lambda>_. None]
     else dhist (changeEnts [butlast p] (fmupd p DirN (ents k)) k) D)"
  by (simp add: newDir_simps)

lemma newDir_other [simp]:
  "p \<noteq> [] \<Longrightarrow> ents (newDir p k) = fmupd p DirN (ents k)"
  "p \<noteq> [] \<Longrightarrow> content (newDir p k) = content k"
  "p \<noteq> [] \<Longrightarrow> chist (newDir p k) = chist k"
  "p \<noteq> [] \<Longrightarrow> nextIno (newDir p k) = nextIno k"
  by (simp_all add: newDir_simps)

lemma no_children:
  "hyg k \<Longrightarrow> p \<noteq> [] \<Longrightarrow> fmlookup (ents k) p \<noteq> Some DirN \<Longrightarrow> fmlookup (ents k) (p @ [c]) = None"
  using hyg_parent by blast

lemma hyg_newDir:
  assumes "hyg k" "inDir k p" "fmlookup (ents k) p = None"
  shows "hyg (newDir p k)"
proof -
  let ?k = "changeEnts [butlast p] (fmupd p DirN (ents k)) k"
  have ne: "p \<noteq> []" using assms(2) by (simp add: inDir_def)
  have ch: "dirChange k (butlast p) (fmupd p DirN (ents k))"
    using dirChange_upd [OF assms(1,2)] by simp
  have "hygVer ?k"
  proof (rule hygVer_change [OF assms(1) ch])
    fix c e i
    assume c: "fmlookup (fmupd p DirN (ents k)) (butlast p @ [c]) = Some (FileN i)"
    then have c': "fmlookup (ents k) (butlast p @ [c]) = Some (FileN i)" by (auto split: if_splits)
    then show "(\<exists>e. fmlookup (ents k) (butlast p @ [e]) = Some (FileN i)) \<or>
        i < nextIno k \<and> (\<forall>E u e. \<not> inVer k E u e (FileN i))" by blast
    show "c = e" if "fmlookup (fmupd p DirN (ents k)) (butlast p @ [e]) = Some (FileN i)"
      using that hyg_inj_ents [OF assms(1) c', of "butlast p @ [e]"] by (auto split: if_splits)
  next
    fix v c e i
    assume "inVer k (butlast p) v c (FileN i)" "\<not> isTmp c"
      "fmlookup (fmupd p DirN (ents k)) (butlast p @ [e]) = Some (FileN i)"
    then show "e = c"
      using hyg_owned [OF assms(1), of "butlast p" v c i "butlast p @ [e]"] by (auto split: if_splits)
  qed
  then have h: "hyg ?k" using hyg_change [OF assms(1) ch] assms(2) by (simp add: inDir_def)
  have "hygVer (newDir p k)"
    by (rule hygVer_sub [OF h]) (use ne in \<open>auto simp: inVer_def dhist_newDir split: if_splits\<close>)
  moreover have "children (fmupd p DirN (ents k)) p = (\<lambda>_. None)"
    using no_children [OF assms(1) ne] assms(3) by (auto simp: children_def)
  ultimately show ?thesis
    using h ne by (auto simp: hyg_def hygCur_def hygTree_def dhist_newDir)
qed

lemma stableDir_newDir:
  assumes "hyg k" "inDir k p" "fmlookup (ents k) p = None" "stableDir k E"
  shows "stableDir (newDir p k) E"
  unfolding stableDir_def
proof (intro allI impI ballI)
  have ne: "p \<noteq> []" using assms(2) by (simp add: inDir_def)
  have ch: "dirChange k (butlast p) (fmupd p DirN (ents k))"
    using dirChange_upd [OF assms(1,2)] by simp
  fix q c v assume q: "prefix (q @ [c]) E" and v: "v \<in> set (dhist (newDir p k) q)"
  have "children (ents k) q c = Some DirN"
    using assms(4) q hyg_children [OF assms(1)] by (simp add: stableDir_def)
  then have "q \<noteq> p" using no_children [OF assms(1) ne, of c] assms(3) by (auto simp: children_def)
  then show "v c = Some DirN"
    using v q stableDir_change [OF assms(1) ch assms(4)] by (simp add: stableDir_def dhist_newDir [OF ne])
qed

lemma possAt_newDir:
  assumes "hyg k" "inDir k p" "fmlookup (ents k) p = None" "possAt k q S" "q \<noteq> p"
  shows "possAt (newDir p k) q S"
proof -
  have ne: "p \<noteq> []" using assms(2) by (simp add: inDir_def)
  have qne: "q \<noteq> []" using assms(4) by (simp add: possAt_def)
  have nd: "nodeIn (newDir p k) S x = nodeIn k S x" for x
    using ne by (simp add: nodeIn_def split: option.split node.split)
  have ch: "dirChange k (butlast p) (fmupd p DirN (ents k))"
    using dirChange_upd [OF assms(1,2)] by simp
  have P: "possAt (changeEnts [butlast p] (fmupd p DirN (ents k)) k) q S"
    using possAt_change [OF assms(1) ch assms(4), of S] assms(5) by simp
  have "nodeIn k S (fmlookup (ents k) q)"
    using assms(4) hyg_children [OF assms(1), of "butlast q"] qne by (fastforce simp: possAt_def children_def)
  moreover have "fmlookup (ents k) q = None" if "butlast q = p"
    using no_children [OF assms(1) ne, of "last q"] assms(3) that qne by auto
  ultimately have "nodeIn k S None" if "butlast q = p" using that by simp
  with P qne show ?thesis
    using assms(4) stableDir_newDir [OF assms(1-3)] by (auto simp: possAt_def dhist_newDir [OF ne] nd)
qed

lemma stableBut_newDir:
  assumes "hyg k" "inDir k p" "fmlookup (ents k) p = None" "stableBut P k" "butlast p \<in> P"
  shows "stableBut P (newDir p k)"
proof -
  have ne: "p \<noteq> []" using assms(2) by (simp add: inDir_def)
  have ch: "dirChange k (butlast p) (fmupd p DirN (ents k))"
    using dirChange_upd [OF assms(1,2)] by simp
  have "stableBut P (changeEnts [butlast p] (fmupd p DirN (ents k)) k)"
    by (rule stableBut_change [OF assms(1) ch assms(4)]) (use assms(5) in auto)
  then show ?thesis
    using no_children [OF assms(1) ne] assms(3) ne by (auto simp: stableBut_def dhist_newDir split: if_splits)
qed

subsection \<open>After a power loss\<close>

lemma stableBut_settled: "settled k \<Longrightarrow> stableBut P k"
  by (simp add: stableBut_def settled_def children_def)

lemma crash_ver:
  assumes "crashOf k k'"
  obtains ver where "survives k k' ver"
  using assms unfolding crashOf_def by blast

lemma survives_ver: "survives k k' ver \<Longrightarrow> ver D \<in> set (dhist k D)"
  and survives_root: "survives k k' ver \<Longrightarrow> fmlookup (ents k') [] = None"
  and survives_ent: "survives k k' ver \<Longrightarrow>
    fmlookup (ents k') (D @ [c]) = (if live ver (D @ [c]) then ver D c else None)"
  by (simp_all add: survives_def)

lemma inVer_crash:
  assumes "crashOf k k'" "inVer k' D v c n"
  shows "fmlookup (ents k') (D @ [c]) = Some n"
  using assms by (auto simp: crashOf_def settled_def inVer_def children_def)

lemma crash_inVer:
  assumes "crashOf k k'" "inVer k' D v c n"
  shows "\<exists>u. inVer k D u c n"
proof -
  obtain ver where sv: "survives k k' ver" using crash_ver [OF assms(1)] .
  note ver = survives_ver [OF sv] survives_root [OF sv] survives_ent [OF sv]
  show ?thesis using inVer_crash [OF assms] ver by (auto simp: inVer_def split: if_splits)
qed

lemma hyg_crash:
  assumes "hyg k" "crashOf k k'"
  shows "hyg k'"
proof -
  obtain ver where sv: "survives k k' ver" using crash_ver [OF assms(2)] .
  note ver = survives_ver [OF sv] survives_root [OF sv] survives_ent [OF sv]
  have st: "settled k'" "nextIno k' = nextIno k" using assms(2) by (simp_all add: crashOf_def)
  have I: "inVer k D (ver D) c n" if "inVer k' D v c n" for D v c n
    using inVer_crash [OF assms(2) that] ver(1) [of D] ver(3) [of D c]
    by (simp add: inVer_def split: if_splits)
  have same: "p = q" if "fmlookup (ents k') p = Some (FileN i)" "fmlookup (ents k') q = Some (FileN i)" for p q i
  proof -
    have "p \<noteq> []" "q \<noteq> []" using that ver(2) by auto
    then obtain D c E e where pq: "p = D @ [c]" "q = E @ [e]" by (metis append_butlast_last_id)
    have D: "inVer k D (ver D) c (FileN i)" and E: "inVer k E (ver E) e (FileN i)"
      using that ver(1) [of D] ver(1) [of E] ver(3) [of D c] ver(3) [of E e] pq
      by (simp_all add: inVer_def split: if_splits)
    have "D = E" using hyg_dir [OF assms(1) D E] .
    with D E pq show ?thesis using hyg_name [OF assms(1)] by blast
  qed
  have "hygVer k'"
  proof (rule hygVerI)
    fix D v c i assume v: "inVer k' D v c (FileN i)"
    show "i < nextIno k'" using hyg_bound [OF assms(1) I [OF v]] st(2) by simp
    show "D = E" if "inVer k' E u e (FileN i)" for E u e
      using same [OF inVer_crash [OF assms(2) v] inVer_crash [OF assms(2) that]] by simp
    show "c = e" if "inVer k' D v e (FileN i)" for e
      using same [OF inVer_crash [OF assms(2) v] inVer_crash [OF assms(2) that]] by simp
    show "q = D @ [c]" if "fmlookup (ents k') q = Some (FileN i)" for q
      using same [OF that inVer_crash [OF assms(2) v]] .
  qed
  moreover have "fmlookup (ents k') D = Some DirN" if "fmlookup (ents k') (D @ [c]) \<noteq> None" "D \<noteq> []" for D c
  proof -
    have l: "live ver (D @ [c])" using that(1) ver(3) by (auto split: if_splits)
    have D: "butlast D @ [last D] = D" using that(2) by simp
    have up: "strict_prefix q D \<Longrightarrow> strict_prefix q (D @ [c])" for q
      by (meson prefixI prefix_order.less_le_trans)
    have "live ver D" using l up unfolding live_def by blast
    moreover have "strict_prefix (butlast D @ [last D]) (D @ [c])" using D by (simp add: strict_prefix_def)
    then have "ver (butlast D) (last D) = Some DirN" using l unfolding live_def by blast
    ultimately show ?thesis using ver(3) [of "butlast D" "last D"] D by simp
  qed
  ultimately show ?thesis
    using st(1) ver(2) by (auto simp: hyg_def hygCur_def hygTree_def settled_def)
qed

lemma possAt_settled:
  assumes "hyg k" "settled k" "p \<noteq> []" "fmlookup (ents k) p \<noteq> Some DirN"
  shows "possAt k p {fileAt k p}"
proof -
  have "stableDir k (butlast p)" if "fmlookup (ents k) p = Some (FileN i)" for i
    using stableBut_dir [OF assms(1) stableBut_settled [OF assms(2)]]
      hyg_parent [OF assms(1), of "butlast p" "last p"] that assms(3) by auto
  then show ?thesis
    using assms(2-4)
    by (auto simp: possAt_def settled_def children_def nodeIn_def fileAt_def split: option.splits node.splits)
qed

text \<open>The contents a file can have after a power loss.\<close>

lemma possAt_crash:
  assumes "hyg k" "possAt k p S" "crashOf k k'"
  shows "fileAt k' p \<in> S" "possAt k' p {fileAt k' p}"
proof -
  obtain ver where sv: "survives k k' ver" using crash_ver [OF assms(3)] .
  note ver = survives_ver [OF sv] survives_root [OF sv] survives_ent [OF sv]
  have p: "p = butlast p @ [last p]" "p \<noteq> []" using assms(2) by (simp_all add: possAt_def)
  have e: "fmlookup (ents k') p = (if live ver p then ver (butlast p) (last p) else None)"
    using ver(3) [of "butlast p" "last p"] p by simp
  have n: "nodeIn k S (ver (butlast p) (last p))" using assms(2) ver(1) by (simp add: possAt_def)
  have c: "content k' i \<in> set (chist k i)" for i using assms(3) by (simp add: crashOf_def)
  have l: "live ver p" if "None \<notin> S"
    unfolding live_def
  proof (intro allI impI)
    fix q c assume "strict_prefix (q @ [c]) p"
    then have "prefix (q @ [c]) (butlast p)" using p(1) by (metis prefix_snoc strict_prefix_def)
    then show "ver q c = Some DirN" using assms(2) that ver(1) by (simp add: possAt_def stableDir_def)
  qed
  show "fileAt k' p \<in> S"
    using n c l unfolding fileAt_def e nodeIn_def
    by (auto split: option.splits node.splits if_splits)
  have "fmlookup (ents k') p \<noteq> Some DirN"
    using n unfolding e nodeIn_def by (auto split: option.splits node.splits if_splits)
  then show "possAt k' p {fileAt k' p}"
    using possAt_settled [OF hyg_crash [OF assms(1,3)]] assms(3) p(2) by (simp add: crashOf_def)
qed

subsection \<open>Which entries are allowed\<close>

text \<open>
  \<open>T p n\<close> says that a node \<open>n\<close> may be found at \<open>p\<close>; \<open>allowed\<close> that this holds
  now and in every state that can survive.
\<close>

definition allowed :: "(path \<Rightarrow> node \<Rightarrow> bool) \<Rightarrow> disk \<Rightarrow> bool" where
  "allowed T k \<longleftrightarrow> (\<forall>D v c n. inVer k D v c n \<longrightarrow> T (D @ [c]) n)"

lemma allowed_ents: "hyg k \<Longrightarrow> allowed T k \<Longrightarrow> fmlookup (ents k) p = Some n \<Longrightarrow> T p n"
  using hyg_entry [of k p n] unfolding allowed_def by (metis append_butlast_last_id)

lemma allowed_crash: "allowed T k \<Longrightarrow> crashOf k k' \<Longrightarrow> allowed T k'"
  unfolding allowed_def using crash_inVer by blast

lemma allowed_content [simp]:
  "allowed T (setContent i c via k) = allowed T k" "allowed T (flushFile i k) = allowed T k"
  "allowed T (freshIno k) = allowed T k"
  by (simp_all add: allowed_def inVer_def)

lemma allowed_sub:
  "allowed T k \<Longrightarrow> (\<And>D v c n. inVer k' D v c n \<Longrightarrow> inVer k D v c n) \<Longrightarrow> allowed T k'"
  unfolding allowed_def by blast

lemma allowed_flushDir: "hyg k \<Longrightarrow> allowed T k \<Longrightarrow> allowed T (flushDir D k)"
  using hyg_children [of k D] by (elim allowed_sub) (auto simp: inVer_def split: if_splits)

lemma allowed_change:
  assumes "hyg k" "allowed T k"
    "\<And>c n. fmlookup m (D @ [c]) = Some n \<Longrightarrow> fmlookup (ents k) (D @ [c]) \<noteq> Some n \<Longrightarrow> T (D @ [c]) n"
  shows "allowed T (changeEnts [D] m k)"
  unfolding allowed_def inVer_changeEnts
proof (intro allI impI, elim disjE conjE)
  fix E v c n
  show "T (E @ [c]) n" if "inVer k E v c n" using assms(2) that by (simp add: allowed_def)
  show "T (E @ [c]) n" if "E \<in> set [D]" "fmlookup m (E @ [c]) = Some n"
    using that assms(3) allowed_ents [OF assms(1,2), of "E @ [c]" n] by auto
qed

lemma allowed_newFile:
  assumes "hyg k" "allowed T k" "inDir k p" "T p (FileN (nextIno k))"
  shows "allowed T (snd (newFile p k))"
proof -
  have "allowed T (changeEnts [butlast p] (fmupd p (FileN (nextIno k)) (ents k)) (freshIno k))"
    by (rule allowed_change) (use assms hyg_freshIno in \<open>auto split: if_splits\<close>)
  then show ?thesis using assms(3) by (simp add: newFile_eq inDir_def)
qed

lemma allowed_renamed:
  assumes "hyg k" "allowed T k" "renameOK k a b i" "T b (FileN i)"
  shows "allowed T (renamed a b k)"
proof -
  have "allowed T (changeEnts [butlast b] (fmdrop a (fmupd b (FileN i) (ents k))) k)"
    by (rule allowed_change [OF assms(1,2)]) (use assms(4) in \<open>auto split: if_splits\<close>)
  then show ?thesis by (simp add: renamed_eq [OF assms(3)])
qed

lemma allowed_remove: "hyg k \<Longrightarrow> allowed T k \<Longrightarrow> allowed T (setEntry p None k)"
  unfolding setEntry_None by (rule allowed_change) (auto split: if_splits)

lemma allowed_newDir:
  assumes "hyg k" "allowed T k" "p \<noteq> []" "T p DirN"
  shows "allowed T (newDir p k)"
proof (rule allowed_sub)
  show "allowed T (changeEnts [butlast p] (fmupd p DirN (ents k)) k)"
    by (rule allowed_change [OF assms(1,2)]) (use assms(4) in \<open>auto split: if_splits\<close>)
qed (use assms(3) in \<open>auto simp: inVer_def dhist_newDir split: if_splits\<close>)

subsection \<open>Entries that are certain\<close>

text \<open>Whatever happens, \<open>p\<close> is an entry for file \<open>i\<close> of its directory.\<close>

definition pinned :: "disk \<Rightarrow> path \<Rightarrow> ino \<Rightarrow> bool" where
  "pinned k p i \<longleftrightarrow> p \<noteq> [] \<and> (\<forall>v \<in> set (dhist k (butlast p)). v (last p) = Some (FileN i))"

lemma pinned_content [simp]:
  "pinned (setContent j c via k) p i = pinned k p i" "pinned (flushFile j k) p i = pinned k p i"
  "pinned (freshIno k) p i = pinned k p i"
  by (simp_all add: pinned_def)

lemma pinned_ents:
  assumes "hyg k" "pinned k p i"
  shows "fmlookup (ents k) p = Some (FileN i)"
proof -
  have "children (ents k) (butlast p) (last p) = Some (FileN i)"
    using assms hyg_children [OF assms(1)] by (simp add: pinned_def)
  then show ?thesis using assms(2) by (simp add: pinned_def children_def)
qed

lemma pinned_flushDir: "hyg k \<Longrightarrow> pinned k p i \<Longrightarrow> pinned (flushDir D k) p i"
  using hyg_children [of k D] by (auto simp: pinned_def)

lemma pinned_flushDir_current:
  "fmlookup (ents k) p = Some (FileN i) \<Longrightarrow> p \<noteq> [] \<Longrightarrow> pinned (flushDir (butlast p) k) p i"
  by (simp add: pinned_def children_def)

lemma pinned_change:
  assumes "hyg k" "pinned k p i" "fmlookup m p = fmlookup (ents k) p"
  shows "pinned (changeEnts [D] m k) p i"
  using assms pinned_ents [OF assms(1,2)] by (auto simp: pinned_def dhist_changeEnts children_def)

lemma pinned_newDir:
  assumes "hyg k" "pinned k q i" "p \<noteq> []" "fmlookup (ents k) p = None"
  shows "pinned (newDir p k) q i"
proof -
  have f: "fmlookup (ents k) q = Some (FileN i)" by (rule pinned_ents [OF assms(1,2)])
  then have "p \<noteq> q" "q \<noteq> []" using assms(2,4) by (auto simp: pinned_def)
  moreover have "butlast q \<noteq> p"
    using no_children [OF assms(1,3), of "last q"] assms(4) f \<open>q \<noteq> []\<close> by auto
  ultimately show ?thesis
    using pinned_change [OF assms(1,2), of "fmupd p DirN (ents k)" "butlast p"]
    by (simp add: pinned_def dhist_newDir [OF assms(3)])
qed

text \<open>Syncing a file with a certain entry makes its content certain.\<close>

lemma possAt_pinned:
  assumes "pinned k p i" "stableDir k (butlast p)"
  shows "possAt (flushFile i k) p {Some (content k i)}"
  unfolding possAt_def
proof (intro conjI ballI impI)
  fix v assume "v \<in> set (dhist (flushFile i k) (butlast p))"
  then have "v (last p) = Some (FileN i)" using assms(1) by (simp add: pinned_def)
  then show "nodeIn (flushFile i k) {Some (content k i)} (v (last p))" by (simp add: nodeIn_def)
qed (use assms in \<open>simp_all add: pinned_def\<close>)

subsection \<open>What an operation leaves alone\<close>

text \<open>
  From \<open>k0\<close> to \<open>k\<close> nothing happened to the lasting files outside \<open>X\<close>: the same entry,
  certain if it was certain, and no new possible content.  Places where a directory may be are not
  files.
\<close>

definition kept :: "path \<Rightarrow> disk \<Rightarrow> disk \<Rightarrow> bool" where
  "kept q k0 k \<longleftrightarrow> fmlookup (ents k) q = fmlookup (ents k0) q \<and>
     (\<forall>i. pinned k0 q i \<longrightarrow> pinned k q i) \<and> (\<forall>S. possAt k0 q S \<longrightarrow> possAt k q S)"

definition keeps :: "(path \<Rightarrow> node \<Rightarrow> bool) \<Rightarrow> path set \<Rightarrow> disk \<Rightarrow> disk \<Rightarrow> bool" where
  "keeps T X k0 k \<longleftrightarrow> (\<forall>q. q \<notin> X \<longrightarrow> \<not> isTmp (last q) \<longrightarrow> \<not> T q DirN \<longrightarrow> kept q k0 k)"

lemma keepsI:
  assumes "\<And>q. q \<notin> X \<Longrightarrow> \<not> isTmp (last q) \<Longrightarrow> \<not> T q DirN \<Longrightarrow> kept q k0 k"
  shows "keeps T X k0 k"
  unfolding keeps_def using assms by blast

lemma keeps_refl [simp]: "keeps T X k k"
  by (simp add: keeps_def kept_def)

lemma keeps_trans: "keeps T X k0 k1 \<Longrightarrow> keeps T X k1 k2 \<Longrightarrow> keeps T X k0 k2"
  by (auto simp: keeps_def kept_def)

lemma keeps_mono: "keeps T X k0 k \<Longrightarrow> X \<subseteq> Y \<Longrightarrow> keeps T Y k0 k"
  by (auto simp: keeps_def)

lemma keeps_poss:
  "keeps T X k0 k \<Longrightarrow> possAt k0 q S \<Longrightarrow> q \<notin> X \<Longrightarrow> \<not> isTmp (last q) \<Longrightarrow> \<not> T q DirN \<Longrightarrow> possAt k q S"
  and keeps_pinned:
  "keeps T X k0 k \<Longrightarrow> pinned k0 q i \<Longrightarrow> q \<notin> X \<Longrightarrow> \<not> isTmp (last q) \<Longrightarrow> \<not> T q DirN \<Longrightarrow> pinned k q i"
  and keeps_ents:
  "keeps T X k0 k \<Longrightarrow> q \<notin> X \<Longrightarrow> \<not> isTmp (last q) \<Longrightarrow> \<not> T q DirN \<Longrightarrow>
     fmlookup (ents k) q = fmlookup (ents k0) q"
  by (simp_all add: keeps_def kept_def)

lemma keeps_flushFile: "hyg k \<Longrightarrow> keeps T X k (flushFile i k)"
  by (rule keepsI) (simp add: kept_def possAt_flushFile)

lemma keeps_flushDir: "hyg k \<Longrightarrow> keeps T X k (flushDir D k)"
  by (rule keepsI) (simp add: kept_def possAt_flushDir pinned_flushDir)

lemma keeps_setContent:
  assumes "hyg k" "fmlookup (ents k) a = Some (FileN i)" "a \<in> X \<or> isTmp (last a)"
  shows "keeps T X k (setContent i c via k)"
proof (rule keepsI)
  fix q assume q: "q \<notin> X" "\<not> isTmp (last q)"
  then have "a \<noteq> q" using assms(3) by auto
  then show "kept q k (setContent i c via k)"
    using possAt_setContent_other [OF assms(1) _ assms(2) _ q(2)] by (simp add: kept_def)
qed

lemma keeps_newFile:
  assumes "hyg k" "inDir k p" "fmlookup (ents k) p = None" "p \<in> X \<or> isTmp (last p)"
  shows "keeps T X k (snd (newFile p k))"
proof (rule keepsI)
  fix q assume q: "q \<notin> X" "\<not> isTmp (last q)"
  then have "q \<noteq> p" using assms(4) by auto
  then show "kept q k (snd (newFile p k))"
    using possAt_newFile_other [OF assms(1-3)] pinned_change [OF hyg_freshIno [OF assms(1)]] assms(2)
    by (simp add: kept_def newFile_eq inDir_def)
qed

lemma keeps_renamed:
  assumes "hyg k" "renameOK k a b i" "b \<in> X"
  shows "keeps T X k (renamed a b k)"
proof (rule keepsI)
  fix q assume q: "q \<notin> X" "\<not> isTmp (last q)"
  then have "q \<noteq> b" "q \<noteq> a" using assms(2,3) by (auto simp: renameOK_def)
  then show "kept q k (renamed a b k)"
    using possAt_renamed_other [OF assms(1,2)] pinned_change [OF assms(1)]
    by (simp add: kept_def renamed_eq [OF assms(2)])
qed

lemma keeps_remove:
  assumes "hyg k" "fmlookup (ents k) p = Some (FileN i)" "p \<in> X"
  shows "keeps T X k (setEntry p None k)"
proof (rule keepsI)
  fix q assume q: "q \<notin> X"
  then have "q \<noteq> p" using assms(3) by auto
  then show "kept q k (setEntry p None k)"
    using possAt_remove [OF assms(1,2), of q] pinned_change [OF assms(1)]
    by (simp add: kept_def setEntry_None)
qed

lemma keeps_newDir:
  assumes "hyg k" "inDir k p" "fmlookup (ents k) p = None" "T p DirN"
  shows "keeps T X k (newDir p k)"
proof (rule keepsI)
  fix q assume q: "\<not> T q DirN"
  then have "q \<noteq> p" using assms(4) by auto
  then show "kept q k (newDir p k)"
    using possAt_newDir [OF assms(1-3)] pinned_newDir [OF assms(1) _ _ assms(3)] assms(2)
    by (simp add: kept_def inDir_def)
qed

end
