(* ===== verification/Hoare_Io.thy ===== *)
theory Hoare_Io
  imports Crash
begin

text \<open>
  Hoare triples for file system programs.  \<open>triple fl P m Q\<close>: run from a disk that satisfies
  \<open>P\<close>, under any admissible fault schedule, \<open>m\<close> ends with a result and a disk related by
  \<open>Q\<close> and leaves the rest of the world alone.  With \<open>fl = False\<close> the schedule holds no
  fault, so a postcondition may say \<open>fl \<or> result is a success\<close>: then the program is shown to
  succeed when no system call fails.

  An admissible fault is any error but \<open>ENOENT\<close> (a file system does not report an existing file
  as missing) and the errors by which it declares that it cannot sync directories.
\<close>

subsection \<open>Environments\<close>

definition okFault :: "errno \<Rightarrow> bool" where
  "okFault e \<longleftrightarrow> e \<noteq> ENOENT \<and> \<not> dirSyncUnsupported e"

definition env :: "bool \<Rightarrow> world \<Rightarrow> bool" where
  "env fl w \<longleftrightarrow> (\<forall>t e n. faults w t = Some (e, n) \<longrightarrow> fl \<and> okFault e) \<and>
     (\<forall>s. set (rangeOrder w s) = fset s \<and> distinct (rangeOrder w s))"

definition frame :: "world \<Rightarrow> world \<Rightarrow> bool" where
  "frame w w' \<longleftrightarrow> faults w' = faults w \<and> rangeOrder w' = rangeOrder w \<and> held w' = held w"

lemma frame_refl [simp]: "frame w w"
  and frame_trans: "frame w w' \<Longrightarrow> frame w' w'' \<Longrightarrow> frame w w''"
  and env_frame: "env fl w \<Longrightarrow> frame w w' \<Longrightarrow> env fl w'"
  by (auto simp: frame_def env_def)

definition triple :: "bool \<Rightarrow> (disk \<Rightarrow> bool) \<Rightarrow> 'a io \<Rightarrow> ('a \<Rightarrow> disk \<Rightarrow> bool) \<Rightarrow> bool" where
  "triple fl P m Q \<longleftrightarrow> (\<forall>w. env fl w \<longrightarrow> P (disk w) \<longrightarrow>
     (case run_state m w of (a, w') \<Rightarrow> frame w w' \<and> Q a (disk w')))"

lemma tripleD:
  assumes "triple fl P m Q" "env fl w" "P (disk w)" "run_state m w = (a, w')"
  shows "frame w w'" "env fl w'" "Q a (disk w')"
  using assms env_frame by (fastforce simp: triple_def)+

lemma triple_ret: "(\<And>k. P k \<Longrightarrow> Q a k) \<Longrightarrow> triple fl P (ret a) Q"
  by (simp add: triple_def)

lemma triple_bind:
  assumes "triple fl P m R" "\<And>a. triple fl (R a) (f a) Q"
  shows "triple fl P (State_Monad.bind m f) Q"
  unfolding triple_def
proof (intro allI impI)
  fix w assume w: "env fl w" "P (disk w)"
  obtain a w1 where m: "run_state m w = (a, w1)" by fastforce
  obtain b w2 where f: "run_state (f a) w1 = (b, w2)" by fastforce
  note 1 = tripleD [OF assms(1) w m]
  note 2 = tripleD [OF assms(2) 1(2,3) f]
  show "case run_state (State_Monad.bind m f) w of (a, w') \<Rightarrow> frame w w' \<and> Q a (disk w')"
    using m f frame_trans [OF 1(1) 2(1)] 2(3) by simp
qed

text \<open>A call followed by a case distinction on its result.\<close>

lemma triple_sum:
  assumes "triple fl P m R" "\<And>e. triple fl (R (Inl e)) (f e) Q" "\<And>x. triple fl (R (Inr x)) (g x) Q"
  shows "triple fl P (State_Monad.bind m (\<lambda>r. case r of Inl e \<Rightarrow> f e | Inr x \<Rightarrow> g x)) Q"
  by (rule triple_bind [OF assms(1)]) (use assms(2,3) in \<open>auto split: sum.split\<close>)

lemma triple_option:
  assumes "triple fl P m R" "triple fl (R None) f Q" "\<And>x. triple fl (R (Some x)) (g x) Q"
  shows "triple fl P (State_Monad.bind m (\<lambda>r. case r of None \<Rightarrow> f | Some x \<Rightarrow> g x)) Q"
  by (rule triple_bind [OF assms(1)]) (use assms(2,3) in \<open>auto split: option.split\<close>)

lemma triple_pre: "triple fl P' m Q \<Longrightarrow> (\<And>k. P k \<Longrightarrow> P' k) \<Longrightarrow> triple fl P m Q"
  by (auto simp: triple_def)

lemma triple_post: "triple fl P m Q' \<Longrightarrow> (\<And>a k. Q' a k \<Longrightarrow> Q a k) \<Longrightarrow> triple fl P m Q"
  unfolding triple_def by fastforce

lemma triple_at: "(\<And>k0. P k0 \<Longrightarrow> triple fl (\<lambda>k. k = k0) m Q) \<Longrightarrow> triple fl P m Q"
  by (simp add: triple_def)

lemma triple_assume: "(\<And>k. P k \<Longrightarrow> A) \<Longrightarrow> (A \<Longrightarrow> triple fl P m Q) \<Longrightarrow> triple fl P m Q"
  by (cases A) (auto simp: triple_def)

lemma run_syscall:
  "run_state (syscall f) w = (case faults w (tick w) of
     Some (e, _) \<Rightarrow> (Inl e, w\<lparr>tick := Suc (tick w)\<rparr>)
   | None \<Rightarrow> (fst (f (disk w)), w\<lparr>disk := snd (f (disk w)), tick := Suc (tick w)\<rparr>))"
  by (cases "f (disk w)"; cases "faults w (tick w)") (auto simp: syscall_def)

lemma env_fault: "env fl w \<Longrightarrow> faults w t = Some (e, n) \<Longrightarrow> fl \<and> okFault e"
  unfolding env_def by blast

lemma triple_syscall:
  assumes "\<And>k. P k \<Longrightarrow> Q (fst (f k)) (snd (f k))"
    and "\<And>k e. P k \<Longrightarrow> fl \<Longrightarrow> okFault e \<Longrightarrow> Q (Inl e) k"
  shows "triple fl P (syscall f) Q"
  unfolding triple_def
proof (intro allI impI)
  fix w assume w: "env fl w" "P (disk w)"
  show "case run_state (syscall f) w of (a, w') \<Rightarrow> frame w w' \<and> Q a (disk w')"
  proof (cases "faults w (tick w)")
    case None
    have "Q (fst (f (disk w))) (snd (f (disk w)))" by (rule assms(1) [OF w(2)])
    with None show ?thesis by (simp add: run_syscall frame_def)
  next
    case (Some en)
    obtain e n where en: "en = (e, n)" by fastforce
    have "Q (Inl e) (disk w)" using assms(2) [OF w(2)] env_fault [OF w(1)] Some en by blast
    with Some en show ?thesis by (simp add: run_syscall frame_def)
  qed
qed

lemma triple_syscall_at:
  assumes "f k0 = (r, k1)"
  shows "triple fl (\<lambda>k. k = k0) (syscall f)
     (\<lambda>r' k. r' = r \<and> k = k1 \<or> (\<exists>e. r' = Inl e \<and> fl \<and> okFault e \<and> k = k0))"
  by (rule triple_syscall) (use assms in auto)

text \<open>Triples over whole worlds, for the calls that take and release locks.\<close>

definition wtriple :: "bool \<Rightarrow> (world \<Rightarrow> bool) \<Rightarrow> 'a io \<Rightarrow> ('a \<Rightarrow> world \<Rightarrow> bool) \<Rightarrow> bool" where
  "wtriple fl P m Q \<longleftrightarrow> (\<forall>w. env fl w \<longrightarrow> P w \<longrightarrow>
     (case run_state m w of (a, w') \<Rightarrow> env fl w' \<and> Q a w'))"

lemma wtripleD:
  assumes "wtriple fl P m Q" "env fl w" "P w" "run_state m w = (a, w')"
  shows "env fl w'" "Q a w'"
  using assms by (fastforce simp: wtriple_def)+

lemma wtriple_lift:
  assumes "triple fl P m Q"
  shows "wtriple fl (\<lambda>w. P (disk w) \<and> held w = hs) m (\<lambda>a w. Q a (disk w) \<and> held w = hs)"
  unfolding wtriple_def
proof (intro allI impI)
  fix w assume w: "env fl w" "P (disk w) \<and> held w = hs"
  obtain a w' where m: "run_state m w = (a, w')" by fastforce
  show "case run_state m w of (a, w') \<Rightarrow> env fl w' \<and> Q a (disk w') \<and> held w' = hs"
    using tripleD [OF assms w(1) _ m] w(2) m by (auto simp: frame_def)
qed

lemma wtriple_ret: "(\<And>w. P w \<Longrightarrow> Q a w) \<Longrightarrow> wtriple fl P (ret a) Q"
  by (simp add: wtriple_def)

lemma wtriple_bind:
  assumes "wtriple fl P m R" "\<And>a. wtriple fl (R a) (f a) Q"
  shows "wtriple fl P (State_Monad.bind m f) Q"
  unfolding wtriple_def
proof (intro allI impI)
  fix w assume w: "env fl w" "P w"
  obtain a w1 where m: "run_state m w = (a, w1)" by fastforce
  obtain b w2 where f: "run_state (f a) w1 = (b, w2)" by fastforce
  note 1 = wtripleD [OF assms(1) w m]
  note 2 = wtripleD [OF assms(2) 1 f]
  show "case run_state (State_Monad.bind m f) w of (a, w') \<Rightarrow> env fl w' \<and> Q a w'"
    using m f 2 by simp
qed

lemma wtriple_sum:
  assumes "wtriple fl P m R" "\<And>e. wtriple fl (R (Inl e)) (f e) Q" "\<And>x. wtriple fl (R (Inr x)) (g x) Q"
  shows "wtriple fl P (State_Monad.bind m (\<lambda>r. case r of Inl e \<Rightarrow> f e | Inr x \<Rightarrow> g x)) Q"
  by (rule wtriple_bind [OF assms(1)]) (use assms(2,3) in \<open>auto split: sum.split\<close>)

lemma wtriple_option:
  assumes "wtriple fl P m R" "wtriple fl (R None) f Q" "\<And>x. wtriple fl (R (Some x)) (g x) Q"
  shows "wtriple fl P (State_Monad.bind m (\<lambda>r. case r of None \<Rightarrow> f | Some x \<Rightarrow> g x)) Q"
  by (rule wtriple_bind [OF assms(1)]) (use assms(2,3) in \<open>auto split: option.split\<close>)

lemma wtriple_pre: "wtriple fl P' m Q \<Longrightarrow> (\<And>w. P w \<Longrightarrow> P' w) \<Longrightarrow> wtriple fl P m Q"
  and wtriple_post: "wtriple fl P m Q' \<Longrightarrow> (\<And>a w. Q' a w \<Longrightarrow> Q a w) \<Longrightarrow> wtriple fl P m Q"
  and wtriple_assume: "(\<And>w. P w \<Longrightarrow> A) \<Longrightarrow> (A \<Longrightarrow> wtriple fl P m Q) \<Longrightarrow> wtriple fl P m Q"
  and wtriple_at: "(\<And>w. P w \<Longrightarrow> wtriple fl (\<lambda>w'. w' = w) m Q) \<Longrightarrow> wtriple fl P m Q"
  by (auto simp: wtriple_def split: prod.splits)

subsection \<open>Looking up paths\<close>

lemma resolve_dirs:
  "(\<And>q. strict_prefix q (acc @ cs) \<Longrightarrow> prefix acc q \<Longrightarrow> q \<noteq> [] \<Longrightarrow> fmlookup m q = Some DirN) \<Longrightarrow>
     resolve m acc cs = (if acc @ cs = [] then Inr DirN else
       case fmlookup m (acc @ cs) of None \<Rightarrow> Inl ENOENT | Some n \<Rightarrow> Inr n)"
proof (induction cs arbitrary: acc)
  case (Cons c cs)
  have "acc = [] \<or> fmlookup m acc = Some DirN" using Cons.prems [of acc] by (auto simp: strict_prefix_def)
  moreover have "resolve m (acc @ [c]) cs =
      (case fmlookup m (acc @ c # cs) of None \<Rightarrow> Inl ENOENT | Some n \<Rightarrow> Inr n)"
    using Cons.IH [of "acc @ [c]"] Cons.prems by (auto dest: append_prefixD)
  ultimately show ?case by auto
qed simp

lemma resolve_missing: "resolve m acc cs = Inr n \<Longrightarrow> acc @ cs \<noteq> [] \<Longrightarrow> fmlookup m (acc @ cs) = Some n"
  by (induction m acc cs rule: resolve.induct) (auto split: option.splits node.splits if_splits)


lemma hyg_above:
  assumes "hyg k" "fmlookup (ents k) p \<noteq> None" "strict_prefix q p" "q \<noteq> []"
  shows "fmlookup (ents k) q = Some DirN"
proof -
  obtain r where "p = q @ r" "r \<noteq> []" using assms(3) by (auto simp: strict_prefix_def prefix_def)
  then show ?thesis using assms(2,4)
  proof (induction r arbitrary: p rule: rev_induct)
    case (snoc x r)
    then show ?case
      using hyg_parent [OF assms(1), of "q @ r" x] by (cases "r = []") auto
  qed simp
qed

text \<open>Looking up an existing entry finds it; looking up a missing one is an error.\<close>

lemma lookupNode_Some:
  assumes "hyg k" "fmlookup (ents k) p = Some n"
  shows "lookupNode k p = Inr n"
proof -
  have "resolve (ents k) [] p = Inr n"
    by (subst resolve_dirs) (use hyg_above [OF assms(1), of p] hyg_entry(1) [OF assms] assms(2) in auto)
  then show ?thesis by (simp add: lookupNode_def)
qed

lemma lookupNode_root [simp]: "lookupNode k [] = Inr DirN"
  by (simp add: lookupNode_def)

lemma lookupNode_InrD: "lookupNode k p = Inr n \<Longrightarrow> p \<noteq> [] \<Longrightarrow> fmlookup (ents k) p = Some n"
  using resolve_missing [of "ents k" "[]" p n] by (simp add: lookupNode_def)

lemma lookupNode_cases:
  assumes "hyg k" "p \<noteq> []"
  obtains n where "lookupNode k p = Inr n" "fmlookup (ents k) p = Some n"
  | e where "lookupNode k p = Inl e" "fmlookup (ents k) p = None"
proof (cases "fmlookup (ents k) p")
  case None
  then show thesis using that(2) lookupNode_InrD [OF _ assms(2)] by (cases "lookupNode k p") auto
next
  case (Some n)
  then show thesis using that(1) lookupNode_Some [OF assms(1)] by blast
qed

text \<open>The error is \<open>ENOENT\<close> unless a file is in the way.\<close>

lemma resolve_ENOTDIR:
  "resolve m acc cs = Inl e \<Longrightarrow> e = ENOENT \<or>
     (\<exists>q i. prefix acc q \<and> strict_prefix q (acc @ cs) \<and> fmlookup m q = Some (FileN i))"
proof (induction m acc cs rule: resolve.induct)
  case (2 m acc c cs)
  show ?case
  proof (cases "if acc = [] then Some DirN else fmlookup m acc")
    case (Some n)
    show ?thesis
    proof (cases n)
      case DirN
      then show ?thesis
        using 2 Some by (auto dest: append_prefixD split: if_splits)
    next
      case (FileN i)
      then show ?thesis
        using 2(2) Some by (auto simp: strict_prefix_def split: if_splits intro!: exI [of _ acc])
    qed
  qed (use 2(2) in auto)
qed (auto split: if_splits option.splits)

lemma lookupNode_ENOENT:
  assumes "lookupNode k p = Inl e" "\<And>q i. strict_prefix q p \<Longrightarrow> fmlookup (ents k) q \<noteq> Some (FileN i)"
  shows "e = ENOENT"
  using resolve_ENOTDIR [of "ents k" "[]" p e] assms by (auto simp: lookupNode_def)

lemma parentDir_iff:
  assumes "hyg k" "p \<noteq> []"
  shows "parentDir k p = Inr () \<longleftrightarrow> inDir k p"
proof (cases "butlast p = []")
  case False
  then show ?thesis
    using lookupNode_cases [OF assms(1) False] assms(2)
    by (cases rule: lookupNode_cases [OF assms(1) False])
       (auto simp: parentDir_def inDir_def split: node.splits)
qed (simp add: parentDir_def inDir_def assms(2))

end
