(* ===== verification/Fsutil_Facts.thy ===== *)
theory Fsutil_Facts
  imports Hoare_Io
begin

text \<open>
  What the helpers of \<open>internal/fsutil\<close> guarantee under faults and power loss:
  \<open>MkdirAll\<close> returns success only with a directory that survives, \<open>WriteFileAtomic\<close>
  leaves at every moment the old or the new content as the only possibilities and returns success
  only when the new content is certain.
\<close>

definition ok :: "(path \<Rightarrow> node \<Rightarrow> bool) \<Rightarrow> disk \<Rightarrow> bool" where
  "ok T k \<longleftrightarrow> hyg k \<and> allowed T k"

definition isDir :: "disk \<Rightarrow> path \<Rightarrow> bool" where
  "isDir k p \<longleftrightarrow> p = [] \<or> fmlookup (ents k) p = Some DirN"

lemma inDir_isDir: "inDir k p \<longleftrightarrow> p \<noteq> [] \<and> isDir k (butlast p)"
  by (auto simp: inDir_def isDir_def)

lemma lookupNode_isDir: "hyg k \<Longrightarrow> isDir k p \<Longrightarrow> lookupNode k p = Inr DirN"
  by (auto simp: isDir_def lookupNode_Some)

lemma isDir_above: "hyg k \<Longrightarrow> isDir k p \<Longrightarrow> prefix q p \<Longrightarrow> isDir k q"
  using hyg_above [of k p q] by (cases "q = p") (auto simp: isDir_def strict_prefix_def)

subsection \<open>System calls\<close>

lemma triple_sysStat:
  "triple fl P (sysStat p)
     (\<lambda>r k. P k \<and> (lookupNode k p = r \<or> (\<exists>e. r = Inl e \<and> fl \<and> okFault e)))"
  unfolding sysStat_def by (rule triple_syscall) auto

lemma triple_sysClose: "triple fl P sysClose (\<lambda>r k. P k \<and> (r = Inr () \<or> (\<exists>e. r = Inl e \<and> fl)))"
  unfolding sysClose_def by (rule triple_syscall) auto

lemma triple_sysFsync:
  "triple fl (\<lambda>k. k = k0) (sysFsync i)
     (\<lambda>r k. r = Inr () \<and> k = flushFile i k0 \<or> (\<exists>e. r = Inl e) \<and> fl \<and> k = k0)"
  unfolding sysFsync_def by (rule triple_syscall) auto

lemma triple_sysTruncate:
  "triple fl (\<lambda>k. k = k0) (sysTruncate i n)
     (\<lambda>r k. r = Inr () \<and> k = setContent i (take n (content k0 i)) [] k0 \<or> (\<exists>e. r = Inl e) \<and> fl \<and> k = k0)"
  unfolding sysTruncate_def by (rule triple_syscall) auto

lemma triple_sysWrite:
  "triple fl (\<lambda>k. k = k0) (sysWrite i buf)
     (\<lambda>r k. r = Inr () \<and> k = appendFile i buf k0 \<or>
        (\<exists>e n. r = Inl e \<and> fl \<and> k = appendFile i (take n buf) k0))"
  unfolding triple_def
proof (intro allI impI)
  fix w assume w: "env fl w" "disk w = k0"
  show "case run_state (sysWrite i buf) w of (r, w') \<Rightarrow> frame w w' \<and>
      (r = Inr () \<and> disk w' = appendFile i buf k0 \<or>
       (\<exists>e n. r = Inl e \<and> fl \<and> disk w' = appendFile i (take n buf) k0))"
  proof (cases "faults w (tick w)")
    case (Some en)
    then have "fl" using env_fault [OF w(1), of _ "fst en" "snd en"] by simp
    with Some w(2) show ?thesis
      by (cases en) (auto simp: sysWrite_def frame_def)
  qed (use w(2) in \<open>simp add: sysWrite_def frame_def\<close>)
qed

text \<open>Syncing an existing directory.\<close>

lemma triple_SyncDir:
  assumes "hyg k0" "isDir k0 D"
  shows "triple fl (\<lambda>k. k = k0) (SyncDir D)
     (\<lambda>r k. r = None \<and> k = flushDir D k0 \<or> r \<noteq> None \<and> fl \<and> (k = k0 \<or> k = flushDir D k0))"
proof -
  have o: "triple fl (\<lambda>k. k = k0) (sysOpenDir D)
      (\<lambda>r k. k = k0 \<and> (r = Inr () \<or> (\<exists>e. r = Inl e \<and> fl)))"
    unfolding sysOpenDir_def
    by (rule triple_syscall) (use lookupNode_isDir [OF assms] in auto)
  have s: "triple fl (\<lambda>k. k = k0) (sysFsyncDir D)
      (\<lambda>r k. r = Inr () \<and> k = flushDir D k0 \<or> (\<exists>e. r = Inl e \<and> fl \<and> okFault e \<and> k = k0))"
    unfolding sysFsyncDir_def by (rule triple_syscall) auto
  have c: "triple fl P (State_Monad.bind sysClose
      (\<lambda>c. case c of Inl e' \<Rightarrow> ret (Some (ErrDirSync e')) | Inr _ \<Rightarrow> ret None))
      (\<lambda>r k. P k \<and> (r = None \<or> r \<noteq> None \<and> fl))" for P
    by (rule triple_bind [OF triple_sysClose]) (auto intro!: triple_ret split: sum.splits)
  have c': "triple fl P (State_Monad.bind sysClose (\<lambda>_. ret (Some x))) (\<lambda>r k. P k \<and> r = Some x)"
    for P and x :: error by (rule triple_bind [OF triple_sysClose]) (auto intro!: triple_ret)
  show ?thesis
    unfolding SyncDir_def syncDir_def
  proof (rule triple_sum [OF o])
    show "triple fl (\<lambda>k. k = k0 \<and> (Inl e = Inr () \<or> (\<exists>e'. Inl e = Inl e' \<and> fl))) (ret (Some (ErrDirSync e)))
        (\<lambda>r k. r = None \<and> k = flushDir D k0 \<or> r \<noteq> None \<and> fl \<and> (k = k0 \<or> k = flushDir D k0))" for e
      by (auto intro: triple_ret)
  qed (rule triple_sum [OF triple_pre [OF s]],
      auto intro!: triple_post [OF c] triple_post [OF c'] triple_assume [where A = "okFault _"]
        simp: okFault_def)
qed


subsection \<open>\<open>MkdirAll\<close>\<close>

text \<open>The places above and at \<open>p\<close> may hold directories and nothing else.\<close>

definition dirsOnly :: "(path \<Rightarrow> node \<Rightarrow> bool) \<Rightarrow> path \<Rightarrow> bool" where
  "dirsOnly T p \<longleftrightarrow> (\<forall>q. prefix q p \<longrightarrow> q \<noteq> [] \<longrightarrow> T q DirN \<and> (\<forall>i. \<not> T q (FileN i)))"

lemma dirsOnly_prefix: "dirsOnly T p \<Longrightarrow> prefix q p \<Longrightarrow> dirsOnly T q"
  unfolding dirsOnly_def using prefix_order.trans by blast

lemma dirsOnly_lookup:
  assumes "ok T k" "dirsOnly T p"
  shows "lookupNode k p = Inr DirN \<and> isDir k p \<or> lookupNode k p = Inl ENOENT \<and> p \<noteq> [] \<and> fmlookup (ents k) p = None"
proof (cases "p = []")
  case False
  have h: "hyg k" using assms(1) by (simp add: ok_def)
  have nf: "fmlookup (ents k) q \<noteq> Some (FileN i)" if "prefix q p" for q i
    using assms that hyg_entry(1) [of k q "FileN i"] allowed_ents [of k T q "FileN i"]
    unfolding ok_def dirsOnly_def by blast
  show ?thesis
  proof (cases rule: lookupNode_cases [OF h False])
    case (1 n)
    then show ?thesis using nf [of p] by (cases n) (auto simp: isDir_def)
  next
    case (2 e)
    then show ?thesis using lookupNode_ENOENT [OF 2(1)] nf False by (auto simp: strict_prefix_def)
  qed
qed (simp add: isDir_def)

text \<open>Every missing directory above \<open>p\<close> has its parent in \<open>ps\<close>.\<close>

definition parentsOf :: "disk \<Rightarrow> path \<Rightarrow> path list \<Rightarrow> bool" where
  "parentsOf k p ps \<longleftrightarrow>
     (\<forall>q. prefix q p \<longrightarrow> q \<noteq> [] \<longrightarrow> fmlookup (ents k) q = None \<longrightarrow> butlast q \<in> set ps)"

lemma parentsOf_isDir: "hyg k \<Longrightarrow> isDir k p \<Longrightarrow> parentsOf k p ps"
  using isDir_above [of k p] by (force simp: parentsOf_def isDir_def)

lemma parentsOf_snoc: "parentsOf k p ps \<Longrightarrow> parentsOf k (p @ [c]) (p # ps)"
  by (auto simp: parentsOf_def)

lemma triple_missingParents:
  assumes "ok T k0" "dirsOnly T (rev cs)"
  shows "triple fl (\<lambda>k. k = k0) (missingParents cs acc)
     (\<lambda>r k. k = k0 \<and> (case r of Inl _ \<Rightarrow> fl
        | Inr ps \<Rightarrow> parentsOf k0 (rev cs) ps \<and> set acc \<subseteq> set ps \<and>
            (\<forall>q \<in> set ps. q \<in> set acc \<or> strict_prefix q (rev cs))))"
  using assms(2)
proof (induction cs arbitrary: acc)
  case Nil
  show ?case
    unfolding missingParents.simps
    by (rule triple_sum [OF triple_sysStat]; rule triple_ret) (auto simp: parentsOf_def)
next
  case (Cons c cs)
  let ?p = "rev (c # cs)"
  have h: "hyg k0" using assms(1) by (simp add: ok_def)
  note L = dirsOnly_lookup [OF assms(1) Cons.prems]
  have d: "dirsOnly T (rev cs)" using Cons.prems by (rule dirsOnly_prefix) simp
  show ?case
    unfolding missingParents.simps
  proof (rule triple_sum [OF triple_sysStat])
    fix e
    show "triple fl (\<lambda>k. k = k0 \<and> (lookupNode k ?p = Inl e \<or> (\<exists>e'. Inl e = Inl e' \<and> fl \<and> okFault e')))
      (if e \<noteq> ENOENT then ret (Inl e) else missingParents cs (acc @ [rev cs]))
      (\<lambda>r k. k = k0 \<and> (case r of Inl _ \<Rightarrow> fl
        | Inr ps \<Rightarrow> parentsOf k0 ?p ps \<and> set acc \<subseteq> set ps \<and> (\<forall>q \<in> set ps. q \<in> set acc \<or> strict_prefix q ?p)))"
    proof (cases "e = ENOENT")
      case True
      have pp: "parentsOf k0 ?p ps" if "parentsOf k0 (rev cs) ps" "rev cs \<in> set ps" for ps
        using that by (auto simp: parentsOf_def)
      have sp: "strict_prefix q ?p" if "q = rev cs \<or> strict_prefix q (rev cs)" for q
        using that by (auto simp: strict_prefix_def)
      show ?thesis
        unfolding True by simp (rule triple_post [OF triple_pre [OF Cons.IH [OF d, of "acc @ [rev cs]"]]],
          use pp sp in \<open>auto split: sum.splits\<close>)
    qed (use L in \<open>auto intro!: triple_ret\<close>)
  next
    fix x
    show "triple fl (\<lambda>k. k = k0 \<and> (lookupNode k ?p = Inr x \<or> (\<exists>e'. Inr x = Inl e' \<and> fl \<and> okFault e')))
      (ret (Inr acc)) (\<lambda>r k. k = k0 \<and> (case r of Inl _ \<Rightarrow> fl
        | Inr ps \<Rightarrow> parentsOf k0 ?p ps \<and> set acc \<subseteq> set ps \<and> (\<forall>q \<in> set ps. q \<in> set acc \<or> strict_prefix q ?p)))"
      by (rule triple_ret) (use L parentsOf_isDir [OF h] in auto)
  qed
qed


text \<open>The state while directories below \<open>p\<close> are being made and not all synced.\<close>

definition making :: "(path \<Rightarrow> node \<Rightarrow> bool) \<Rightarrow> disk \<Rightarrow> path \<Rightarrow> path list \<Rightarrow> disk \<Rightarrow> bool" where
  "making T k0 p ps k \<longleftrightarrow> ok T k \<and> keeps T {} k0 k \<and> stableBut (set ps) k \<and> parentsOf k p ps"

lemma making_newDir:
  assumes "making T k0 p ps k" "dirsOnly T p" "prefix q p" "inDir k q" "fmlookup (ents k) q = None"
  shows "making T k0 p ps (newDir q k)" "isDir (newDir q k) q"
proof -
  have ne: "q \<noteq> []" using assms(4) by (simp add: inDir_def)
  have h: "hyg k" and a: "allowed T k" using assms(1) by (simp_all add: making_def ok_def)
  have T: "T q DirN" using assms(2,3) ne by (simp add: dirsOnly_def)
  have ps: "butlast q \<in> set ps" using assms(1,3,5) ne by (simp add: making_def parentsOf_def)
  show "making T k0 p ps (newDir q k)"
    unfolding making_def ok_def
  proof (intro conjI)
    show "hyg (newDir q k)" by (rule hyg_newDir [OF h assms(4,5)])
    show "allowed T (newDir q k)" by (rule allowed_newDir [OF h a ne T])
    show "keeps T {} k0 (newDir q k)"
      using keeps_trans [OF _ keeps_newDir [OF h assms(4,5)]] T assms(1) by (simp add: making_def)
    show "stableBut (set ps) (newDir q k)"
      using stableBut_newDir [OF h assms(4,5) _ ps] assms(1) by (simp add: making_def)
    show "parentsOf (newDir q k) p ps"
      using assms(1) ne by (auto simp: making_def parentsOf_def split: if_splits)
  qed
  show "isDir (newDir q k) q" using ne by (simp add: isDir_def)
qed

lemma triple_sysMkdir:
  assumes "dirsOnly T p" "prefix q p" "q \<noteq> []"
  shows "triple fl (\<lambda>k. making T k0 p ps k \<and> isDir k (butlast q)) (sysMkdir q)
     (\<lambda>r k. making T k0 p ps k \<and> (case r of Inr _ \<Rightarrow> isDir k q | Inl _ \<Rightarrow> fl \<or> isDir k q))"
  unfolding sysMkdir_def
proof (rule triple_syscall)
  fix k assume k: "making T k0 p ps k \<and> isDir k (butlast q)"
  then have h: "hyg k" and o: "ok T k" by (simp_all add: making_def ok_def)
  have d: "inDir k q" using k assms(3) by (simp add: inDir_isDir)
  then have pd: "parentDir k q = Inr ()" using parentDir_iff [OF h assms(3)] by simp
  show "making T k0 p ps (snd (case parentDir k q of Inl e \<Rightarrow> (Inl e, k) | Inr _ \<Rightarrow>
      (case lookupNode k q of Inr _ \<Rightarrow> (Inl EEXIST, k) | Inl _ \<Rightarrow> (Inr (), newDir q k)))) \<and>
    (case fst (case parentDir k q of Inl e \<Rightarrow> (Inl e, k) | Inr _ \<Rightarrow>
      (case lookupNode k q of Inr _ \<Rightarrow> (Inl EEXIST, k) | Inl _ \<Rightarrow> (Inr (), newDir q k))) of
       Inr _ \<Rightarrow> isDir (snd (case parentDir k q of Inl e \<Rightarrow> (Inl e, k) | Inr _ \<Rightarrow>
      (case lookupNode k q of Inr _ \<Rightarrow> (Inl EEXIST, k) | Inl _ \<Rightarrow> (Inr (), newDir q k)))) q
     | Inl _ \<Rightarrow> fl \<or> isDir (snd (case parentDir k q of Inl e \<Rightarrow> (Inl e, k) | Inr _ \<Rightarrow>
      (case lookupNode k q of Inr _ \<Rightarrow> (Inl EEXIST, k) | Inl _ \<Rightarrow> (Inr (), newDir q k)))) q)"
    using dirsOnly_lookup [OF o dirsOnly_prefix [OF assms(1,2)]] k pd
      making_newDir [OF _ assms(1,2) d] by auto
qed auto

lemma triple_osMkdirAll:
  assumes "dirsOnly T p" "prefix (rev cs) p"
  shows "triple fl (making T k0 p ps) (osMkdirAll cs)
     (\<lambda>r k. making T k0 p ps k \<and> (if r = None then isDir k (rev cs) else fl))"
  using assms(2)
proof (induction cs)
  case Nil
  show ?case
    unfolding osMkdirAll.simps
    by (rule triple_sum [OF triple_sysStat])
       (auto intro!: triple_ret simp: isDir_def split: node.splits)
next
  case (Cons c cs)
  let ?q = "rev (c # cs)"
  let ?Q = "\<lambda>r k. making T k0 p ps k \<and> (if r = None then isDir k ?q else fl)"
  have pre: "prefix (rev cs) p" using Cons.prems by (auto dest: append_prefixD)
  have d: "dirsOnly T ?q" by (rule dirsOnly_prefix [OF assms(1) Cons.prems])
  have L: "lookupNode k ?q = Inr DirN \<and> isDir k ?q \<or> lookupNode k ?q = Inl ENOENT \<and> \<not> isDir k ?q"
    if "making T k0 p ps k" for k
    using dirsOnly_lookup [of T k, OF _ d] that by (auto simp: making_def isDir_def)
  have stat: "triple fl (\<lambda>k. making T k0 p ps k \<and> (fl \<or> isDir k ?q)) (State_Monad.bind (sysStat ?q)
      (\<lambda>l. case l of Inl _ \<Rightarrow> ret (Some x) | Inr y \<Rightarrow> (case y of DirN \<Rightarrow> ret None | FileN _ \<Rightarrow> ret (Some x)))) ?Q"
    for x
    by (rule triple_sum [OF triple_sysStat])
       (auto intro!: triple_ret dest: L split: node.splits)
  have mk: "triple fl (\<lambda>k. making T k0 p ps k \<and> isDir k (rev cs)) (State_Monad.bind (sysMkdir ?q)
      (\<lambda>m. case m of Inl x \<Rightarrow> State_Monad.bind (sysStat ?q)
          (\<lambda>l. case l of Inl _ \<Rightarrow> ret (Some x) | Inr y \<Rightarrow> (case y of DirN \<Rightarrow> ret None | FileN _ \<Rightarrow> ret (Some x)))
        | Inr _ \<Rightarrow> ret None)) ?Q"
    by (rule triple_sum [OF triple_pre [OF triple_sysMkdir [OF assms(1) Cons.prems, of fl k0 ps]]])
       (simp, simp, rule triple_pre [OF stat], simp, rule triple_ret, simp)
  show ?case
    unfolding osMkdirAll.simps
    by (rule triple_sum [OF triple_sysStat],
        rule triple_option [OF triple_pre [OF Cons.IH [OF pre]]], simp, rule triple_pre [OF mk], simp,
        rule triple_ret, simp)
       (auto intro!: triple_ret dest: L split: node.split)
qed

lemma stableBut_mono: "stableBut P k \<Longrightarrow> P \<subseteq> Q \<Longrightarrow> stableBut Q k"
  by (auto simp: stableBut_def)

lemma ok_flushDir: "ok T k \<Longrightarrow> ok T (flushDir D k)"
  by (simp add: ok_def hyg_flushDir allowed_flushDir)

lemma triple_syncParents:
  "triple fl (\<lambda>k. ok T k \<and> keeps T {} k0 k \<and> stableBut (set ps) k \<and> isDir k p \<and> (\<forall>q \<in> set ps. prefix q p))
     (syncParents SyncDir ps)
     (\<lambda>r k. ok T k \<and> keeps T {} k0 k \<and> (if r = None then stableBut {} k \<and> isDir k p else fl))"
proof (induction ps)
  case Nil
  then show ?case by (auto intro: triple_ret)
next
  case (Cons q ps)
  show ?case
  proof (rule triple_at)
    fix k assume k: "ok T k \<and> keeps T {} k0 k \<and> stableBut (set (q # ps)) k \<and> isDir k p \<and>
        (\<forall>q' \<in> set (q # ps). prefix q' p)"
    then have h: "hyg k" by (simp add: ok_def)
    have d: "isDir k q" using k isDir_above [OF h] by auto
    have f: "ok T (flushDir q k)" "keeps T {} k0 (flushDir q k)" "isDir (flushDir q k) p"
      "stableBut (set ps) (flushDir q k)"
      using k ok_flushDir [of T k q] keeps_trans [OF _ keeps_flushDir [OF h]] 
        stableBut_mono [OF stableBut_flushDir [OF h, of "set (q # ps)" q]]
      by (auto simp: isDir_def)
    show "triple fl (\<lambda>k'. k' = k) (syncParents SyncDir (q # ps))
      (\<lambda>r k. ok T k \<and> keeps T {} k0 k \<and> (if r = None then stableBut {} k \<and> isDir k p else fl))"
      unfolding syncParents.simps
      by (rule triple_option [OF triple_SyncDir [OF h d]])
         (rule triple_pre [OF Cons.IH], use f k in auto, (rule triple_ret, use f k in auto)?)
  qed
qed

text \<open>
  \<open>MkdirAll\<close>: all lasting files are left alone; on success every directory that exists, the
  new ones included, survives a power loss; it fails only if a system call does.
\<close>

lemma triple_MkdirAll:
  assumes "dirsOnly T p"
  shows "triple fl (\<lambda>k. k = k0 \<and> ok T k0 \<and> stableBut {} k0) (MkdirAll p)
     (\<lambda>r k. ok T k \<and> keeps T {} k0 k \<and> (if r = None then stableBut {} k \<and> isDir k p else fl))"
proof (rule triple_assume [where A = "ok T k0 \<and> stableBut {} k0"])
  assume k0: "ok T k0 \<and> stableBut {} k0"
  then have h: "hyg k0" by (simp add: ok_def)
  let ?Q = "\<lambda>r k. ok T k \<and> keeps T {} k0 k \<and> (if r = None then stableBut {} k \<and> isDir k p else fl)"
  have mk: "triple fl (\<lambda>k. making T k0 p ps k \<and> (\<forall>q \<in> set ps. strict_prefix q p))
      (State_Monad.bind (osMkdirAll (rev p)) (\<lambda>e. case e of None \<Rightarrow> syncParents SyncDir (rev ps)
         | Some x \<Rightarrow> ret (Some (ErrSys x)))) ?Q" for ps
  proof (rule triple_assume [where A = "\<forall>q \<in> set ps. strict_prefix q p"])
    assume sp: "\<forall>q \<in> set ps. strict_prefix q p"
    have t: "triple fl (making T k0 p ps) (osMkdirAll (rev p))
        (\<lambda>r k. making T k0 p ps k \<and> (if r = None then isDir k p else fl))"
      using triple_osMkdirAll [OF assms, of "rev p" fl k0 ps] by (simp only: rev_rev_ident prefix_order.order_refl)
    show "triple fl (\<lambda>k. making T k0 p ps k \<and> (\<forall>q \<in> set ps. strict_prefix q p))
      (State_Monad.bind (osMkdirAll (rev p)) (\<lambda>e. case e of None \<Rightarrow> syncParents SyncDir (rev ps)
         | Some x \<Rightarrow> ret (Some (ErrSys x)))) ?Q"
      by (rule triple_option [OF triple_pre [OF t]], simp,
          rule triple_pre [OF triple_syncParents [where T = T and p = p and ps = "rev ps"]],
          use sp in \<open>force simp: making_def strict_prefix_def\<close>)
         (auto intro!: triple_ret simp: making_def)
  qed simp
  show ?thesis
    unfolding MkdirAll_def mkdirAll_def
  proof (rule triple_sum [OF triple_pre [OF triple_missingParents [of T k0 "rev p"]]])
    fix x
    show "triple fl (\<lambda>k. k = k0 \<and> (case Inr x of Inl _ \<Rightarrow> fl | Inr ps \<Rightarrow> parentsOf k0 (rev (rev p)) ps \<and>
          set [] \<subseteq> set ps \<and> (\<forall>q\<in>set ps. q \<in> set [] \<or> strict_prefix q (rev (rev p)))))
        (State_Monad.bind (osMkdirAll (rev p)) (\<lambda>e. case e of None \<Rightarrow> syncParents SyncDir (rev x)
         | Some x \<Rightarrow> ret (Some (ErrSys x)))) ?Q"
      by (rule triple_pre [OF mk]) (use k0 in \<open>auto simp: making_def intro: stableBut_mono\<close>)
  qed (use k0 assms in \<open>auto intro!: triple_ret\<close>)
qed simp


subsection \<open>\<open>WriteFileAtomic\<close>\<close>

text \<open>\<open>p\<close> is a place for a file and so is the temporary name next to it.\<close>

definition filePlace :: "(path \<Rightarrow> node \<Rightarrow> bool) \<Rightarrow> path \<Rightarrow> bool" where
  "filePlace T p \<longleftrightarrow> p \<noteq> [] \<and> \<not> T p DirN \<and> (\<forall>i. T p (FileN i))"

definition writePlace :: "(path \<Rightarrow> node \<Rightarrow> bool) \<Rightarrow> path \<Rightarrow> bool" where
  "writePlace T p \<longleftrightarrow> filePlace T p \<and> filePlace T (tmpPath p) \<and> \<not> isTmp (last p)"

lemma tmpPath_facts [simp]:
  "isTmp (last (tmpPath p))" "butlast (tmpPath p) = butlast p" "tmpPath p \<noteq> []"
  by (simp_all add: tmpPath_def isTmp_def suffix_def)

text \<open>Opening a file for writing, creating it if it is missing.\<close>

lemma triple_sysOpen:
  assumes "ok T k0" "filePlace T p" "inDir k0 p" "p \<in> X \<or> isTmp (last p)"
  shows "triple fl (\<lambda>k. k = k0) (sysOpen trunc p)
     (\<lambda>r k. ok T k \<and> keeps T X k0 k \<and> (\<forall>P. stableBut P k0 \<longrightarrow> stableBut P k) \<and>
        (\<forall>q. isDir k0 q \<longrightarrow> isDir k q) \<and>
        (case r of Inl _ \<Rightarrow> fl \<and> k = k0
         | Inr i \<Rightarrow> fmlookup (ents k) p = Some (FileN i) \<and>
             (case fmlookup (ents k0) p of
                None \<Rightarrow> k = snd (newFile p k0) \<and> i = nextIno k0
              | Some _ \<Rightarrow> k = (if trunc then setContent i [] [] k0 else k0))))"
  unfolding sysOpen_def
proof (rule triple_syscall)
  fix k assume k: "k = k0"
  have h: "hyg k0" and al: "allowed T k0" using assms(1) by (simp_all add: ok_def)
  have ne: "p \<noteq> []" and nd: "fmlookup (ents k0) p \<noteq> Some DirN" and T: "T p (FileN i)" for i
    using assms(2) allowed_ents [OF h al] by (auto simp: filePlace_def)
  have pd: "parentDir k0 p = Inr ()" using parentDir_iff [OF h ne] assms(3) by simp
  let ?f = "case parentDir k p of Inl e \<Rightarrow> (Inl e, k) | Inr _ \<Rightarrow> (case lookupNode k p of
      Inl _ \<Rightarrow> (case newFile p k of (i, d') \<Rightarrow> (Inr i, d'))
    | Inr DirN \<Rightarrow> (Inl EISDIR, k) | Inr (FileN i) \<Rightarrow> (Inr i, if trunc then setContent i [] [] k else k))"
  show "ok T (snd ?f) \<and> keeps T X k0 (snd ?f) \<and> (\<forall>P. stableBut P k0 \<longrightarrow> stableBut P (snd ?f)) \<and>
      (\<forall>q. isDir k0 q \<longrightarrow> isDir (snd ?f) q) \<and>
      (case fst ?f of Inl _ \<Rightarrow> fl \<and> snd ?f = k0
       | Inr i \<Rightarrow> fmlookup (ents (snd ?f)) p = Some (FileN i) \<and>
           (case fmlookup (ents k0) p of None \<Rightarrow> snd ?f = snd (newFile p k0) \<and> i = nextIno k0
            | Some _ \<Rightarrow> snd ?f = (if trunc then setContent i [] [] k0 else k0)))"
  proof (cases rule: lookupNode_cases [OF h ne])
    case (1 n)
    with nd obtain i where n: "n = FileN i" by (cases n) auto
    then have f: "fmlookup (ents k0) p = Some (FileN i)" using 1 by simp
    show ?thesis
      using 1 n pd k assms(1) f keeps_setContent [OF h f assms(4), of T "[]" "[]"] hyg_setContent [OF h]
      by (auto simp: ok_def isDir_def)
  next
    case (2 e)
    have f: "?f = (Inr (nextIno k0), snd (newFile p k0))"
      using 2 pd k ne by (simp add: newFile_eq case_prod_unfold)
    show ?thesis
      unfolding f using 2 ne
        hyg_newFile [OF h assms(3) 2(2)] allowed_newFile [OF h al assms(3) T]
        keeps_newFile [OF h assms(3) 2(2) assms(4), of T] stableBut_newFile [OF h assms(3) 2(2)]
      by (auto simp: ok_def isDir_def ents_newFile)
  qed
qed (use assms(1) in auto)

lemma appendFile_simps [simp]:
  "ents (appendFile i buf k) = ents k" "dhist (appendFile i buf k) = dhist k"
  "nextIno (appendFile i buf k) = nextIno k"
  "content (appendFile i buf k) = (content k)(i := content k i @ buf)"
  "stableBut P (appendFile i buf k) = stableBut P k" "allowed T (appendFile i buf k) = allowed T k"
  by (simp_all add: appendFile_def)

text \<open>While the temporary file is being written, nothing else changes.\<close>

definition writing :: "(path \<Rightarrow> node \<Rightarrow> bool) \<Rightarrow> disk \<Rightarrow> path \<Rightarrow> ino \<Rightarrow> disk \<Rightarrow> bool" where
  "writing T k0 p i k \<longleftrightarrow> ok T k \<and> keeps T {} k0 k \<and> stableBut {} k \<and> inDir k p \<and>
     fmlookup (ents k) (tmpPath p) = Some (FileN i)"

lemma writing_append:
  assumes "writing T k0 p i k"
  shows "writing T k0 p i (appendFile i buf k)"
proof -
  have h: "hyg k" and f: "fmlookup (ents k) (tmpPath p) = Some (FileN i)"
    using assms by (simp_all add: writing_def ok_def)
  show ?thesis
    using assms hyg_setContent [OF h] keeps_trans [OF _ keeps_setContent [OF h f]]
    by (auto simp: writing_def ok_def appendFile_def inDir_def)
qed

lemma writing_flush: "writing T k0 p i k \<Longrightarrow> writing T k0 p i (flushFile i k)"
  using keeps_trans [OF _ keeps_flushFile, of T "{}" k0 k i]
  by (auto simp: writing_def ok_def inDir_def hyg_flushFile)

lemma writing_renameOK:
  assumes "writing T k0 p i k" "writePlace T p"
  shows "renameOK k (tmpPath p) p i"
  using assms allowed_ents [of k T p DirN]
  by (auto simp: writing_def renameOK_def writePlace_def filePlace_def ok_def)

lemma triple_sysRename:
  assumes "writing T k0 p i k1" "writePlace T p"
  shows "triple fl (\<lambda>k. k = k1) (sysRename (tmpPath p) p)
     (\<lambda>r k. r = Inr () \<and> k = renamed (tmpPath p) p k1 \<or> (\<exists>e. r = Inl e) \<and> fl \<and> k = k1)"
proof -
  have h: "hyg k1" and d: "inDir k1 p" and f: "fmlookup (ents k1) (tmpPath p) = Some (FileN i)"
    using assms(1) by (simp_all add: writing_def ok_def)
  have ne: "p \<noteq> []" using d by (simp add: inDir_def)
  have pd: "parentDir k1 p = Inr ()" using parentDir_iff [OF h ne] d by simp
  have "lookupNode k1 p \<noteq> Inr DirN"
    using lookupNode_InrD [OF _ ne] writing_renameOK [OF assms] by (auto simp: renameOK_def)
  then show ?thesis
    unfolding sysRename_def
    by (intro triple_post [OF triple_syscall_at [where r = "Inr ()" and ?k1.0 = "renamed (tmpPath p) p k1"]])
       (auto simp: pd f lookupNode_Some [OF h f] renamed_def split: sum.splits node.splits)
qed

text \<open>The outcome of an atomic write over the possible contents \<open>S\<close>.\<close>

definition written :: "(path \<Rightarrow> node \<Rightarrow> bool) \<Rightarrow> bool \<Rightarrow> disk \<Rightarrow> path \<Rightarrow> bytes option set \<Rightarrow> bytes \<Rightarrow>
    error option \<Rightarrow> disk \<Rightarrow> bool" where
  "written T fl k0 p S data r k \<longleftrightarrow> ok T k \<and> keeps T {p} k0 k \<and>
     (if r = None then stableBut {} k \<and> possAt k p {Some data}
      else fl \<and> possAt k p (insert (Some data) S))"

lemma written_err:
  assumes "writing T k0 p i k" "writePlace T p" "possAt k0 p S" "fl"
  shows "written T fl k0 p S data (Some x) k"
proof -
  have k: "keeps T {} k0 k" and "ok T k" using assms(1) by (simp_all add: writing_def)
  moreover have "possAt k p (insert (Some data) S)"
    using possAt_mono [OF keeps_poss [OF k assms(3)]] assms(2) by (auto simp: writePlace_def filePlace_def)
  ultimately show ?thesis using keeps_mono [OF k] assms(4) by (simp add: written_def)
qed

lemma written_close:
  assumes "writePlace T p" "possAt k0 p S"
  shows "triple fl (\<lambda>k. writing T k0 p i k \<and> fl) (State_Monad.bind sysClose (\<lambda>_. ret (Some x)))
     (written T fl k0 p S data)"
  by (rule triple_bind [OF triple_sysClose], rule triple_ret) (use written_err [OF _ assms] in blast)

text \<open>The file is complete and synced: renaming it and syncing the directory.\<close>

lemma written_rename:
  assumes w: "writing T k0 p i k1" and c: "chist k1 i = [data]"
    and wp: "writePlace T p" and S: "possAt k0 p S"
  shows "triple fl (\<lambda>k. k = renamed (tmpPath p) p k1) (SyncDir (butlast p)) (written T fl k0 p S data)"
proof -
  note r = writing_renameOK [OF w wp]
  let ?k = "renamed (tmpPath p) p k1"
  have h1: "hyg k1" and o1: "ok T k1" and s1: "stableBut {} k1" and kp: "keeps T {} k0 k1" and d1: "inDir k1 p"
    using w by (simp_all add: writing_def ok_def)
  have h: "hyg ?k" and o: "ok T ?k" and s: "stableBut {} ?k"
    using hyg_renamed [OF h1 r] allowed_renamed [OF h1 _ r, of T] wp stableBut_renamed [OF h1 r s1] o1
    by (simp_all add: ok_def writePlace_def filePlace_def)
  have k: "keeps T {p} k0 ?k"
    using keeps_trans [OF keeps_mono [OF kp] keeps_renamed [OF h1 r]] by simp
  have e: "fmlookup (ents ?k) p = Some (FileN i)" and ch: "set (chist ?k i) = {data}"
    using renameOK_ne [OF r] c by (simp_all add: renamed_eq [OF r])
  have P: "possAt ?k p (insert (Some data) S)"
    using possAt_renamed [OF h1 r keeps_poss [OF kp S]] wp c by (auto simp: writePlace_def filePlace_def)
  have dir: "isDir ?k (butlast p)"
    using hyg_parent [OF h, of "butlast p" "last p"] e d1 by (auto simp: isDir_def inDir_def)
  have F: "ok T (flushDir (butlast p) ?k)" "keeps T {p} k0 (flushDir (butlast p) ?k)"
    "stableBut {} (flushDir (butlast p) ?k)" "possAt (flushDir (butlast p) ?k) p {Some data}"
    using ok_flushDir [OF o] keeps_trans [OF k keeps_flushDir [OF h]]
      stableBut_flushDir [OF h s, of "butlast p"] possAt_flushDir_current [OF h s e ch] by simp_all
  show ?thesis
    by (rule triple_post [OF triple_SyncDir [OF h dir]])
       (use F o k P possAt_mono [OF F(4)] in \<open>auto simp: written_def split: if_splits\<close>)
qed

text \<open>The file is complete: syncing, closing and publishing it.\<close>

lemma written_publish:
  assumes w: "writing T k0 p i k1" and c: "content k1 i = data"
    and wp: "writePlace T p" and S: "possAt k0 p S"
  shows "triple fl (\<lambda>k. k = k1) (State_Monad.bind (sysFsync i) (\<lambda>s. case s of
        Inl e \<Rightarrow> State_Monad.bind sysClose (\<lambda>_. ret (Some (ErrSys e)))
      | Inr _ \<Rightarrow> State_Monad.bind sysClose (\<lambda>c. case c of Inl e \<Rightarrow> ret (Some (ErrSys e))
          | Inr _ \<Rightarrow> State_Monad.bind (sysRename (tmpPath p) p)
              (\<lambda>r. case r of Inl e \<Rightarrow> ret (Some (ErrSys e)) | Inr _ \<Rightarrow> SyncDir (butlast p)))))
     (written T fl k0 p S data)"
proof -
  let ?k = "flushFile i k1"
  have w': "writing T k0 p i ?k" "chist ?k i = [data]" using writing_flush [OF w] c by simp_all
  have rename: "triple fl (\<lambda>k. k = ?k) (State_Monad.bind (sysRename (tmpPath p) p)
      (\<lambda>r. case r of Inl e \<Rightarrow> ret (Some (ErrSys e)) | Inr _ \<Rightarrow> SyncDir (butlast p))) (written T fl k0 p S data)"
    by (rule triple_sum [OF triple_sysRename [OF w'(1) wp]], rule triple_ret)
       (use written_err [OF w'(1) wp S] in simp, rule triple_pre [OF written_rename [OF w' wp S]], simp)
  show ?thesis
    apply (rule triple_sum [OF triple_sysFsync])
     apply (rule triple_pre [OF written_close [OF wp S]], use w in simp)
    apply (rule triple_sum [OF triple_pre [OF triple_sysClose [where P = "\<lambda>k. k = ?k"]]], simp)
     apply (rule triple_ret, use written_err [OF w'(1) wp S] in simp)
    by (rule triple_pre [OF rename], simp)
qed

text \<open>
  \<open>WriteFileAtomic\<close>: if \<open>S\<close> are the possible contents before, then at any later moment the
  contents are those in \<open>S\<close> or the new one, and after success the new one only.  No other
  lasting file is touched, and it fails only if a system call does.
\<close>

lemma triple_WriteFileAtomic:
  assumes "ok T k0" "stableBut {} k0" "writePlace T p" "inDir k0 p" "possAt k0 p S"
  shows "triple fl (\<lambda>k. k = k0) (WriteFileAtomic p data) (written T fl k0 p S data)"
proof -
  have f: "filePlace T (tmpPath p)" and d: "inDir k0 (tmpPath p)"
    using assms(3,4) by (simp_all add: writePlace_def inDir_def)
  have opened: "writing T k0 p i k \<and> content k i = []"
    if "ok T k" "keeps T {} k0 k" "stableBut {} k" "isDir k (butlast p)" "fmlookup (ents k) (tmpPath p) = Some (FileN i)"
      "case fmlookup (ents k0) (tmpPath p) of None \<Rightarrow> k = snd (newFile (tmpPath p) k0) \<and> i = nextIno k0
       | Some _ \<Rightarrow> k = (if True then setContent i [] [] k0 else k0)" for i k
    using that assms(4) by (auto simp: writing_def inDir_isDir newFile_eq split: option.splits)
  have S': "possAt k0 p (insert (Some data) S)" using possAt_mono [OF assms(5)] by auto
  show ?thesis
    unfolding WriteFileAtomic_def
    apply (rule triple_sum [OF triple_sysOpen [OF assms(1) f d, where X = "{}"]], simp)
     apply (rule triple_ret, use assms(1) S' in \<open>simp add: written_def keeps_mono\<close>)
    apply (rule triple_at)
    subgoal premises prems for i k1
    proof -
      have w: "writing T k0 p i k1" "content k1 i = []"
        using opened [of k1 i] prems assms(2,4) by (auto simp: inDir_isDir simp del: if_True)
      show ?thesis
        apply (rule triple_sum [OF triple_sysWrite])
         apply (rule triple_pre [OF written_close [OF assms(3,5), of _ i]], use writing_append [OF w(1)] in auto)[1]
        by (rule triple_pre [OF written_publish [OF writing_append [OF w(1), of data] _ assms(3,5)]])
           (use w(2) in simp_all)
    qed
    done
qed

end
