(* ===== verification/Layout.thy ===== *)
theory Layout
  imports Db Fsutil_Facts
begin

text \<open>
  Which places in and above a database directory hold files and which hold directories: the log,
  the lock, the snapshot of every valid name and the temporary file next to it are files; whatever
  lies above a snapshot is a directory.  The two kinds are disjoint for every valid name but those
  below \<open>lock/\<close>, whose directory would have to take the place of the lock file.
\<close>

definition okName :: "string \<Rightarrow> bool" where
  "okName n \<longleftrightarrow> validName n \<and> \<not> prefix ''lock/'' n"

definition isFilePath :: "path \<Rightarrow> path \<Rightarrow> bool" where
  "isFilePath dr p \<longleftrightarrow> p = dr @ [walName] \<or> p = dr @ [lockName] \<or>
     (\<exists>n. validName n \<and> (p = collPath dr n \<or> p = tmpPath (collPath dr n)))"

definition isDirPath :: "path \<Rightarrow> path \<Rightarrow> bool" where
  "isDirPath dr p \<longleftrightarrow> (\<exists>n. okName n \<and> strict_prefix p (collPath dr n))"

definition cleanComp :: "string \<Rightarrow> bool" where
  "cleanComp c \<longleftrightarrow> c \<noteq> [] \<and> CHR ''/'' \<notin> set c"

definition place :: "path \<Rightarrow> path \<Rightarrow> node \<Rightarrow> bool" where
  "place dr p n \<longleftrightarrow> cleanComp (last p) \<and>
     (if n = DirN then \<not> isFilePath dr p else \<not> isDirPath dr p)"

subsection \<open>Segments\<close>

lemma valid_segs:
  assumes "validName n" "s \<in> set (split_slash n)"
  shows "s \<noteq> []" "list_all nameChar s" "CHR ''.'' \<notin> set s" "CHR ''/'' \<notin> set s"
proof -
  show *: "s \<noteq> []" "list_all nameChar s" using assms by (auto simp: validName_iff name_grammar_def)
  show "CHR ''.'' \<notin> set s" "CHR ''/'' \<notin> set s"
    using *(2) nameChar_not_dot nameChar_not_slash by (auto simp: list_all_iff)
qed

lemma strict_prefix_collPath:
  "strict_prefix q (collPath dr n) \<longleftrightarrow> prefix q (dr @ butlast (split_slash n))"
  by (simp add: collPath_alt strict_prefix_def flip: append_assoc) (auto simp: prefix_def)

lemma split_slash_first:
  assumes "split_slash n = s # t # ts"
  shows "prefix (s @ ''/'') n"
proof -
  have "n = join_slash (s # t # ts)" using assms by (metis join_split_slash)
  then show ?thesis by simp
qed

lemma okName_first: "okName n \<Longrightarrow> butlast (split_slash n) = s # ss \<Longrightarrow> s \<noteq> ''lock''"
  using split_slash_first [of n s] by (cases "split_slash n"; cases "tl (split_slash n)") (auto simp: okName_def)

text \<open>The shape of a file path: a last component with a dot, or the lock in the root.\<close>

lemma filePath_shape:
  assumes "isFilePath dr p"
  obtains r f where "p = dr @ r @ [f]" "CHR ''.'' \<in> set f \<or> r = [] \<and> f = ''lock''" "cleanComp f"
proof -
  have "\<exists>r f. p = dr @ r @ [f] \<and> (CHR ''.'' \<in> set f \<or> r = [] \<and> f = ''lock'') \<and> cleanComp f"
    using assms unfolding isFilePath_def
  proof (elim disjE exE conjE)
    fix n assume n: "validName n" "p = collPath dr n"
    then show ?thesis
      using valid_segs(4) [OF n(1), of "last (split_slash n)"]
      by (auto simp: collPath_alt jsonExt_def cleanComp_def)
  next
    fix n assume n: "validName n" "p = tmpPath (collPath dr n)"
    then show ?thesis
      using valid_segs(4) [OF n(1), of "last (split_slash n)"]
      by (auto simp: tmpPath_def jsonExt_def cleanComp_def)
  qed (auto simp: walName_def lockName_def cleanComp_def)
  then show thesis using that by blast
qed

lemma place_disjoint:
  assumes "isFilePath dr p"
  shows "\<not> isDirPath dr p"
proof
  assume "isDirPath dr p"
  then obtain n where n: "okName n" "prefix p (dr @ butlast (split_slash n))"
    by (auto simp: isDirPath_def strict_prefix_collPath)
  obtain r f where p: "p = dr @ r @ [f]" "CHR ''.'' \<in> set f \<or> r = [] \<and> f = ''lock''"
    using filePath_shape [OF assms] by blast
  obtain z where segs: "butlast (split_slash n) = r @ [f] @ z"
    using n(2) p(1) by (auto simp: prefix_def)
  then have "f \<in> set (split_slash n)" by (metis in_set_butlastD in_set_conv_decomp append.assoc append_Cons append_Nil)
  then have "CHR ''.'' \<notin> set f" using n(1) valid_segs(3) by (auto simp: okName_def)
  then have "butlast (split_slash n) = ''lock'' # z" using p(2) segs by auto
  then show False using okName_first [OF n(1)] by blast
qed

subsection \<open>The places the code uses\<close>

lemma filePlaceI:
  assumes "isFilePath dr p"
  shows "filePlace (place dr) p"
proof -
  have "p \<noteq> []" "cleanComp (last p)" using filePath_shape [OF assms] by (metis Nil_is_append_conv last_snoc append.assoc not_Cons_self2)+
  then show ?thesis using assms place_disjoint [OF assms] by (simp add: filePlace_def place_def)
qed

lemma isFilePath_simps [simp]:
  "isFilePath dr (dr @ [walName])" "isFilePath dr (dr @ [lockName])"
  "validName n \<Longrightarrow> isFilePath dr (collPath dr n)"
  "validName n \<Longrightarrow> isFilePath dr (tmpPath (collPath dr n))"
  by (auto simp: isFilePath_def)

lemma not_isTmp [simp]: "\<not> isTmp (s @ jsonExt)" "\<not> isTmp walName" "\<not> isTmp lockName"
  by (auto simp: isTmp_def jsonExt_def walName_def lockName_def suffix_def append_eq_append_conv2
      append_eq_Cons_conv)

lemma writePlace_coll: "validName n \<Longrightarrow> writePlace (place dr) (collPath dr n)"
  by (simp add: writePlace_def filePlaceI)

lemma not_dir_place: "isFilePath dr p \<Longrightarrow> \<not> place dr p DirN"
  by (simp add: place_def)

lemma dirsOnly_coll:
  assumes "okName n" "list_all cleanComp dr"
  shows "dirsOnly (place dr) (butlast (collPath dr n))"
  unfolding dirsOnly_def
proof (intro allI impI)
  fix q assume q: "prefix q (butlast (collPath dr n))" "q \<noteq> []"
  have d: "isDirPath dr q"
    using q(1) assms(1) by (auto simp: isDirPath_def strict_prefix_collPath)
  have "last q \<in> set (dr @ butlast (split_slash n))"
    using subsetD [OF set_mono_prefix [OF q(1)] last_in_set [OF q(2)]] by simp
  then have "cleanComp (last q)"
    using assms valid_segs [of n "last q"] by (auto simp: list_all_iff okName_def cleanComp_def dest: in_set_butlastD)
  then show "place dr q DirN \<and> (\<forall>i. \<not> place dr q (FileN i))"
    using d place_disjoint by (auto simp: place_def)
qed

lemma okName_a: "okName ''a''"
  by (simp add: okName_def validName_def maxNameLen_def nameChar_def less_eq_char_def)

lemma dirsOnly_dr: "list_all cleanComp dr \<Longrightarrow> dirsOnly (place dr) dr"
  using dirsOnly_coll [OF okName_a, of dr] by simp

lemma wal_not_coll [simp]: "dr @ [walName] \<noteq> collPath dr n" "collPath dr n \<noteq> dr @ [walName]"
  "dr @ [lockName] \<noteq> collPath dr n" "collPath dr n \<noteq> dr @ [lockName]" "lockName \<noteq> walName" "walName \<noteq> lockName"
proof -
  have "last (collPath dr n) \<noteq> walName" "last (collPath dr n) \<noteq> lockName"
    by (auto simp: jsonExt_def walName_def lockName_def append_eq_Cons_conv)
  then show "dr @ [walName] \<noteq> collPath dr n" "collPath dr n \<noteq> dr @ [walName]"
    "dr @ [lockName] \<noteq> collPath dr n" "collPath dr n \<noteq> dr @ [lockName]" by (auto simp del: last_collPath dest: sym)
qed (simp_all add: walName_def lockName_def)

end
