(* ===== verification/Snapshot_Facts.thy ===== *)
theory Snapshot_Facts
  imports Layout
begin

text \<open>
  What writing a snapshot does to the disk: every file of a dirty collection moves from its old
  content to the encoding of the collection, or disappears if the collection was dropped; at every
  moment each file holds one of the two, and after success all hold the new one.
\<close>

subsection \<open>Encoded collections\<close>

definition encDocs :: "docs \<Rightarrow> bytes" where
  "encDocs m = (case marshalDocs m of Inl _ \<Rightarrow> [] | Inr b \<Rightarrow> b)"

definition snapOf :: "colls \<Rightarrow> string \<Rightarrow> bytes option" where
  "snapOf cs n = map_option encDocs (fmlookup cs n)"

definition collsOK :: "colls \<Rightarrow> bool" where
  "collsOK cs \<longleftrightarrow> (\<forall>n m. fmlookup cs n = Some m \<longrightarrow> okName n \<and> docsOK m)"

lemma encDocs: "docsOK m \<Longrightarrow> marshalDocs m = Inr (encDocs m)" "docsOK m \<Longrightarrow> unmarshalDocs (encDocs m) = Inr m"
  by (auto elim!: marshalDocs_roundtrip simp: encDocs_def)

lemma collectSnaps_ok:
  assumes "collsOK cs"
  shows "\<exists>snaps' dropped'. collectSnaps cs names snaps dropped = Inr (snaps', dropped') \<and>
     (\<forall>n. fmlookup snaps' n = (if n \<in> set names \<and> fmlookup cs n \<noteq> None then snapOf cs n else fmlookup snaps n)) \<and>
     dropped' = dropped @ filter (\<lambda>n. fmlookup cs n = None) names"
proof (induction names arbitrary: snaps dropped)
  case (Cons n names)
  show ?case
  proof (cases "fmlookup cs n")
    case None
    then show ?thesis using Cons.IH [of snaps "dropped @ [n]"] by auto
  next
    case (Some m)
    then have "marshalDocs m = Inr (encDocs m)" using assms encDocs(1) by (auto simp: collsOK_def)
    then show ?thesis
      using Some Cons.IH [of "fmupd n (encDocs m) snaps" dropped] by (auto simp: snapOf_def)
  qed
qed simp

subsection \<open>Moving files\<close>

lemma possAt_current:
  assumes "hyg k" "possAt k p S"
  shows "fmlookup (ents k) p \<noteq> Some DirN" "fileAt k p \<in> S"
proof -
  have "nodeIn k S (fmlookup (ents k) p)"
    using assms(2) hyg_children [OF assms(1), of "butlast p"] by (fastforce simp: possAt_def children_def)
  then show "fmlookup (ents k) p \<noteq> Some DirN" "fileAt k p \<in> S"
    using hyg_content [OF assms(1)] by (auto simp: nodeIn_def fileAt_def split: option.splits node.splits)
qed

text \<open>
  The files in \<open>X\<close> move to the contents \<open>tgt\<close>: certain after success, the only other
  possibility being the old content after an error.
\<close>

definition moved :: "(path \<Rightarrow> node \<Rightarrow> bool) \<Rightarrow> bool \<Rightarrow> (path \<Rightarrow> bytes option) \<Rightarrow> path set \<Rightarrow> disk \<Rightarrow>
    error option \<Rightarrow> disk \<Rightarrow> bool" where
  "moved T fl tgt X k0 r k \<longleftrightarrow> ok T k \<and> keeps T X k0 k \<and>
     (if r = None then stableBut {} k \<and> (\<forall>p \<in> X. possAt k p {tgt p})
      else fl \<and> (\<forall>p \<in> X. \<forall>x. possAt k0 p {x} \<longrightarrow> possAt k p {x, tgt p}))"

definition lasting :: "(path \<Rightarrow> node \<Rightarrow> bool) \<Rightarrow> path \<Rightarrow> bool" where
  "lasting T p \<longleftrightarrow> \<not> isTmp (last p) \<and> \<not> T p DirN"

lemma moved_more:
  assumes "moved T fl tgt X k0 (Some e) k" "\<forall>p \<in> Y. lasting T p"
  shows "moved T fl tgt (X \<union> Y) k0 (Some e) k"
proof -
  have k: "keeps T X k0 k" using assms(1) by (simp add: moved_def)
  have "possAt k p {x, tgt p}" if "p \<in> Y" "p \<notin> X" "possAt k0 p {x}" for p x
    using possAt_mono [OF keeps_poss [OF k that(3,2)]] assms(2) that(1) by (auto simp: lasting_def)
  then show ?thesis using assms(1) keeps_mono [OF k] by (auto simp: moved_def)
qed

lemma moved_seq:
  assumes "moved T fl tgt X k0 None k1" "moved T fl tgt Y k1 r k2" "X \<inter> Y = {}"
    "\<forall>p \<in> X \<union> Y. lasting T p"
  shows "moved T fl tgt (X \<union> Y) k0 r k2"
proof -
  have k1: "keeps T X k0 k1" and k2: "keeps T Y k1 k2" using assms(1,2) by (simp_all add: moved_def)
  have k: "keeps T (X \<union> Y) k0 k2" by (rule keeps_trans [OF keeps_mono [OF k1] keeps_mono [OF k2]]) auto
  have X: "possAt k2 p {tgt p}" if "p \<in> X" for p
    using keeps_poss [OF k2, of p] assms(1,3,4) that by (auto simp: moved_def lasting_def)
  have Y: "possAt k1 p {x}" if "p \<in> Y" "possAt k0 p {x}" for p x
    using keeps_poss [OF k1 that(2)] assms(3,4) that(1) by (auto simp: lasting_def)
  show ?thesis
    using assms(2) k X Y possAt_mono [OF X] by (auto simp: moved_def)
qed

lemma moved_nothing: "ok T k \<Longrightarrow> stableBut {} k \<Longrightarrow> moved T fl tgt {} k None k"
  by (simp add: moved_def)

text \<open>A file system program that moves one file, and a loop over such programs.\<close>

lemma possAt_unique: "hyg k \<Longrightarrow> possAt k p {x} \<Longrightarrow> possAt k p {y} \<Longrightarrow> x = y"
  using possAt_current(2) by blast

lemma triple_oneSnap:
  assumes "list_all cleanComp dr" "okName n" "tgt (collPath dr n) = Some data"
    and k0: "ok (place dr) k0" "stableBut {} k0" "possAt k0 (collPath dr n) {x}"
  shows "triple fl (\<lambda>k. k = k0)
     (State_Monad.bind (MkdirAll (butlast (collPath dr n))) (\<lambda>m. case m of Some e \<Rightarrow> ret (Some e)
        | None \<Rightarrow> WriteFileAtomic (collPath dr n) data))
     (moved (place dr) fl tgt {collPath dr n} k0)"
proof -
  let ?p = "collPath dr n" and ?T = "place dr"
  have v: "validName n" using assms(2) by (simp add: okName_def)
  have h0: "hyg k0" using k0(1) by (simp add: ok_def)
  have las: "\<not> isTmp (last ?p)" "\<not> ?T ?p DirN" using v by (simp_all add: not_dir_place)
  have uniq: "y = x" if "possAt k0 ?p {y}" for y using possAt_unique [OF h0 that k0(3)] .
  have err: "moved ?T fl tgt {?p} k0 (Some e) k" if "ok ?T k" "keeps ?T {} k0 k" "fl" for k e
    using that possAt_mono [OF keeps_poss [OF that(2) _ _ las]] keeps_mono [OF that(2)]
    by (auto simp: moved_def)
  show ?thesis
    apply (rule triple_option [OF triple_pre [OF triple_MkdirAll [OF dirsOnly_coll [OF assms(2,1)], of fl k0]]])
      apply (use k0 in simp)
     apply (rule triple_at)
    subgoal premises prems for k1
    proof -
      have k1: "ok ?T k1" "keeps ?T {} k0 k1" "stableBut {} k1" "inDir k1 ?p"
        using prems by (simp_all add: inDir_isDir)
      have P: "possAt k1 ?p {x}" by (rule keeps_poss [OF k1(2) k0(3) _ las]) simp
      show ?thesis
        by (rule triple_post [OF triple_WriteFileAtomic [OF k1(1,3) writePlace_coll [OF v] k1(4) P]])
           (use keeps_trans [OF keeps_mono [OF k1(2)]] assms(3) uniq in
             \<open>auto simp: written_def moved_def insert_commute split: if_splits\<close>)
    qed
    by (rule triple_ret, use err in auto)
qed


lemma bind_error_assoc:
  assumes "\<And>e. g (Some e) = ret (Some e)"
  shows "State_Monad.bind m (\<lambda>r. case r of None \<Rightarrow> State_Monad.bind f g | Some e \<Rightarrow> ret (Some e)) =
     State_Monad.bind (State_Monad.bind m (\<lambda>r. case r of None \<Rightarrow> f | Some e \<Rightarrow> ret (Some e))) g"
  by (rule state_ext) (auto simp: assms split: option.split prod.split)

definition collPaths :: "path \<Rightarrow> string set \<Rightarrow> path set" where
  "collPaths dr N = collPath dr ` N"

lemma collPaths_simps [simp]:
  "collPaths dr {} = {}" "collPaths dr (insert n N) = insert (collPath dr n) (collPaths dr N)"
  "collPath dr n \<in> collPaths dr N \<longleftrightarrow> n \<in> N" "collPaths dr (M \<union> N) = collPaths dr M \<union> collPaths dr N"
  by (auto simp: collPaths_def dest: collPath_inj)

lemma lasting_coll: "validName n \<Longrightarrow> lasting (place dr) (collPath dr n)"
  by (simp add: lasting_def not_dir_place)

lemma lasting_colls: "\<forall>n \<in> N. okName n \<Longrightarrow> \<forall>p \<in> collPaths dr N. lasting (place dr) p"
  by (auto simp: collPaths_def lasting_coll okName_def)

text \<open>The disk before a snapshot: quiet, every file of \<open>names\<close> with one possible content.\<close>

definition quiet :: "path \<Rightarrow> string set \<Rightarrow> disk \<Rightarrow> bool" where
  "quiet dr N k \<longleftrightarrow> ok (place dr) k \<and> stableBut {} k \<and>
     (\<forall>n \<in> N. okName n \<and> (\<exists>x. possAt k (collPath dr n) {x}))"

lemma quiet_mono: "quiet dr N k \<Longrightarrow> M \<subseteq> N \<Longrightarrow> quiet dr M k"
  by (auto simp: quiet_def)

lemma quiet_moved:
  assumes "quiet dr (M \<union> N) k0" "M \<inter> N = {}" "moved (place dr) fl tgt (collPaths dr M) k0 None k"
  shows "quiet dr N k"
proof -
  have k: "keeps (place dr) (collPaths dr M) k0 k" using assms(3) by (simp add: moved_def)
  have "possAt k (collPath dr m) {x}" if "m \<in> N" "possAt k0 (collPath dr m) {x}" "okName m" for m x
    using keeps_poss [OF k that(2)] that(1,3) assms(2) lasting_coll [of m dr]
    by (auto simp: lasting_def okName_def)
  then show ?thesis using assms(1,3) unfolding quiet_def moved_def by (metis UnCI)
qed

text \<open>One step of either loop, followed by the rest of the loop.\<close>

lemma triple_moved_loop:
  assumes "n \<notin> N" "quiet dr (insert n N) k0"
    and one: "triple fl (\<lambda>k. k = k0) m (moved (place dr) fl tgt {collPath dr n} k0)"
    and rest: "\<And>k1. quiet dr N k1 \<Longrightarrow> triple fl (\<lambda>k. k = k1) f (moved (place dr) fl tgt (collPaths dr N) k1)"
  shows "triple fl (\<lambda>k. k = k0) (State_Monad.bind m (\<lambda>r. case r of None \<Rightarrow> f | Some e \<Rightarrow> ret (Some e)))
     (moved (place dr) fl tgt (collPaths dr (insert n N)) k0)"
proof -
  have las: "\<forall>p \<in> {collPath dr n} \<union> collPaths dr N. lasting (place dr) p"
    using lasting_colls [of "insert n N" dr] assms(2) by (simp add: quiet_def)
  have X: "collPaths dr (insert n N) = {collPath dr n} \<union> collPaths dr N" by simp
  show ?thesis
    unfolding X
    apply (rule triple_option [OF one])
     apply (rule triple_at)
    subgoal premises prems for k1
      by (rule triple_post [OF rest [OF quiet_moved [of dr "{n}" N k0 fl tgt]]])
         (use prems moved_seq [OF prems _ _ las] assms(1,2) in simp_all)
    by (rule triple_ret) (use moved_more las in blast)
qed

lemma triple_writeSnaps:
  assumes "list_all cleanComp dr" "distinct names" "\<And>n. n \<in> set names \<Longrightarrow> tgt (collPath dr n) = fmlookup snaps n"
    "\<And>n. n \<in> set names \<Longrightarrow> fmlookup snaps n \<noteq> None" "quiet dr (set names) k0"
  shows "triple fl (\<lambda>k. k = k0) (writeSnaps dr snaps names)
     (moved (place dr) fl tgt (collPaths dr (set names)) k0)"
  using assms(2-)
proof (induction names arbitrary: k0)
  case Nil
  then show ?case by (auto intro!: triple_ret moved_nothing simp: quiet_def)
next
  case (Cons n names)
  obtain data where d: "fmlookup snaps n = Some data" using Cons.prems(3) [of n] by auto
  obtain x where x: "okName n" "possAt k0 (collPath dr n) {x}" and k0: "ok (place dr) k0" "stableBut {} k0"
    using Cons.prems(4) by (auto simp: quiet_def)
  have t: "tgt (collPath dr n) = Some data" using Cons.prems(2) [of n] d by simp
  have rest: "triple fl (\<lambda>k. k = k1) (writeSnaps dr snaps names)
      (moved (place dr) fl tgt (collPaths dr (set names)) k1)" if "quiet dr (set names) k1" for k1
    using Cons.IH [OF _ _ _ that] Cons.prems by simp
  have q: "quiet dr (insert n (set names)) k0" using Cons.prems(4) by simp
  show ?case
    using triple_moved_loop [OF _ q triple_oneSnap [where tgt = tgt and data = data, OF assms(1) x(1) t k0 x(2)] rest] Cons.prems(1) d
    by (simp add: bind_error_assoc)
qed

text \<open>Removing the file of a dropped collection: a missing file is not an error.\<close>

lemma lookup_missing_coll:
  assumes "list_all cleanComp dr" "okName n" "ok (place dr) k" "fmlookup (ents k) (collPath dr n) = None"
  shows "lookupNode k (collPath dr n) = Inl ENOENT"
proof -
  have h: "hyg k" and al: "allowed (place dr) k" using assms(3) by (simp_all add: ok_def)
  obtain e where e: "lookupNode k (collPath dr n) = Inl e"
    by (rule lookupNode_cases [OF h, of "collPath dr n"]) (use assms(4) in auto)
  have "fmlookup (ents k) q \<noteq> Some (FileN i)" if "strict_prefix q (collPath dr n)" for q i
  proof (cases "q = []")
    case False
    then show ?thesis
      using dirsOnly_coll [OF assms(2,1)] that allowed_ents [OF h al]
      by (auto simp: dirsOnly_def strict_prefix_collPath)
  qed (simp add: hyg_root [OF h])
  then show ?thesis using lookupNode_ENOENT [OF e] e by blast
qed

lemma triple_removeColl_missing:
  assumes "list_all cleanComp dr" "okName n" "tgt (collPath dr n) = None"
    and k0: "ok (place dr) k0" "stableBut {} k0" "possAt k0 (collPath dr n) {x}"
      "fmlookup (ents k0) (collPath dr n) = None"
  shows "triple fl (\<lambda>k. k = k0) (removeColl dr n) (moved (place dr) fl tgt {collPath dr n} k0)"
proof -
  let ?p = "collPath dr n"
  have h: "hyg k0" using k0(1) by (simp add: ok_def)
  have "x = None" using possAt_current(2) [OF h k0(3)] k0(4) by (simp add: fileAt_def)
  then have P: "possAt k0 ?p {None}" using k0(3) by simp
  have none: "moved (place dr) fl tgt {?p} k0 None k0" using k0 P assms(3) by (simp add: moved_def)
  have err: "moved (place dr) fl tgt {?p} k0 (Some e) k0" if "fl" for e
    using that k0(1) possAt_mono by (fastforce simp: moved_def)
  have r: "triple fl (\<lambda>k. k = k0) (sysRemove ?p)
      (\<lambda>r k. k = k0 \<and> (r = Inl ENOENT \<or> (\<exists>e. r = Inl e \<and> fl \<and> e \<noteq> ENOENT)))"
    unfolding sysRemove_def
    by (rule triple_syscall) (use lookup_missing_coll [OF assms(1,2) k0(1,4)] in \<open>auto simp: okFault_def\<close>)
  show ?thesis
    unfolding removeColl_def
    by (rule triple_sum [OF r]) (auto intro!: triple_ret none err simp: triple_def [of _ "\<lambda>_. False"])
qed

lemma triple_removeColl_file:
  assumes "tgt (collPath dr n) = None" "fmlookup (ents k0) (collPath dr n) = Some (FileN i)"
    and k0: "ok (place dr) k0" "stableBut {} k0"
  shows "triple fl (\<lambda>k. k = k0) (removeColl dr n) (moved (place dr) fl tgt {collPath dr n} k0)"
proof -
  let ?p = "collPath dr n" and ?T = "place dr"
  let ?k = "setEntry ?p None k0"
  have h0: "hyg k0" using k0(1) by (simp add: ok_def)
  note f = assms(2)
  have h: "hyg ?k" and o: "ok ?T ?k" and s: "stableBut {} ?k" and k: "keeps ?T {?p} k0 ?k"
    and e: "fmlookup (ents ?k) ?p = None"
    using hyg_remove [OF h0 f] allowed_remove [OF h0, of ?T ?p] stableBut_remove [OF h0 f k0(2)]
      keeps_remove [OF h0 f, of "{?p}" ?T] k0(1)
    by (simp_all add: ok_def setEntry_None)
  have dir: "isDir ?k (butlast ?p)"
    using hyg_parent [OF h0, of "butlast ?p" "last ?p"] f
    by (auto simp: isDir_def setEntry_None simp del: butlast_collPath last_collPath)
  have P: "possAt ?k ?p {y, None}" if "possAt k0 ?p {y}" for y
    using possAt_remove [OF h0 f that] by simp
  have F: "ok ?T (flushDir (butlast ?p) ?k)" "keeps ?T {?p} k0 (flushDir (butlast ?p) ?k)"
    "stableBut {} (flushDir (butlast ?p) ?k)" "possAt (flushDir (butlast ?p) ?k) ?p {None}"
    using ok_flushDir [OF o] keeps_trans [OF k keeps_flushDir [OF h]]
      stableBut_flushDir [OF h s, of "butlast ?p"] possAt_flushDir_absent [OF _ e] by simp_all
  have r: "triple fl (\<lambda>k. k = k0) (sysRemove ?p)
      (\<lambda>r k. r = Inr () \<and> k = ?k \<or> (\<exists>e. r = Inl e \<and> fl \<and> e \<noteq> ENOENT) \<and> k = k0)"
    unfolding sysRemove_def
    by (rule triple_syscall) (use lookupNode_Some [OF h0 f] in \<open>auto simp: okFault_def\<close>)
  have err: "moved ?T fl tgt {?p} k0 (Some e) k0" if "fl" for e
    using that k0(1) possAt_mono by (fastforce simp: moved_def)
  have sync: "triple fl (\<lambda>k. k = ?k) (SyncDir (butlast ?p)) (moved ?T fl tgt {?p} k0)"
    by (rule triple_post [OF triple_SyncDir [OF h dir]])
       (use F o k P possAt_mono [OF F(4)] assms(1) in \<open>auto simp: moved_def split: if_splits\<close>)
  show ?thesis
    unfolding removeColl_def
    apply (rule triple_sum [OF r])
     apply (auto intro!: triple_ret err simp: triple_def [of _ "\<lambda>_. False"])[1]
    by (rule triple_pre [OF sync]) simp
qed

lemma triple_removeDropped:
  assumes "list_all cleanComp dr" "distinct names" "\<And>n. n \<in> set names \<Longrightarrow> tgt (collPath dr n) = None"
    "quiet dr (set names) k0"
  shows "triple fl (\<lambda>k. k = k0) (removeDropped dr names)
     (moved (place dr) fl tgt (collPaths dr (set names)) k0)"
  using assms(2-)
proof (induction names arbitrary: k0)
  case Nil
  then show ?case by (auto intro!: triple_ret moved_nothing simp: quiet_def)
next
  case (Cons n names)
  obtain x where x: "okName n" "possAt k0 (collPath dr n) {x}" and k0: "ok (place dr) k0" "stableBut {} k0"
    using Cons.prems(3) by (auto simp: quiet_def)
  have h: "hyg k0" using k0(1) by (simp add: ok_def)
  have t: "tgt (collPath dr n) = None" using Cons.prems(2) [of n] by simp
  have one: "triple fl (\<lambda>k. k = k0) (removeColl dr n) (moved (place dr) fl tgt {collPath dr n} k0)"
  proof (cases "fmlookup (ents k0) (collPath dr n)")
    case None
    then show ?thesis using triple_removeColl_missing [where tgt = tgt, OF assms(1) x(1) t k0 x(2)] by simp
  next
    case (Some nd)
    then obtain i where "fmlookup (ents k0) (collPath dr n) = Some (FileN i)"
      using possAt_current(1) [OF h x(2)] by (cases nd) auto
    then show ?thesis by (rule triple_removeColl_file [where tgt = tgt, OF t _ k0])
  qed
  have rest: "triple fl (\<lambda>k. k = k1) (removeDropped dr names)
      (moved (place dr) fl tgt (collPaths dr (set names)) k1)" if "quiet dr (set names) k1" for k1
    using Cons.IH [OF _ _ that] Cons.prems by simp
  have q: "quiet dr (insert n (set names)) k0" using Cons.prems(3) by simp
  show ?case
    using triple_moved_loop [OF _ q one rest] Cons.prems(1) by simp
qed


subsection \<open>The whole snapshot\<close>

lemma triple_getOrder: "triple fl P (getOrder s) (\<lambda>xs k. P k \<and> set xs = fset s \<and> distinct xs)"
  by (auto simp: triple_def getOrder_def env_def)

abbreviation walPath :: "path \<Rightarrow> path" where
  "walPath dr \<equiv> dr @ [walName]"

definition collTgt :: "path \<Rightarrow> colls \<Rightarrow> path \<Rightarrow> bytes option" where
  "collTgt dr cs p = snapOf cs (relName (drop (length dr) p))"

lemma collTgt_coll [simp]: "collTgt dr cs (collPath dr n) = snapOf cs n"
  by (simp add: collTgt_def collPath_def relName_collPath)

text \<open>All snapshot files are in place; the log is emptied.\<close>

definition emptied :: "path \<Rightarrow> bool \<Rightarrow> path set \<Rightarrow> ino \<Rightarrow> bytes \<Rightarrow> disk \<Rightarrow> (path \<Rightarrow> bytes option) \<Rightarrow>
    error option \<Rightarrow> disk \<Rightarrow> bool" where
  "emptied dr fl X lg c k0 tgt r k \<longleftrightarrow> ok (place dr) k \<and> keeps (place dr) (insert (walPath dr) X) k0 k \<and>
     (\<forall>p \<in> X. possAt k p {tgt p}) \<and>
     (if r = None then stableBut {} k \<and> pinned k (walPath dr) lg \<and> possAt k (walPath dr) {Some []}
      else fl \<and> possAt k (walPath dr) {Some c, Some []})"

lemma triple_emptyLog:
  assumes k1: "moved (place dr) fl tgt X k0 None k1" "walPath dr \<notin> X" "\<forall>p \<in> X. lasting (place dr) p"
    and k0: "pinned k0 (walPath dr) lg" "possAt k0 (walPath dr) {Some c}"
  shows "triple fl (\<lambda>k. k = k1) (sysTruncate lg 0) (\<lambda>r k.
      r = Inr () \<and> emptied dr True X lg c k0 tgt (Some e0) k \<and>
        emptied dr fl X lg c k0 tgt None (flushFile lg k) \<or>
      (\<exists>e. r = Inl e) \<and> fl \<and> k = k1 \<and> emptied dr fl X lg c k0 tgt (Some e0) k1)"
proof -
  let ?w = "walPath dr" and ?T = "place dr"
  have h: "hyg k1" and o: "ok ?T k1" and s: "stableBut {} k1" and kp: "keeps ?T X k0 k1"
    and X: "\<forall>p \<in> X. possAt k1 p {tgt p}"
    using k1(1) by (simp_all add: moved_def ok_def)
  have wl: "\<not> isTmp (last ?w)" "\<not> ?T ?w DirN" by (simp_all add: not_dir_place)
  have pin: "pinned k1 ?w lg" and P: "possAt k1 ?w {Some c}"
    using keeps_pinned [OF kp k0(1) k1(2) wl] keeps_poss [OF kp k0(2) k1(2) wl] .
  have f: "fmlookup (ents k1) ?w = Some (FileN lg)" by (rule pinned_ents [OF h pin])
  let ?k = "setContent lg [] [] k1"
  have kk: "keeps ?T {?w} k1 ?k" by (rule keeps_setContent [OF h f]) simp
  have h2: "hyg ?k" by (rule hyg_setContent [OF h])
  have X2: "possAt ?k p {tgt p}" if "p \<in> X" for p
    using keeps_poss [OF kk] X k1(2,3) that by (auto simp: lasting_def)
  have K: "keeps ?T (insert ?w X) k0 ?k"
    using keeps_trans [OF keeps_mono [OF kp] keeps_mono [OF kk]] by auto
  have st: "stableDir k1 (butlast ?w)" using P by (simp add: possAt_def)
  have e1: "emptied dr True X lg c k0 tgt (Some e0) ?k"
    using o h2 K X2 possAt_setContent [OF P, of "[]" "[]"] by (simp add: emptied_def ok_def)
  have "keeps ?T (insert ?w X) k0 (flushFile lg ?k)" by (rule keeps_trans [OF K keeps_flushFile [OF h2]])
  moreover have "possAt (flushFile lg ?k) ?w {Some []}"
    using possAt_pinned [of ?k ?w lg] pin st by simp
  ultimately have e2: "emptied dr fl X lg c k0 tgt None (flushFile lg ?k)"
    using o hyg_flushFile [OF h2] possAt_flushFile [OF h2 X2] s pin by (simp add: emptied_def ok_def)
  have e3: "emptied dr fl X lg c k0 tgt (Some e0) k1" if fl
    using that o keeps_mono [OF kp] X possAt_mono [OF P] by (auto simp: emptied_def)
  show ?thesis
    by (rule triple_post [OF triple_sysTruncate]) (use e1 e2 e3 in auto)
qed

text \<open>
  The outcome of \<open>writeSnapshot\<close> for a handle \<open>d\<close>, from a disk \<open>k0\<close> on which the log
  holds \<open>c\<close>.
\<close>

definition snapshotted :: "bool \<Rightarrow> db \<Rightarrow> disk \<Rightarrow> bytes \<Rightarrow> error option \<times> db \<Rightarrow> disk \<Rightarrow> bool" where
  "snapshotted fl d k0 c rd k \<longleftrightarrow>
     (let X = collPaths (dir d) (fset (dirty d)); tgt = collTgt (dir d) (colls d); w = walPath (dir d) in
      rd = (None, d) \<and> dirty d = {||} \<and> logSize d = 0 \<and> k = k0 \<or>
      rd = (None, d\<lparr>dirty := {||}, logSize := 0\<rparr>) \<and> emptied (dir d) fl X (log d) c k0 tgt None k \<or>
      (\<exists>e. rd = (Some e, d\<lparr>dirty := {||}\<rparr>) \<and>
        (moved (place (dir d)) fl tgt X k0 (Some e) k \<or> emptied (dir d) fl X (log d) c k0 tgt (Some e) k)))"


lemma emptied_err: "emptied dr True X lg c k0 tgt (Some e) k \<Longrightarrow> fl \<Longrightarrow> emptied dr fl X lg c k0 tgt (Some e') k"
  by (simp add: emptied_def)

lemma triple_logReset:
  assumes "moved (place (dir d)) fl (collTgt (dir d) (colls d)) (collPaths (dir d) (fset (dirty d))) k0 None k1"
    "\<forall>p \<in> collPaths (dir d) (fset (dirty d)). lasting (place (dir d)) p"
    "pinned k0 (walPath (dir d)) (log d)" "possAt k0 (walPath (dir d)) {Some c}"
  shows "triple fl (\<lambda>k. k = k1) (State_Monad.bind (sysTruncate (log d) 0) (\<lambda>t. case t of
        Inl e \<Rightarrow> ret (Some (ErrSys e), d\<lparr>dirty := {||}\<rparr>)
      | Inr _ \<Rightarrow> State_Monad.bind (sysFsync (log d)) (\<lambda>s. case s of
            Inl e \<Rightarrow> ret (Some (ErrSys e), d\<lparr>dirty := {||}\<rparr>)
          | Inr _ \<Rightarrow> ret (None, d\<lparr>dirty := {||}\<rparr>\<lparr>logSize := 0\<rparr>)))) (snapshotted fl d k0 c)"
proof -
  have wX: "walPath (dir d) \<notin> collPaths (dir d) (fset (dirty d))" by (auto simp: collPaths_def)
  show ?thesis
    apply (rule triple_sum [OF triple_emptyLog [where ?e0.0 = "ErrSys EIO", OF assms(1) wX assms(2-4)]])
     apply (rule triple_ret)
     apply (auto simp: snapshotted_def emptied_def)[1]
    apply (rule triple_at)
    apply (rule triple_sum [OF triple_sysFsync])
     apply (rule triple_ret)
     apply (use emptied_err in \<open>fastforce simp: snapshotted_def\<close>)[1]
    by (rule triple_ret) (auto simp: snapshotted_def)
qed

text \<open>The two loops together move every dirty file.\<close>

lemma moved_union:
  assumes "quiet dr (M \<union> N) k0" "M \<inter> N = {}" "moved (place dr) fl tgt (collPaths dr M) k0 None k1"
    "moved (place dr) fl tgt (collPaths dr N) k1 r k2"
  shows "moved (place dr) fl tgt (collPaths dr (M \<union> N)) k0 r k2"
proof -
  have "\<forall>p \<in> collPaths dr M \<union> collPaths dr N. lasting (place dr) p"
    using lasting_colls [of "M \<union> N" dr] assms(1) by (simp add: quiet_def)
  moreover have "collPaths dr M \<inter> collPaths dr N = {}"
    using assms(2) by (auto simp: collPaths_def dest: collPath_inj)
  ultimately show ?thesis using moved_seq [OF assms(3,4)] by simp
qed

lemma triple_writeSnapshot:
  assumes "list_all cleanComp (dir d)" "collsOK (colls d)" "quiet (dir d) (fset (dirty d)) k0"
    and k0: "pinned k0 (walPath (dir d)) (log d)" "possAt k0 (walPath (dir d)) {Some c}"
  shows "triple fl (\<lambda>k. k = k0) (writeSnapshot None d) (snapshotted fl d k0 c)"
proof (cases "dirty d = {||} \<and> logSize d = 0")
  case True
  then show ?thesis by (auto simp: writeSnapshot_def snapshotted_def intro!: triple_ret)
next
  case False
  let ?dr = "dir d" and ?N = "fset (dirty d)"
  let ?T = "place ?dr" and ?X = "collPaths ?dr ?N" and ?tgt = "collTgt ?dr (colls d)"
  have las: "\<forall>p \<in> ?X. lasting ?T p"
    using assms(3) lasting_colls [of ?N ?dr] by (auto simp: quiet_def)
  have err: "triple fl (moved ?T fl ?tgt ?X k0 (Some e)) (ret (Some e, d\<lparr>dirty := {||}\<rparr>)) (snapshotted fl d k0 c)" for e
    by (rule triple_ret) (auto simp: snapshotted_def)
  note reset = triple_logReset [where d = d, OF _ las k0]
  show ?thesis
    apply (simp only: writeSnapshot_def Let_def False if_False simp_thms)
    apply (rule triple_bind [OF triple_getOrder])
    subgoal for names
    proof (rule triple_assume [where A = "set names = ?N \<and> distinct names"], simp)
      assume names: "set names = ?N \<and> distinct names"
      obtain snaps dropped where cs': "collectSnaps (colls d) names fmempty [] = Inr (snaps, dropped) \<and>
        (\<forall>n. fmlookup snaps n = (if n \<in> set names \<and> fmlookup (colls d) n \<noteq> None then snapOf (colls d) n
           else fmlookup fmempty n)) \<and> dropped = [] @ filter (\<lambda>n. fmlookup (colls d) n = None) names"
        using collectSnaps_ok [OF assms(2), of names fmempty "[]"] by blast
      have cs: "collectSnaps (colls d) names fmempty [] = Inr (snaps, dropped)"
        "fmlookup snaps n = (if n \<in> ?N \<and> fmlookup (colls d) n \<noteq> None then snapOf (colls d) n else None)"
        "dropped = filter (\<lambda>n. fmlookup (colls d) n = None) names" for n
        using cs' names by auto
      have N: "fset (fmdom snaps) \<union> set dropped = ?N" "fset (fmdom snaps) \<inter> set dropped = {}"
        using names cs(2,3) by (auto simp: fmlookup_dom_iff snapOf_def split: if_splits)
      have q: "quiet ?dr (fset (fmdom snaps) \<union> set dropped) k0" using assms(3) N(1) by simp
      have tg: "?tgt (collPath ?dr n) = fmlookup snaps n" "fmlookup snaps n \<noteq> None" if "n |\<in>| fmdom snaps" for n
        using that cs(2) [of n] by (auto simp: fmlookup_dom_iff split: if_splits)
      have td: "?tgt (collPath ?dr n) = None" if "n \<in> set dropped" for n
        using that cs(3) by (simp add: snapOf_def)
      have drop: "triple fl (\<lambda>k. k = k1) (removeDropped ?dr dropped) (\<lambda>r. moved ?T fl ?tgt ?X k0 r)"
        if "moved ?T fl ?tgt (collPaths ?dr (fset (fmdom snaps))) k0 None k1" for k1
      proof -
        have "distinct dropped" using names cs(3) by simp
        from triple_removeDropped [where tgt = ?tgt, OF assms(1) this td quiet_moved [OF q N(2) that]]
        show ?thesis by (rule triple_post) (assumption, rule moved_union [OF q N(2) that, unfolded N(1)])
      qed
      have more: "moved ?T fl ?tgt ?X k0 (Some e) k"
        if "moved ?T fl ?tgt (collPaths ?dr (fset (fmdom snaps))) k0 (Some e) k" for e k
        using moved_more [OF that, of "collPaths ?dr (set dropped)"] las N(1)
        by (metis UnCI collPaths_simps(4))
      have ws: "triple fl (\<lambda>k. k = k0) (writeSnaps ?dr snaps order)
          (moved ?T fl ?tgt (collPaths ?dr (fset (fmdom snaps))) k0)"
        if "set order = fset (fmdom snaps)" "distinct order" for order
        using triple_writeSnaps [OF assms(1) that(2), of ?tgt snaps k0 fl] that(1) tg quiet_mono [OF q] by auto
      show ?thesis
        apply (simp only: cs(1) sum.case prod.case)
        apply (rule triple_bind [OF triple_getOrder])
        subgoal for order
          apply (rule triple_assume [where A = "set order = fset (fmdom snaps) \<and> distinct order"], simp)
          apply (rule triple_option [OF triple_pre [OF ws]], simp, simp, simp)
           apply (rule triple_at)
           apply (rule triple_option [OF drop], assumption)
            apply (rule triple_at, rule reset, assumption)
           apply (rule err)
          by (rule triple_pre [OF err more])
        done
    qed
    done
qed

end
