(* ===== verification/Wal_Facts.thy ===== *)
theory Wal_Facts
  imports Snapshot_Facts
begin

text \<open>
  The log as a sequence of lines: replaying the encoding of records followed by an incomplete line
  applies exactly those records, every prefix of an encoded batch is such a sequence, and
  \<open>writeLog\<close> extends the log by its batch, leaving a prefix of it when a system call fails.
\<close>

subsection \<open>Encoding\<close>

definition encRec :: "wal_record \<Rightarrow> bytes" where
  "encRec r = (case marshalRecord r of Inl _ \<Rightarrow> [] | Inr b \<Rightarrow> b)"

definition encLog :: "wal_record list \<Rightarrow> bytes" where
  "encLog rs = logBuf (map encRec rs)"

lemma encRec:
  assumes "recOK r"
  shows "marshalRecord r = Inr (encRec r)" "unmarshalRecord (encRec r) = Inr r" "nl \<notin> set (encRec r)"
  using marshalRecord_roundtrip [OF assms] by (metis encRec_def sum.simps(6))+

lemma encLog_simps [simp]:
  "encLog [] = []" "encLog (r # rs) = encRec r @ nl # encLog rs" "encLog (rs @ ss) = encLog rs @ encLog ss"
  by (simp_all add: encLog_def logBuf_def)

lemma cutLine_append: "nl \<notin> set l \<Longrightarrow> cutLine (l @ nl # r) = Some (l, r)"
  by (induction l) auto

lemma cutLine_None: "cutLine s = None \<longleftrightarrow> nl \<notin> set s"
  by (induction s) auto

lemma recOK_set_doc: "recOK r \<Longrightarrow> Op r = opSet \<Longrightarrow> Doc r \<noteq> []"
  using canon_nonempty by (auto simp: recOK_def)

text \<open>Replaying an encoded log with an incomplete last line.\<close>

lemma replayLoop_encLog:
  assumes "\<forall>r \<in> set rs. recOK r" "nl \<notin> set t"
  shows "replayLoop n (encLog rs @ t) sz d = Inr (sz + length (encLog rs), applyAll rs d)"
  using assms(1)
proof (induction rs arbitrary: n sz d)
  case Nil
  then show ?case using assms(2) by (subst replayLoop.simps) (simp add: cutLine_None [THEN iffD2])
next
  case (Cons r rs)
  then have r: "recOK r" by simp
  have v: "validName (Coll r)" using r by (simp add: recOK_def)
  have "\<not> (Op r = opSet \<and> length (Doc r) = 0)" using recOK_set_doc [OF r] by auto
  then show ?case
    using Cons v encRec [OF r]
    by (subst replayLoop.simps) (simp add: cutLine_append)
qed

text \<open>A prefix of an encoded batch is some of its records and a piece of the next line.\<close>

lemma encLog_prefix:
  assumes "\<forall>r \<in> set rs. recOK r"
  shows "\<exists>j t. j \<le> length rs \<and> take n (encLog rs) = encLog (take j rs) @ t \<and> nl \<notin> set t"
  using assms
proof (induction rs arbitrary: n)
  case (Cons r rs)
  show ?case
  proof (cases "n \<le> length (encRec r)")
    case True
    then have "take n (encLog (r # rs)) = encLog (take 0 (r # rs)) @ take n (encRec r)" by simp
    moreover have "nl \<notin> set (take n (encRec r))"
      using encRec(3) [of r] Cons.prems by (auto dest: in_set_takeD)
    ultimately show ?thesis by blast
  next
    case False
    then obtain q where n: "n = Suc (length (encRec r)) + q" by (metis not_less_eq_eq le_iff_add)
    obtain j t where j: "j \<le> length rs" "take q (encLog rs) = encLog (take j rs) @ t" "nl \<notin> set t"
      using Cons.IH [of q] Cons.prems by auto
    have "take n (encLog (r # rs)) = encLog (take (Suc j) (r # rs)) @ t"
      using n j(2) by simp
    then show ?thesis using j by (metis Suc_le_mono length_Cons)
  qed
qed simp

subsection \<open>Appending to the log\<close>

definition appended :: "path \<Rightarrow> bool \<Rightarrow> ino \<Rightarrow> bytes \<Rightarrow> bytes \<Rightarrow> disk \<Rightarrow> error option \<Rightarrow> disk \<Rightarrow> bool" where
  "appended dr fl lg c buf k0 r k \<longleftrightarrow> ok (place dr) k \<and> keeps (place dr) {walPath dr} k0 k \<and>
     (if r = None then stableBut {} k \<and> pinned k (walPath dr) lg \<and> possAt k (walPath dr) {Some (c @ buf)}
      else fl \<and> possAt k (walPath dr) (Some ` {c @ take n buf | n. True}))"

lemma appendFile_possAt:
  assumes "possAt k p {Some c}" "content k i = c"
  shows "possAt (appendFile i b k) p (Some ` {c @ take n b | n. True})"
  unfolding appendFile_def
proof (rule possAt_setContent [OF assms(1)])
  have "c \<in> {c @ take n b | n. True}" by (auto intro: exI [of _ 0])
  then show "{Some c} \<subseteq> Some ` {c @ take n b | n. True}" by blast
  have "c @ b \<in> {c @ take n b | n. True}" by (auto intro: exI [of _ "length b"])
  then show "Some ` set ((content k i @ b) # map (\<lambda>n. content k i @ take n b) [0..<length b])
      \<subseteq> Some ` {c @ take n b | n. True}"
    using assms(2) by auto
qed

lemma appendFile_kept:
  assumes "ok (place dr) k0" "pinned k0 (walPath dr) lg" "possAt k0 (walPath dr) {Some c}"
  shows "ok (place dr) (appendFile lg b k0)" "keeps (place dr) {walPath dr} k0 (appendFile lg b k0)"
    "possAt (appendFile lg b k0) (walPath dr) (Some ` {c @ take n b | n. True})"
    "content (appendFile lg b k0) lg = c @ b" "pinned (appendFile lg b k0) (walPath dr) lg"
proof -
  have h: "hyg k0" and al: "allowed (place dr) k0" using assms(1) by (simp_all add: ok_def)
  have f: "fmlookup (ents k0) (walPath dr) = Some (FileN lg)" by (rule pinned_ents [OF h assms(2)])
  have c: "content k0 lg = c" using possAt_current(2) [OF h assms(3)] f by (simp add: fileAt_def)
  show "ok (place dr) (appendFile lg b k0)"
    using hyg_setContent [OF h] al by (simp add: ok_def appendFile_def)
  show "keeps (place dr) {walPath dr} k0 (appendFile lg b k0)"
    unfolding appendFile_def by (rule keeps_setContent [OF h f]) simp
  show "possAt (appendFile lg b k0) (walPath dr) (Some ` {c @ take n b | n. True})"
    by (rule appendFile_possAt [OF assms(3) c])
  show "content (appendFile lg b k0) lg = c @ b" using c by simp
  show "pinned (appendFile lg b k0) (walPath dr) lg" using assms(2) by (simp add: appendFile_def)
qed

lemma stableDir_append [simp]: "stableDir (appendFile i b k) D = stableDir k D"
  by (simp add: appendFile_def)

lemma triple_append:
  assumes k0: "ok (place dr) k0" "stableBut {} k0" "pinned k0 (walPath dr) lg" "possAt k0 (walPath dr) {Some c}"
  shows "triple fl (\<lambda>k. k = k0) (State_Monad.bind (sysWrite lg buf) (\<lambda>w. case w of Inl e \<Rightarrow> ret (f e)
      | Inr _ \<Rightarrow> State_Monad.bind (sysFsync lg) (\<lambda>s. case s of Inl e \<Rightarrow> ret (f e) | Inr _ \<Rightarrow> ret g)))
     (\<lambda>r k. r = g \<and> appended dr fl lg c buf k0 None k \<or>
        (\<exists>e e'. r = f e \<and> appended dr fl lg c buf k0 (Some e') k))"
proof -
  note A = appendFile_kept [OF k0(1,3,4)]
  have sub: "{c @ take n (take m buf) | n. True} \<subseteq> {c @ take n buf | n. True}" for m
    by (auto simp: take_take)
  have err: "appended dr fl lg c buf k0 (Some e) (appendFile lg (take m buf) k0)" if fl for m e
    using that A(1,2) possAt_mono [OF A(3) image_mono [OF sub]] by (simp add: appended_def)
  let ?k = "flushFile lg (appendFile lg buf k0)"
  have h: "hyg (appendFile lg buf k0)" using A(1) by (simp add: ok_def)
  have st: "stableDir (appendFile lg buf k0) (butlast (walPath dr))" using k0(4) by (simp add: possAt_def)
  have ok: "appended dr fl lg c buf k0 None ?k"
    using A(1) hyg_flushFile [OF h] keeps_trans [OF A(2) keeps_flushFile [OF h]] k0(2) A(5)
      possAt_pinned [OF A(5) st] A(4) by (simp add: appended_def ok_def)
  show ?thesis
    apply (rule triple_sum [OF triple_sysWrite])
     apply (rule triple_ret, use err in blast)
    apply (rule triple_pre [where P' = "\<lambda>k. k = appendFile lg buf k0"])
     apply (rule triple_sum [OF triple_sysFsync])
      apply (rule triple_ret, use err [of _ "length buf"] in force)
     apply (rule triple_ret, use ok in simp)
    by simp
qed

text \<open>
  \<open>writeLog\<close>.  With nothing queued, or with an error that sticks, it does not touch the disk;
  in either case the waiting group learns the outcome.
\<close>

definition logged :: "bool \<Rightarrow> error option \<Rightarrow> db \<Rightarrow> disk \<Rightarrow> bytes \<Rightarrow> error option \<times> db \<Rightarrow> disk \<Rightarrow> bool" where
  "logged fl err d k0 c rd k \<longleftrightarrow> (case commit d of
     None \<Rightarrow> rd = (err, d\<lparr>pending := [], commit := None\<rparr>) \<and> k = k0
   | Some cid \<Rightarrow>
       if err = None \<and> pending d \<noteq> [] then
         appended (dir d) fl (log d) c (logBuf (pending d)) k0 (fst rd) k \<and>
         snd rd = d\<lparr>pending := [], commit := None,
           logSize := (if fst rd = None then logSize d + int (length (logBuf (pending d))) else logSize d),
           results := fmupd cid (fst rd) (results d)\<rparr>
       else rd = (err, d\<lparr>pending := [], commit := None, results := fmupd cid err (results d)\<rparr>) \<and> k = k0)"

lemma triple_writeLog:
  assumes "err = None \<longrightarrow> ok (place (dir d)) k0 \<and> stableBut {} k0 \<and> pinned k0 (walPath (dir d)) (log d) \<and>
    possAt k0 (walPath (dir d)) {Some c}"
  shows "triple fl (\<lambda>k. k = k0) (writeLog err d) (logged fl err d k0 c)"
proof (cases "commit d")
  case None
  then show ?thesis by (auto simp: writeLog_def logged_def intro!: triple_ret)
next
  case (Some cid)
  show ?thesis
  proof (cases "err = None \<and> pending d \<noteq> []")
    case True
    then have k0: "ok (place (dir d)) k0" "stableBut {} k0" "pinned k0 (walPath (dir d)) (log d)"
      "possAt k0 (walPath (dir d)) {Some c}" using assms by simp_all
    show ?thesis
      using True unfolding writeLog_def Let_def
      apply (simp add: Some del: bind_assoc)
      apply (rule triple_bind [OF triple_append [OF k0]])
      by (auto intro!: triple_ret simp: logged_def Some appended_def split: prod.splits)
  next
    case False
    then show ?thesis by (auto simp: writeLog_def logged_def Some intro!: triple_ret)
  qed
qed

end
