(* ===== verification/Recovery.thy ===== *)
theory Recovery
  imports Wal_Facts
begin

text \<open>
  What \<open>Open\<close> reads back: \<open>load\<close> finds the snapshot of every collection, \<open>replayLog\<close>
  applies the complete lines of the log and cuts off a torn one, and the snapshot \<open>Open\<close> then
  takes leaves an empty log.
\<close>

subsection \<open>Loading snapshots\<close>

lemma split_slash_noslash: "CHR ''/'' \<notin> set s \<Longrightarrow> split_slash s = [s]"
  by (induction s) auto

lemma split_slash_cons: "CHR ''/'' \<notin> set s \<Longrightarrow> split_slash (s @ CHR ''/'' # t) = s # split_slash t"
  by (induction s) auto

lemma split_join_slash: "q \<noteq> [] \<Longrightarrow> list_all cleanComp q \<Longrightarrow> split_slash (join_slash q) = q"
  by (induction q rule: join_slash.induct) (auto simp: cleanComp_def split_slash_noslash split_slash_cons)

lemma last_join_slash: "q \<noteq> [] \<Longrightarrow> suffix (last q) (join_slash q)"
  by (induction q rule: join_slash.induct) (auto intro: suffix_order.trans simp: suffix_ConsI suffix_appendI)

lemma entry_clean:
  assumes "ok (place dr) k" "fmlookup (ents k) p = Some n"
  shows "list_all cleanComp p"
proof -
  have h: "hyg k" and al: "allowed (place dr) k" using assms(1) by (simp_all add: ok_def)
  have "cleanComp c" if "p = q @ [c] @ r" for q c r
  proof -
    have "fmlookup (ents k) (q @ [c]) \<noteq> None"
    proof (cases "r = []")
      case False
      then have "strict_prefix (q @ [c]) p" using that by (auto simp: strict_prefix_def)
      then show ?thesis using hyg_above [OF h, of p "q @ [c]"] assms(2) by simp
    qed (use assms(2) that in simp)
    then show ?thesis using allowed_ents [OF h al, of "q @ [c]"] by (auto simp: place_def)
  qed
  then show ?thesis by (metis append_Cons append_Nil in_set_conv_decomp list_all_iff)
qed

text \<open>The entries \<open>load\<close> reads are exactly the snapshot files of valid names.\<close>

lemma snapshot_entry:
  assumes "list_all cleanComp q" "suffix jsonExt (last q)" "q \<noteq> []" "validName (relName q)"
  shows "dr @ q = collPath dr (relName q)"
proof -
  have "suffix jsonExt (join_slash q)"
    using suffix_order.trans [OF assms(2) last_join_slash [OF assms(3)]] .
  then obtain s where s: "join_slash q = s @ jsonExt" by (auto simp: suffix_def)
  then have "relName q @ jsonExt = join_slash q" by (simp add: relName_def trimSuffix_def suffix_def)
  then show ?thesis using split_join_slash [OF assms(3,1)] by (simp add: collPath_def)
qed

definition decoded :: "bytes option \<Rightarrow> docs option" where
  "decoded x = (case x of None \<Rightarrow> None | Some b \<Rightarrow> (case unmarshalDocs b of Inl _ \<Rightarrow> None | Inr m \<Rightarrow> Some m))"

definition decodable :: "path \<Rightarrow> disk \<Rightarrow> bool" where
  "decodable dr k \<longleftrightarrow>
     (\<forall>n b. validName n \<longrightarrow> fileAt k (collPath dr n) = Some b \<longrightarrow> (\<exists>m. unmarshalDocs b = Inr m))"

lemma triple_sysReadFile:
  assumes "hyg k0" "fmlookup (ents k0) p = Some (FileN i)"
  shows "triple fl (\<lambda>k. k = k0) (sysReadFile p)
     (\<lambda>r k. k = k0 \<and> (r = Inr (content k0 i) \<or> (\<exists>e. r = Inl e \<and> fl)))"
  unfolding sysReadFile_def
  by (rule triple_syscall) (use lookupNode_Some [OF assms] in auto)

text \<open>The collections after reading the entries \<open>es\<close>, starting from \<open>cs0\<close>.\<close>

definition loaded :: "path \<Rightarrow> disk \<Rightarrow> (path \<times> node) list \<Rightarrow> colls \<Rightarrow> colls \<Rightarrow> bool" where
  "loaded dr k es cs0 cs \<longleftrightarrow> (\<forall>n. fmlookup cs n =
     (if validName n \<and> (\<exists>i. (collPath dr n, FileN i) \<in> set es) then decoded (fileAt k (collPath dr n))
      else fmlookup cs0 n))"

lemma loaded_skip:
  assumes "loaded dr k es cs0 cs" "\<And>m i. validName m \<Longrightarrow> (collPath dr m, FileN i) \<noteq> e"
  shows "loaded dr k (e # es) cs0 cs"
  using assms by (auto simp: loaded_def)

lemma loaded_read:
  assumes "loaded dr k es (fmupd n m cs0) cs" "validName n" "decoded (fileAt k (collPath dr n)) = Some m"
  shows "loaded dr k ((collPath dr n, FileN i) # es) cs0 cs"
  using assms unfolding loaded_def by (auto dest: collPath_inj)

definition loadPost :: "bool \<Rightarrow> (path \<times> node) list \<Rightarrow> db \<Rightarrow> disk \<Rightarrow> error + db \<Rightarrow> disk \<Rightarrow> bool" where
  "loadPost fl es d k0 r k \<longleftrightarrow> k = k0 \<and> (case r of Inl _ \<Rightarrow> fl
     | Inr d' \<Rightarrow> \<exists>cs. d' = d\<lparr>colls := cs\<rparr> \<and> loaded (dir d) k0 es (colls d) cs)"

lemma loadFiles_skip:
  assumes "n = DirN \<or> \<not> suffix jsonExt (last p) \<or> \<not> validName (relName (drop (length (dir d)) p))"
  shows "loadFiles ((p, n) # es) d = loadFiles es d" "validName m \<Longrightarrow> (collPath (dir d) m, FileN i) \<noteq> (p, n)"
  using assms
  by (auto simp: Let_def collPath_def relName_collPath last_collPath [unfolded collPath_def] suffix_def)

lemma triple_loadFiles:
  assumes "ok (place (dir d)) k0" "decodable (dir d) k0"
    "\<forall>(p, n) \<in> set es. fmlookup (ents k0) p = Some n \<and> prefix (dir d) p"
  shows "triple fl (\<lambda>k. k = k0) (loadFiles es d) (loadPost fl es d k0)"
  using assms
proof (induction es arbitrary: d)
  case Nil
  then show ?case by (auto intro!: triple_ret exI [of _ "colls d"] simp: loadPost_def loaded_def)
next
  case (Cons pn es)
  obtain p n where pn: "pn = (p, n)" by fastforce
  have h: "hyg k0" using Cons.prems(1) by (simp add: ok_def)
  have e: "fmlookup (ents k0) p = Some n" "prefix (dir d) p" using Cons.prems(3) pn by auto
  let ?q = "drop (length (dir d)) p"
  have p: "p = dir d @ ?q" using e(2) by (auto simp: prefix_def)
  have cl: "list_all cleanComp ?q" using entry_clean [OF Cons.prems(1) e(1)] p by (metis list_all_append)
  show ?case
  proof (cases "n = DirN \<or> \<not> suffix jsonExt (last p) \<or> \<not> validName (relName ?q)")
    case True
    have IH: "triple fl (\<lambda>k. k = k0) (loadFiles es d) (loadPost fl es d k0)"
      using Cons.IH [OF Cons.prems(1,2)] Cons.prems(3) by simp
    show ?thesis
      unfolding pn loadFiles_skip(1) [OF True]
      by (rule triple_post [OF IH])
         (use loaded_skip [OF _ loadFiles_skip(2) [OF True]] in \<open>fastforce simp: loadPost_def split: sum.splits\<close>)
  next
    case False
    then obtain i where n: "n = FileN i" by (cases n) auto
    have v: "validName (relName ?q)" using False by simp
    have "relName [] = []" by (simp add: relName_def trimSuffix_def)
    then have "?q \<noteq> []" using v validName_nonempty by metis
    then have lq: "last p = last ?q" by (metis p last_appendR)
    have c: "p = collPath (dir d) (relName ?q)"
      using snapshot_entry [OF cl _ \<open>?q \<noteq> []\<close>, of "dir d"] False p lq by metis
    have fa: "fileAt k0 p = Some (content k0 i)" using e(1) n by (simp add: fileAt_def)
    then obtain m where m: "unmarshalDocs (content k0 i) = Inr m"
      using Cons.prems(2) v c unfolding decodable_def by metis
    let ?d = "d\<lparr>colls := fmupd (relName ?q) m (colls d)\<rparr>"
    have IH: "triple fl (\<lambda>k. k = k0) (loadFiles es ?d) (loadPost fl es ?d k0)"
      using Cons.IH [of ?d] Cons.prems by simp
    have dec: "decoded (fileAt k0 (collPath (dir d) (relName ?q))) = Some m"
      using fa m c by (simp add: decoded_def)
    have rd: "loadPost fl (pn # es) d k0 r k" if "loadPost fl es ?d k0 r k" for r k
      using that loaded_read [OF _ v dec, of es "colls d" _ i] c pn n
      by (cases r) (auto simp: loadPost_def)
    show ?thesis
      using False unfolding pn
      apply (simp add: Let_def)
      apply (rule triple_sum [OF triple_sysReadFile [OF h e(1) [unfolded n]]])
       apply (auto intro!: triple_ret simp: loadPost_def)[1]
      apply (rule triple_assume [where A = "unmarshalDocs _ = Inr m"], use m in simp)
      apply (simp, rule triple_post [OF triple_pre [OF IH]], simp)
      using rd pn by simp
  qed
qed


lemma walkEntries_set:
  assumes "hyg k"
  shows "(p, n) \<in> set (walkEntries k root) \<longleftrightarrow> fmlookup (ents k) p = Some n \<and> prefix root p"
proof -
  have "lookupNode k p = Inr n \<longleftrightarrow> fmlookup (ents k) p = Some n" if "p \<in> fmdom' (ents k)"
    using lookupNode_Some [OF assms] that by (auto simp: fmlookup_dom'_iff)
  then show ?thesis
    by (auto simp: walkEntries_def fmlookup_dom'_iff split: sum.splits if_splits)
qed

text \<open>
  \<open>load\<close>: every file decodes, so it fails only if a system call does, and it returns the
  collections whose encodings are on disk.
\<close>

lemma decoded_snapOf: "collsOK cs \<Longrightarrow> decoded (snapOf cs n) = fmlookup cs n"
  using encDocs(2) by (cases "fmlookup cs n") (auto simp: snapOf_def decoded_def collsOK_def)

lemma triple_load:
  assumes "ok (place (dir d)) k0" "collsOK cs" "colls d = fmempty"
    "\<And>n. validName n \<Longrightarrow> fileAt k0 (collPath (dir d) n) = snapOf cs n"
  shows "triple fl (\<lambda>k. k = k0) (load d) (\<lambda>r k. k = k0 \<and> (case r of Inl _ \<Rightarrow> fl | Inr d' \<Rightarrow> d' = d\<lparr>colls := cs\<rparr>))"
proof -
  let ?es = "walkEntries k0 (dir d)"
  have h: "hyg k0" using assms(1) by (simp add: ok_def)
  have dec: "decodable (dir d) k0"
    using assms(2,4) encDocs(2) by (fastforce simp: decodable_def snapOf_def collsOK_def)
  have walk: "triple fl (\<lambda>k. k = k0) (sysWalkDir (dir d)) (\<lambda>r k. k = k0 \<and> (r = Inr ?es \<or> (\<exists>e. r = Inl e \<and> fl)))"
    unfolding sysWalkDir_def by (rule triple_syscall) auto
  have es: "\<forall>(p, n) \<in> set ?es. fmlookup (ents k0) p = Some n \<and> prefix (dir d) p"
    using walkEntries_set [OF h] by auto
  have eq: "cs' = cs" if l: "loaded (dir d) k0 ?es (colls d) cs'" for cs'
  proof (rule fmap_ext)
    fix n
    show "fmlookup cs' n = fmlookup cs n"
    proof (cases "validName n \<and> fileAt k0 (collPath (dir d) n) \<noteq> None")
      case True
      then obtain i where "fmlookup (ents k0) (collPath (dir d) n) = Some (FileN i)"
        by (auto simp: fileAt_def split: option.splits node.splits)
      then have "(collPath (dir d) n, FileN i) \<in> set ?es"
        using walkEntries_set [OF h] by (simp add: collPath_def)
      then show ?thesis
        using l True assms(4) [of n] decoded_snapOf [OF assms(2), of n] by (auto simp: loaded_def)
    next
      case False
      then have none: "(collPath (dir d) n, FileN i) \<notin> set ?es" if "validName n" for i
        using walkEntries_set [OF h] that by (auto simp: fileAt_def)
      have "snapOf cs n = None" if "validName n" using False assms(4) that by auto
      moreover have "fmlookup cs n = None" if "\<not> validName n"
        using that assms(2) by (cases "fmlookup cs n") (auto simp: collsOK_def okName_def)
      ultimately have "fmlookup cs n = None" by (cases "validName n") (auto simp: snapOf_def)
      then show ?thesis using l none assms(3) by (auto simp: loaded_def)
    qed
  qed
  show ?thesis
    unfolding load_def
    apply (rule triple_sum [OF walk])
     apply (auto intro!: triple_ret)[1]
    subgoal for x
    proof (rule triple_assume [where A = "x = ?es"])
      assume x: "x = ?es"
      show ?thesis
        unfolding x by (rule triple_post [OF triple_pre [OF triple_loadFiles [OF assms(1) dec es]]])
          (use eq in \<open>auto simp: loadPost_def split: sum.splits\<close>)
    qed simp
    done
qed


subsection \<open>Histories\<close>

definition collsAt :: "colls \<Rightarrow> wal_record list \<Rightarrow> colls" where
  "collsAt cs rs = colls (applyAll rs \<lparr>colls = cs, dirty = {||}\<rparr>)"

definition recsOK :: "wal_record list \<Rightarrow> bool" where
  "recsOK rs \<longleftrightarrow> (\<forall>r \<in> set rs. recOK r \<and> okName (Coll r))"

abbreviation seg :: "wal_record list \<Rightarrow> nat \<Rightarrow> nat \<Rightarrow> wal_record list" where
  "seg rs b m \<equiv> take (m - b) (drop b rs)"

lemma cell_applyAll: "cell (colls (applyAll rs d)) c = (case st.last_eff rs c of None \<Rightarrow> cell (colls d) c | Some v \<Rightarrow> v)"
  using st.look_run [of rs d c] by (simp add: run_eq_applyAll)

lemma colls_applyAll: "colls (applyAll rs d) = collsAt (colls d) rs"
  unfolding collsAt_def by (rule colls_eqI) (simp add: cell_applyAll split: option.split)

lemma collsAt_Nil [simp]: "collsAt cs [] = cs"
  by (simp add: collsAt_def)

lemma collsAt_append: "collsAt cs (rs @ ss) = collsAt (collsAt cs rs) ss"
  using colls_applyAll [of ss "applyAll rs \<lparr>colls = cs, dirty = {||}\<rparr>"]
  by (simp add: collsAt_def [of cs])

lemma collsAt_snoc: "collsAt cs (rs @ [r]) = colls (applyRec r \<lparr>colls = collsAt cs rs, dirty = {||}\<rparr>)"
  by (simp add: collsAt_append) (simp add: collsAt_def)

lemma docsOK_upd: "docsOK m \<Longrightarrow> validUTF8 i \<Longrightarrow> canonAt 9999 v \<Longrightarrow> docsOK (fmupd i v m)"
  and docsOK_drop: "docsOK m \<Longrightarrow> docsOK (fmdrop i m)"
  and docsOK_empty: "docsOK fmempty"
  by (auto simp: docsOK_iff)

lemma collsOK_get: "collsOK cs \<Longrightarrow> docsOK (fmget cs n)"
  by (auto simp: collsOK_def fmget_def docsOK_empty split: option.splits)

lemma collsOK_applyRec:
  assumes "collsOK (colls d)" "recOK r" "okName (Coll r)"
  shows "collsOK (colls (applyRec r d))"
proof -
  have g: "docsOK (fmget (colls d) (Coll r))" using assms(1) by (rule collsOK_get)
  show ?thesis
    using assms g
    by (auto simp: applyRec_def collsOK_def recOK_def docsOK_drop intro!: docsOK_upd
        split: option.splits if_splits)
qed

lemma collsOK_collsAt: "collsOK cs \<Longrightarrow> recsOK rs \<Longrightarrow> collsOK (collsAt cs rs)"
proof (induction rs rule: rev_induct)
  case (snoc r rs)
  then show ?case by (simp add: collsAt_snoc recsOK_def collsOK_applyRec)
qed simp

text \<open>
  Snapshots of different ages under one log.  If the file of every collection holds its state after
  some number \<open>j n\<close> of records, at least \<open>b\<close>, then replaying the records from \<open>b\<close> to
  \<open>m\<close> gives, document by document, the state after some number of records that is at least
  \<open>m\<close>.
\<close>

lemma recovered_cell:
  assumes "\<And>n. fmlookup cs' n = fmlookup (collsAt cs (take (j n) rs)) n" "\<And>n. b \<le> j n \<and> j n \<le> length rs"
    "b \<le> m" "m \<le> length rs"
  shows "\<exists>i. m \<le> i \<and> i \<le> length rs \<and> cell (collsAt cs' (seg rs b m)) c = cell (collsAt cs (take i rs)) c"
proof -
  obtain n x where c: "c = (n, x)" by fastforce
  let ?s = "\<lparr>colls = cs, dirty = {||}\<rparr>"
  have e: "cell cs' c = cell (collsAt cs (take (j n) rs)) c"
    using assms(1) [of n] by (simp add: c cell_def fmget_def)
  have "cell (collsAt cs' (seg rs b m)) c = cell (colls (applyAll (seg rs b m) (applyAll (take (j n) rs) ?s))) c"
    using e by (simp add: collsAt_def cell_applyAll split: option.split)
  then have "cell (collsAt cs' (seg rs b m)) c = (if m \<le> j n then
      (case st.last_eff (seg rs b m) c of None \<Rightarrow> cell (collsAt cs (take (j n) rs)) c
       | Some v \<Rightarrow> cell (collsAt cs (take m rs)) c)
      else cell (collsAt cs (take m rs)) c)"
    using st.look_replay_segment [of b "j n" m rs ?s c] assms(2) [of n] assms(3,4)
    by (simp add: run_eq_applyAll collsAt_def split: option.split)
  then show ?thesis using assms(2) [of n] assms(4) by (auto split: if_splits option.splits)
qed

end
