(* ===== verification/Durability.thy ===== *)
theory Durability
  imports Recovery
begin

text \<open>
  The relation between a history of records and the disk.  \<open>rs\<close> are all records accepted since
  the state \<open>cs\<close>; the log holds those from \<open>b\<close> to \<open>m\<close>; the file of every collection
  holds its state after some number of records between \<open>b\<close> and all of them.  While no error has
  occurred this is certain (\<open>diskInv\<close>); after an error the worker does not touch the disk
  again, and whatever comes back after a power loss is such a disk for some \<open>b\<close> and \<open>m\<close>,
  where \<open>m\<close> covers every acknowledged record (\<open>safe\<close>).
\<close>

subsection \<open>Invariants of the disk\<close>

definition snapAt :: "colls \<Rightarrow> wal_record list \<Rightarrow> nat \<Rightarrow> string \<Rightarrow> bytes option" where
  "snapAt cs rs j n = snapOf (collsAt cs (take j rs)) n"

text \<open>The file of collection \<open>n\<close> is as it was after \<open>j\<close> records, current if it is not dirty.\<close>

definition aged :: "path \<Rightarrow> colls \<Rightarrow> wal_record list \<Rightarrow> nat \<Rightarrow> string set \<Rightarrow> disk \<Rightarrow> string \<Rightarrow> nat \<Rightarrow> bool" where
  "aged dr cs rs b D k n j \<longleftrightarrow> b \<le> j \<and> j \<le> length rs \<and> possAt k (collPath dr n) {snapAt cs rs j n} \<and>
     (n \<notin> D \<longrightarrow> snapAt cs rs j n = snapOf (collsAt cs rs) n)"

definition diskInv :: "path \<Rightarrow> ino \<Rightarrow> colls \<Rightarrow> wal_record list \<Rightarrow> nat \<Rightarrow> nat \<Rightarrow> string set \<Rightarrow> disk \<Rightarrow> bool" where
  "diskInv dr lg cs rs b m D k \<longleftrightarrow> ok (place dr) k \<and> stableBut {} k \<and> pinned k (walPath dr) lg \<and>
     b \<le> m \<and> m \<le> length rs \<and> possAt k (walPath dr) {Some (encLog (seg rs b m))} \<and>
     (\<forall>n. validName n \<longrightarrow> (\<exists>j. aged dr cs rs b D k n j))"

text \<open>A log content and ages of the files that fit together.\<close>

definition fits :: "wal_record list \<Rightarrow> nat \<Rightarrow> (string \<Rightarrow> nat set) \<Rightarrow> bytes \<Rightarrow> bool" where
  "fits rs A J c \<longleftrightarrow> (\<exists>b m t. b \<le> m \<and> m \<le> length rs \<and> A \<le> m \<and> nl \<notin> set t \<and>
     c = encLog (seg rs b m) @ t \<and> (\<forall>n. \<forall>j \<in> J n. b \<le> j \<and> j \<le> length rs))"

lemma fitsI:
  assumes "c = encLog (seg rs b m) @ t" "nl \<notin> set t" "b \<le> m" "m \<le> length rs" "A \<le> m"
    "\<And>n j. j \<in> J n \<Longrightarrow> b \<le> j \<and> j \<le> length rs"
  shows "fits rs A J c"
  unfolding fits_def using assms by blast

text \<open>A missing log counts as an empty one: \<open>Open\<close> creates it.\<close>

definition walText :: "bytes option \<Rightarrow> bytes" where
  "walText x = (case x of None \<Rightarrow> [] | Some c \<Rightarrow> c)"

lemma walText_simps [simp]: "walText None = []" "walText (Some c) = c"
  by (simp_all add: walText_def)

definition safe :: "path \<Rightarrow> colls \<Rightarrow> wal_record list \<Rightarrow> nat \<Rightarrow> disk \<Rightarrow> bool" where
  "safe dr cs rs A k \<longleftrightarrow> ok (place dr) k \<and> (\<exists>W J. possAt k (walPath dr) W \<and>
     (\<forall>n. validName n \<longrightarrow> possAt k (collPath dr n) ((\<lambda>j. snapAt cs rs j n) ` J n)) \<and>
     (\<forall>x \<in> W. fits rs A J (walText x)))"

lemma safeI:
  assumes "ok (place dr) k" "possAt k (walPath dr) W"
    "\<And>n. validName n \<Longrightarrow> possAt k (collPath dr n) ((\<lambda>j. snapAt cs rs j n) ` J n)"
    "\<And>x. x \<in> W \<Longrightarrow> fits rs A J (walText x)"
  shows "safe dr cs rs A k"
  unfolding safe_def using assms by blast

lemma diskInv_ages:
  assumes "diskInv dr lg cs rs b m D k"
  obtains j where "\<forall>n. validName n \<longrightarrow> aged dr cs rs b D k n (j n)"
  using assms unfolding diskInv_def by metis

lemma snapAt_all: "snapAt cs rs (length rs) n = snapOf (collsAt cs rs) n"
  by (simp add: snapAt_def)

lemma diskInv_safe:
  assumes "diskInv dr lg cs rs b m D k"
  shows "safe dr cs rs m k"
proof -
  obtain j where j: "\<forall>n. validName n \<longrightarrow> aged dr cs rs b D k n (j n)"
    using diskInv_ages [OF assms] .
  have "fits rs m (\<lambda>n. if validName n then {j n} else {}) (encLog (seg rs b m))"
    by (rule fitsI [where b = b and m = m and t = "[]"])
       (use assms j in \<open>auto simp: diskInv_def aged_def split: if_splits\<close>)
  then show ?thesis
    using assms j
    by (intro safeI [where W = "{Some (encLog (seg rs b m))}" and J = "\<lambda>n. if validName n then {j n} else {}"])
       (auto simp: diskInv_def aged_def)
qed

text \<open>Accepting a record leaves the disk alone and only makes the history longer.\<close>

lemma snapAt_more: "j \<le> length rs \<Longrightarrow> snapAt cs (rs @ [r]) j n = snapAt cs rs j n"
  by (simp add: snapAt_def)

lemma fits_more:
  assumes "fits rs A J c"
  shows "fits (rs @ [r]) A J c"
proof -
  obtain b m t where a: "b \<le> m" "m \<le> length rs" "A \<le> m" "nl \<notin> set t" "c = encLog (seg rs b m) @ t"
    "\<forall>n. \<forall>j \<in> J n. b \<le> j \<and> j \<le> length rs" using assms unfolding fits_def by blast
  then show ?thesis
    by (intro fitsI [where b = b and m = m and t = t]) (auto intro: le_SucI)
qed

lemma safe_more:
  assumes "safe dr cs rs A k"
  shows "safe dr cs (rs @ [r]) A k"
proof -
  obtain W J where WJ: "ok (place dr) k" "possAt k (walPath dr) W"
    "\<And>n. validName n \<Longrightarrow> possAt k (collPath dr n) ((\<lambda>j. snapAt cs rs j n) ` J n)"
    "\<And>x. x \<in> W \<Longrightarrow> fits rs A J (walText x)" using assms unfolding safe_def by metis
  have "W \<noteq> {}" using possAt_current(2) [OF _ WJ(2)] WJ(1) by (auto simp: ok_def)
  then obtain c where "fits rs A J c" using WJ(4) by blast
  then have "\<forall>n. \<forall>j \<in> J n. j \<le> length rs" by (auto simp: fits_def)
  then have "(\<lambda>j. snapAt cs (rs @ [r]) j n) ` J n = (\<lambda>j. snapAt cs rs j n) ` J n" for n
    by (auto simp: snapAt_more intro!: image_cong)
  then show ?thesis using WJ fits_more by (intro safeI [where W = W and J = J]) auto
qed

lemma diskInv_more:
  assumes "diskInv dr lg cs rs b m D k" "D \<subseteq> D'"
    "\<And>n. n \<notin> D' \<Longrightarrow> fmlookup (collsAt cs (rs @ [r])) n = fmlookup (collsAt cs rs) n"
  shows "diskInv dr lg cs (rs @ [r]) b m D' k"
proof -
  obtain j where j: "\<forall>n. validName n \<longrightarrow> aged dr cs rs b D k n (j n)"
    using diskInv_ages [OF assms(1)] .
  have "snapOf (collsAt cs (rs @ [r])) n = snapOf (collsAt cs rs) n" if "n \<notin> D'" for n
    using assms(3) [OF that] by (simp add: snapOf_def)
  then have "aged dr cs (rs @ [r]) b D' k n (j n)" if "validName n" for n
    using j assms(2) that by (auto simp: snapAt_more aged_def)
  then show ?thesis using assms(1) by (auto simp: diskInv_def)
qed


subsection \<open>Snapshots\<close>

lemma lasting_wal: "lasting (place dr) (walPath dr)"
  by (simp add: lasting_def not_dir_place)

lemma diskInv_quiet:
  assumes "diskInv dr lg cs rs b m D k" "\<forall>n \<in> D. okName n"
  shows "quiet dr D k"
  using assms by (fastforce simp: quiet_def diskInv_def aged_def okName_def)

text \<open>After a complete snapshot every file is current and the log is empty.\<close>

lemma emptied_diskInv:
  assumes inv: "diskInv dr lg cs rs b m D k0"
    and e: "emptied dr fl (collPaths dr D) lg c k0 (collTgt dr (collsAt cs rs)) None k"
  shows "diskInv dr lg cs rs m m {} k"
proof -
  have kp: "keeps (place dr) (insert (walPath dr) (collPaths dr D)) k0 k" using e by (simp add: emptied_def)
  obtain j where j: "\<forall>n. validName n \<longrightarrow> aged dr cs rs b D k0 n (j n)" using diskInv_ages [OF inv] .
  have cur: "possAt k (collPath dr n) {snapOf (collsAt cs rs) n}" if v: "validName n" for n
  proof (cases "n \<in> D")
    case True
    then show ?thesis using e by (auto simp: emptied_def collPaths_def)
  next
    case False
    then have "possAt k0 (collPath dr n) {snapOf (collsAt cs rs) n}"
      using j v unfolding aged_def by (metis (no_types))
    then show ?thesis
      using keeps_poss [OF kp] False lasting_coll [OF v, of dr] by (auto simp: lasting_def)
  qed
  have "m \<le> length rs" using inv by (simp add: diskInv_def)
  then have "aged dr cs rs m {} k n (length rs)" if "validName n" for n
    using cur [OF that] by (simp add: aged_def snapAt_all)
  then show ?thesis
    using e inv by (auto simp: diskInv_def emptied_def)
qed

lemma emptied_safe:
  assumes inv: "diskInv dr lg cs rs b m D k0"
    and e: "emptied dr fl (collPaths dr D) lg (encLog (seg rs b m)) k0 (collTgt dr (collsAt cs rs)) (Some x) k"
  shows "safe dr cs rs m k"
proof -
  have kp: "keeps (place dr) (insert (walPath dr) (collPaths dr D)) k0 k" using e by (simp add: emptied_def)
  obtain j where j: "\<forall>n. validName n \<longrightarrow> aged dr cs rs b D k0 n (j n)" using diskInv_ages [OF inv] .
  have bm: "b \<le> m" "m \<le> length rs" using inv by (simp_all add: diskInv_def)
  have cur: "possAt k (collPath dr n) {snapAt cs rs (length rs) n}" if v: "validName n" for n
  proof (cases "n \<in> D")
    case True
    then show ?thesis using e by (auto simp: emptied_def collPaths_def snapAt_all)
  next
    case False
    then have "possAt k0 (collPath dr n) {snapOf (collsAt cs rs) n}"
      using j v unfolding aged_def by (metis (no_types))
    then show ?thesis
      using keeps_poss [OF kp] False lasting_coll [OF v, of dr] by (auto simp: lasting_def snapAt_all)
  qed
  have "fits rs m (\<lambda>n. {length rs}) (encLog (seg rs b m))"
    by (rule fitsI [where b = b and m = m and t = "[]"]) (use bm in auto)
  moreover have "fits rs m (\<lambda>n. {length rs}) []"
    by (rule fitsI [where b = m and m = m and t = "[]"]) (use bm in auto)
  ultimately show ?thesis
    using e cur
    by (intro safeI [where W = "{Some (encLog (seg rs b m)), Some []}" and J = "\<lambda>_. {length rs}"]) (auto simp: emptied_def)
qed

lemma moved_safe:
  assumes inv: "diskInv dr lg cs rs b m D k0" and D: "\<forall>n \<in> D. okName n"
    and mv: "moved (place dr) fl (collTgt dr (collsAt cs rs)) (collPaths dr D) k0 (Some x) k"
  shows "safe dr cs rs m k"
proof -
  have kp: "keeps (place dr) (collPaths dr D) k0 k" using mv by (simp add: moved_def)
  obtain j where j: "\<forall>n. validName n \<longrightarrow> aged dr cs rs b D k0 n (j n)" using diskInv_ages [OF inv] .
  have bm: "b \<le> m" "m \<le> length rs" using inv by (simp_all add: diskInv_def)
  define J where "J n = (if validName n then {j n, length rs} else {})" for n
  have wal: "possAt k (walPath dr) {Some (encLog (seg rs b m))}"
  proof (rule keeps_poss [OF kp])
    show "possAt k0 (walPath dr) {Some (encLog (seg rs b m))}" using inv by (simp add: diskInv_def)
    show "walPath dr \<notin> collPaths dr D" by (auto simp: collPaths_def)
  qed (use lasting_wal [of dr] in \<open>simp_all add: lasting_def\<close>)
  have n: "possAt k (collPath dr n) ((\<lambda>i. snapAt cs rs i n) ` J n)" if v: "validName n" for n
  proof (cases "n \<in> D")
    case True
    then have "possAt k (collPath dr n) {snapAt cs rs (j n) n, snapOf (collsAt cs rs) n}"
      using mv j v by (auto simp: moved_def aged_def collPaths_def)
    then show ?thesis using v by (simp add: J_def snapAt_all)
  next
    case False
    then have "possAt k (collPath dr n) {snapAt cs rs (j n) n}"
      using keeps_poss [OF kp] j v lasting_coll [OF v, of dr] by (auto simp: lasting_def aged_def)
    then show ?thesis using possAt_mono v by (auto simp: J_def)
  qed
  have "fits rs m J (encLog (seg rs b m))"
    by (rule fitsI [where b = b and m = m and t = "[]"]) (use bm j in \<open>auto simp: J_def aged_def split: if_splits\<close>)
  then show ?thesis
    using mv wal n by (intro safeI [where W = "{Some (encLog (seg rs b m))}" and J = J]) (auto simp: moved_def)
qed

subsection \<open>The log\<close>

lemma seg_all: "b \<le> m \<Longrightarrow> m \<le> length rs \<Longrightarrow> seg rs b (length rs) = seg rs b m @ drop m rs"
  by (metis append_take_drop_id drop_drop le_add_diff_inverse2 length_drop order_refl take_all)

lemma appended_diskInv:
  assumes inv: "diskInv dr lg cs rs b m D k0"
    and a: "appended dr fl lg (encLog (seg rs b m)) (encLog (drop m rs)) k0 None k"
  shows "diskInv dr lg cs rs b (length rs) D k"
proof -
  have kp: "keeps (place dr) {walPath dr} k0 k" using a by (simp add: appended_def)
  obtain j where j: "\<forall>n. validName n \<longrightarrow> aged dr cs rs b D k0 n (j n)" using diskInv_ages [OF inv] .
  have bm: "b \<le> m" "m \<le> length rs" using inv by (simp_all add: diskInv_def)
  have "aged dr cs rs b D k n (j n)" if v: "validName n" for n
    using keeps_poss [OF kp, of "collPath dr n"] j v lasting_coll [OF v, of dr]
    by (auto simp: aged_def lasting_def)
  then show ?thesis
    using a bm by (auto simp: diskInv_def appended_def seg_all [OF bm] simp del: take_all take_all_iff)
qed

lemma appended_safe:
  assumes inv: "diskInv dr lg cs rs b m D k0" and rs: "recsOK rs"
    and a: "appended dr fl lg (encLog (seg rs b m)) (encLog (drop m rs)) k0 (Some e) k"
  shows "safe dr cs rs m k"
proof -
  let ?W = "{encLog (seg rs b m) @ take n (encLog (drop m rs)) | n. True}"
  have kp: "keeps (place dr) {walPath dr} k0 k" using a by (simp add: appended_def)
  obtain j where j: "\<forall>n. validName n \<longrightarrow> aged dr cs rs b D k0 n (j n)" using diskInv_ages [OF inv] .
  have bm: "b \<le> m" "m \<le> length rs" using inv by (simp_all add: diskInv_def)
  define J where "J n = (if validName n then {j n} else {})" for n
  have n: "possAt k (collPath dr n) ((\<lambda>i. snapAt cs rs i n) ` J n)" if v: "validName n" for n
    using keeps_poss [OF kp, of "collPath dr n"] j v lasting_coll [OF v, of dr]
    by (auto simp: aged_def lasting_def J_def)
  have "fits rs m J c" if c: "c \<in> ?W" for c
  proof -
    obtain q where q: "c = encLog (seg rs b m) @ take q (encLog (drop m rs))" using c by blast
    have "\<forall>r \<in> set (drop m rs). recOK r" using rs by (auto simp: recsOK_def dest: in_set_dropD)
    then obtain i t where i: "i \<le> length (drop m rs)"
      "take q (encLog (drop m rs)) = encLog (take i (drop m rs)) @ t" "nl \<notin> set t"
      using encLog_prefix by blast
    have "seg rs b m @ take i (drop m rs) = seg rs b (m + i)"
      using bm by (metis Nat.add_diff_assoc2 drop_drop le_add_diff_inverse2 take_add)
    then have "c = encLog (seg rs b (m + i)) @ t" using q i(2) by (metis append.assoc encLog_simps(3))
    then show ?thesis
      by (rule fitsI) (use i bm j in \<open>auto simp: J_def aged_def split: if_splits\<close>)
  qed
  then have "fits rs m J (walText x)" if "x \<in> Some ` ?W" for x using that by fastforce
  then show ?thesis
    using a n by (intro safeI [where W = "Some ` ?W" and J = J]) (simp_all add: appended_def)
qed


subsection \<open>After a power loss\<close>

text \<open>
  A disk \<open>Open\<close> can read: the files hold the collections \<open>cs\<close>, the log the records
  \<open>sg\<close> and an incomplete line \<open>t\<close>.
\<close>

definition openable :: "path \<Rightarrow> colls \<Rightarrow> wal_record list \<Rightarrow> bytes \<Rightarrow> disk \<Rightarrow> bool" where
  "openable dr cs sg t k \<longleftrightarrow> ok (place dr) k \<and> stableBut {} k \<and> collsOK cs \<and> recsOK sg \<and> nl \<notin> set t \<and>
     (\<forall>n. validName n \<longrightarrow> possAt k (collPath dr n) {snapOf cs n}) \<and>
     (\<exists>x. possAt k (walPath dr) {x} \<and> walText x = encLog sg @ t)"

lemma finite_map_exists: "finite (dom f) \<Longrightarrow> \<exists>m. \<forall>n. fmlookup m n = f n"
  by (metis Abs_fmap_inverse mem_Collect_eq)

lemma recsOK_sub: "recsOK rs \<Longrightarrow> set ss \<subseteq> set rs \<Longrightarrow> recsOK ss"
  by (auto simp: recsOK_def)

lemma set_seg: "set (seg rs b m) \<subseteq> set rs"
  by (meson set_drop_subset set_take_subset subset_trans)

text \<open>Collections of different ages form one state.\<close>

lemma mixed_ages:
  assumes "collsOK cs" "recsOK rs" "\<And>n. j n \<le> length rs"
  obtains cs' where "\<And>n. fmlookup cs' n = fmlookup (collsAt cs (take (j n) rs)) n" "collsOK cs'"
proof -
  let ?f = "\<lambda>n. fmlookup (collsAt cs (take (j n) rs)) n"
  have "dom ?f \<subseteq> (\<Union>i \<le> length rs. fset (fmdom (collsAt cs (take i rs))))"
    using assms(3) by (fastforce simp: fmlookup_dom_iff)
  then have "finite (dom ?f)" by (rule finite_subset) simp
  then obtain cs' where cs': "\<forall>n. fmlookup cs' n = ?f n" using finite_map_exists by blast
  have "collsOK (collsAt cs (take (j n) rs))" for n
    using collsOK_collsAt [OF assms(1) recsOK_sub [OF assms(2) set_take_subset]] .
  then have "collsOK cs'" using cs' unfolding collsOK_def by metis
  with cs' show thesis using that by blast
qed

lemma safe_crash:
  assumes sf: "safe dr cs rs A k" and cs: "collsOK cs" and rs: "recsOK rs" and cr: "crashOf k k'"
  obtains cs' sg t where "openable dr cs' sg t k'"
    "\<And>c. \<exists>i. A \<le> i \<and> i \<le> length rs \<and> cell (collsAt cs' sg) c = cell (collsAt cs (take i rs)) c"
proof -
  obtain W J where WJ: "ok (place dr) k" "possAt k (walPath dr) W"
    "\<And>n. validName n \<Longrightarrow> possAt k (collPath dr n) ((\<lambda>j. snapAt cs rs j n) ` J n)"
    "\<And>x. x \<in> W \<Longrightarrow> fits rs A J (walText x)" using sf unfolding safe_def by metis
  have h: "hyg k" using WJ(1) by (simp add: ok_def)
  have ok': "ok (place dr) k'" "stableBut {} k'"
    using hyg_crash [OF h cr] allowed_crash [OF _ cr] WJ(1) stableBut_settled [of k'] cr
    by (auto simp: ok_def crashOf_def)
  note wal = possAt_crash [OF h WJ(2) cr]
  obtain b m t where f: "b \<le> m" "m \<le> length rs" "A \<le> m" "nl \<notin> set t"
    "walText (fileAt k' (walPath dr)) = encLog (seg rs b m) @ t" "\<forall>n. \<forall>j \<in> J n. b \<le> j \<and> j \<le> length rs"
    using WJ(4) [OF wal(1)] unfolding fits_def by blast
  have "\<exists>j. b \<le> j \<and> j \<le> length rs \<and> (validName n \<longrightarrow> fileAt k' (collPath dr n) = snapAt cs rs j n)" for n
    using possAt_crash(1) [OF h WJ(3) cr, of n] f by (cases "validName n") (auto intro: order_trans)
  then obtain j where j: "\<And>n. b \<le> j n \<and> j n \<le> length rs \<and> (validName n \<longrightarrow> fileAt k' (collPath dr n) = snapAt cs rs (j n) n)"
    by metis
  obtain cs' where cs': "\<And>n. fmlookup cs' n = fmlookup (collsAt cs (take (j n) rs)) n" "collsOK cs'"
    using mixed_ages [OF cs rs, of j] j by metis
  have "possAt k' (collPath dr n) {snapOf cs' n}" if v: "validName n" for n
    using possAt_crash(2) [OF h WJ(3) [OF v] cr] j [of n] v cs'(1) [of n] by (simp add: snapAt_def snapOf_def)
  then have "openable dr cs' (seg rs b m) t k'"
    using ok' cs'(2) recsOK_sub [OF rs set_seg] f wal(2) unfolding openable_def by blast
  then show thesis
    using that recovered_cell [OF cs'(1), of b m] j f by (meson order_trans)
qed

end
