(* ===== verification/Open_Facts.thy ===== *)
theory Open_Facts
  imports Durability
begin

text \<open>
  \<open>Open\<close> on a readable disk: it returns the recovered state with an empty log and current
  snapshots, fails only if a system call fails or the lock is taken, and whatever happens on the
  way the disk stays one from which the same state is recovered.
\<close>

subsection \<open>Opening the log\<close>

definition logOpened :: "path \<Rightarrow> bool \<Rightarrow> bytes option \<Rightarrow> disk \<Rightarrow> error + ino \<Rightarrow> disk \<Rightarrow> bool" where
  "logOpened dr fl x k0 r k \<longleftrightarrow> ok (place dr) k \<and> keeps (place dr) {walPath dr} k0 k \<and> (case r of
     Inl _ \<Rightarrow> fl \<and> possAt k (walPath dr) {x, Some (walText x)}
   | Inr i \<Rightarrow> stableBut {} k \<and> pinned k (walPath dr) i \<and> possAt k (walPath dr) {Some (walText x)})"

text \<open>The log file exists or has just been created.\<close>

lemma log_created:
  assumes k0: "ok (place dr) k0" "stableBut {} k0" "isDir k0 dr" "possAt k0 (walPath dr) {x}"
    and e: "fmlookup (ents k) (walPath dr) = Some (FileN i)"
    and c: "case fmlookup (ents k0) (walPath dr) of
        None \<Rightarrow> k = snd (newFile (walPath dr) k0) \<and> i = nextIno k0 | Some _ \<Rightarrow> k = k0"
  shows "possAt k (walPath dr) {x, Some (walText x)} \<and>
    (chist k i = [walText x] \<or> possAt k (walPath dr) {Some (walText x)})"
proof -
  let ?w = "walPath dr"
  have h: "hyg k0" using k0(1) by (simp add: ok_def)
  have d: "inDir k0 ?w" using k0(3) by (simp add: inDir_isDir)
  show ?thesis
  proof (cases "fmlookup (ents k0) ?w")
    case None
    then have x: "x = None" using possAt_current(2) [OF h k0(4)] by (simp add: fileAt_def)
    have ch: "dirChange (freshIno k0) dr (fmupd ?w (FileN (nextIno k0)) (ents k0))"
      using dirChange_upd [of "freshIno k0" ?w] hyg_freshIno [OF h] d None by (simp add: inDir_def)
    have k: "k = changeEnts [dr] (fmupd ?w (FileN (nextIno k0)) (ents k0)) (freshIno k0)" "i = nextIno k0"
      using c None by (simp_all add: newFile_eq)
    have "possAt k ?w {None, Some []}"
      unfolding k(1)
      by (rule possAt_change [OF hyg_freshIno [OF h] ch possAt_freshIno [OF h k0(4)]])
         (simp_all add: x nodeIn_def)
    then show ?thesis
      using x k by simp_all
  next
    case (Some nd)
    then have "fileAt k0 ?w = Some (content k0 i)" using c e by (simp add: fileAt_def)
    then have "x = Some (content k0 i)" using possAt_current(2) [OF h k0(4)] by simp
    then have "x = Some (walText x)" by simp
    then show ?thesis
      using c Some k0(4) by auto
  qed
qed

lemma triple_openLog:
  assumes k0: "ok (place dr) k0" "stableBut {} k0" "isDir k0 dr" "possAt k0 (walPath dr) {x}"
  shows "triple fl (\<lambda>k. k = k0) (openLog (walPath dr)) (logOpened dr fl x k0)"
proof -
  let ?w = "walPath dr"
  have h0: "hyg k0" using k0(1) by (simp add: ok_def)
  have d: "inDir k0 ?w" using k0(3) by (simp add: inDir_isDir)
  have fp: "filePlace (place dr) ?w" by (rule filePlaceI) simp
  show ?thesis
    unfolding openLog_def
    apply (rule triple_sum [OF triple_sysOpen [OF k0(1) fp d, where X = "{?w}"]], simp)
     apply (rule triple_ret, use k0 possAt_mono [OF k0(4)] in \<open>auto simp: logOpened_def\<close>)[1]
    apply (rule triple_at)
    subgoal premises prems for i k
    proof -
      have k: "ok (place dr) k" "keeps (place dr) {?w} k0 k" "stableBut {} k" "isDir k dr"
        "fmlookup (ents k) ?w = Some (FileN i)" using prems k0(2,3) by auto
      have h: "hyg k" using k(1) by (simp add: ok_def)
      have c: "case fmlookup (ents k0) ?w of None \<Rightarrow> k = snd (newFile ?w k0) \<and> i = nextIno k0 | Some _ \<Rightarrow> k = k0"
        using prems by (auto split: option.splits)
      note L = conjunct1 [OF log_created [OF k0 k(5) c]] conjunct2 [OF log_created [OF k0 k(5) c]]
      have F: "ok (place dr) (flushDir dr k)" "keeps (place dr) {?w} k0 (flushDir dr k)" "stableBut {} (flushDir dr k)"
        "pinned (flushDir dr k) ?w i"
        using ok_flushDir [OF k(1)] keeps_trans [OF k(2) keeps_flushDir [OF h]] stableBut_flushDir [OF h k(3), of dr]
          pinned_flushDir_current [OF k(5)] by simp_all
      have P: "possAt (flushDir dr k) ?w {Some (walText x)}"
        using L(2) possAt_flushDir [OF h] possAt_flushDir_current [OF h k(3,5)] by auto
      have good: "logOpened dr fl x k0 (Inr i) (flushDir dr k)" using F P by (simp add: logOpened_def)
      have bad: "logOpened dr fl x k0 (Inl e) k'" if "fl" "k' = k \<or> k' = flushDir dr k" for e k'
        using that k(1,2) F(1,2) L(1) possAt_flushDir [OF h L(1)] by (auto simp: logOpened_def)
      show ?thesis
        apply (simp, rule triple_option [OF triple_SyncDir [OF h k(4)]])
         apply (rule triple_ret, use good in simp)
        apply (rule triple_bind [OF triple_sysClose], rule triple_ret)
        using bad by auto
    qed
    done
qed


subsection \<open>Replaying the log\<close>

definition replayed :: "bool \<Rightarrow> db \<Rightarrow> wal_record list \<Rightarrow> bytes \<Rightarrow> disk \<Rightarrow> error + db \<Rightarrow> disk \<Rightarrow> bool" where
  "replayed fl d sg t k0 r k \<longleftrightarrow> (let dr = dir d in ok (place dr) k \<and> keeps (place dr) {walPath dr} k0 k \<and> (case r of
     Inl _ \<Rightarrow> fl \<and> possAt k (walPath dr) {Some (encLog sg @ t), Some (encLog sg)}
   | Inr d' \<Rightarrow> d' = (applyAll sg d)\<lparr>logSize := int (length (encLog sg))\<rparr> \<and> stableBut {} k \<and>
       pinned k (walPath dr) (log d) \<and> possAt k (walPath dr) {Some (encLog sg)}))"

lemma triple_replayLog:
  assumes sg: "\<forall>r \<in> set sg. recOK r" "nl \<notin> set t"
    and k0: "ok (place (dir d)) k0" "stableBut {} k0" "pinned k0 (walPath (dir d)) (log d)"
      "possAt k0 (walPath (dir d)) {Some (encLog sg @ t)}"
  shows "triple fl (\<lambda>k. k = k0) (replayLog (walPath (dir d)) d) (replayed fl d sg t k0)"
proof -
  let ?w = "walPath (dir d)" and ?T = "place (dir d)"
  have h: "hyg k0" and al: "allowed ?T k0" using k0(1) by (simp_all add: ok_def)
  have f: "fmlookup (ents k0) ?w = Some (FileN (log d))" by (rule pinned_ents [OF h k0(3)])
  have c: "content k0 (log d) = encLog sg @ t" using possAt_current(2) [OF h k0(4)] f by (simp add: fileAt_def)
  note R = replayLoop_encLog [OF sg]
  let ?k = "setContent (log d) (encLog sg) [] k0"
  have T: "ok ?T ?k" "keeps ?T {?w} k0 ?k" "possAt ?k ?w {Some (encLog sg @ t), Some (encLog sg)}"
    using hyg_setContent [OF h] al keeps_setContent [OF h f, of "{?w}"] possAt_setContent [OF k0(4)]
    by (simp_all add: ok_def)
  have h': "hyg ?k" using T(1) by (simp add: ok_def)
  have st: "stableDir ?k (butlast ?w)" using k0(4) by (simp add: possAt_def)
  have F: "ok ?T (flushFile (log d) ?k)" "keeps ?T {?w} k0 (flushFile (log d) ?k)"
    "possAt (flushFile (log d) ?k) ?w {Some (encLog sg)}"
    using hyg_flushFile [OF h'] T(1) keeps_trans [OF T(2) keeps_flushFile [OF h']] possAt_pinned [OF _ st, of "log d"] k0(3)
    by (simp_all add: ok_def)
  have err: "replayed fl d sg t k0 (Inl e) k" if fl "k = k0 \<or> k = ?k" for e k
    using that k0(1) T possAt_mono [OF k0(4)] by (auto simp: replayed_def Let_def)
  have done0: "replayed fl d sg t k0 (Inr ((applyAll sg d)\<lparr>logSize := int (length (encLog sg))\<rparr>)) k0" if "t = []"
    using that k0 by (simp add: replayed_def Let_def)
  have done1: "replayed fl d sg t k0 (Inr ((applyAll sg d)\<lparr>logSize := int (length (encLog sg))\<rparr>)) (flushFile (log d) ?k)"
    using F k0(2,3) by (simp add: replayed_def Let_def)
  show ?thesis
    unfolding replayLog_def
    apply (rule triple_sum [OF triple_sysReadFile [OF h f]])
     apply (rule triple_ret, use err in blast)
    subgoal for data
    proof (rule triple_assume [where A = "data = encLog sg @ t"])
      assume data: "data = encLog sg @ t"
      show ?thesis
        apply (rule triple_pre [where P' = "\<lambda>k. k = k0"])
        using done0 unfolding data R
         apply (cases "t = []")
          apply (auto intro!: triple_ret)[1]
         apply (simp, rule triple_sum [OF triple_sysTruncate])
          apply (rule triple_ret, use err in blast)
         apply (simp add: c, rule triple_sum [OF triple_sysFsync])
          apply (rule triple_ret, use err in blast)
         apply (rule triple_ret, use done1 in simp)
        by simp
    qed (use c in simp)
    done
qed


subsection \<open>The lock\<close>

lemma wtriple_sysFlock:
  "wtriple fl (\<lambda>w. disk w = k \<and> held w = hs \<and> p |\<notin>| hs) (sysFlock p)
     (\<lambda>r w. disk w = k \<and> (r = Inr () \<and> held w = finsert p hs \<or> (\<exists>e. r = Inl e \<and> fl) \<and> held w = hs))"
  unfolding wtriple_def
proof (intro allI impI)
  fix w assume w: "env fl w" "disk w = k \<and> held w = hs \<and> p |\<notin>| hs"
  show "case run_state (sysFlock p) w of (r, w') \<Rightarrow> env fl w' \<and> disk w' = k \<and>
      (r = Inr () \<and> held w' = finsert p hs \<or> (\<exists>e. r = Inl e \<and> fl) \<and> held w' = hs)"
  proof (cases "faults w (tick w)")
    case (Some en)
    then have fl using env_fault [OF w(1), of _ "fst en" "snd en"] by simp
    with Some w show ?thesis by (cases en) (auto simp: sysFlock_def env_def)
  qed (use w in \<open>auto simp: sysFlock_def env_def\<close>)
qed

lemma wtriple_sysUnlock:
  "wtriple fl (\<lambda>w. disk w = k \<and> held w = hs) (sysUnlock p)
     (\<lambda>r w. disk w = k \<and> held w = hs |-| {|p|} \<and> (r = Inr () \<or> fl))"
  unfolding wtriple_def
proof (intro allI impI)
  fix w assume w: "env fl w" "disk w = k \<and> held w = hs"
  show "case run_state (sysUnlock p) w of (r, w') \<Rightarrow> env fl w' \<and> disk w' = k \<and> held w' = hs |-| {|p|} \<and> (r = Inr () \<or> fl)"
    using w env_fault [OF w(1), of "tick w"] by (auto simp: sysUnlock_def env_def split: option.splits)
qed

abbreviation lockPath :: "path \<Rightarrow> path" where
  "lockPath dr \<equiv> dr @ [lockName]"

definition acquired :: "path \<Rightarrow> bool \<Rightarrow> path fset \<Rightarrow> disk \<Rightarrow> error + path \<Rightarrow> world \<Rightarrow> bool" where
  "acquired dr fl hs k0 r w \<longleftrightarrow> ok (place dr) (disk w) \<and> keeps (place dr) {lockPath dr} k0 (disk w) \<and>
     stableBut {} (disk w) \<and> isDir (disk w) dr \<and>
     (case r of Inl _ \<Rightarrow> fl \<and> held w = hs | Inr p \<Rightarrow> p = lockPath dr \<and> held w = finsert (lockPath dr) hs)"

lemma wtriple_Acquire:
  assumes k0: "ok (place dr) k0" "stableBut {} k0" "isDir k0 dr" and "lockPath dr |\<notin>| hs"
  shows "wtriple fl (\<lambda>w. disk w = k0 \<and> held w = hs) (Acquire (lockPath dr)) (acquired dr fl hs k0)"
proof -
  let ?p = "lockPath dr"
  have fp: "filePlace (place dr) ?p" by (rule filePlaceI) simp
  have d: "inDir k0 ?p" using k0(3) by (simp add: inDir_isDir)
  note op = wtriple_lift [OF triple_sysOpen [OF k0(1) fp d, where X = "{?p}" and trunc = False and fl = fl], of hs]
  show ?thesis
    unfolding Acquire_def
    apply (rule wtriple_sum [OF op], simp)
     apply (rule wtriple_ret, use k0 in \<open>auto simp: acquired_def\<close>)[1]
    apply (rule wtriple_at)
    subgoal for i w
      apply (rule wtriple_sum [OF wtriple_pre [OF wtriple_sysFlock [of fl "disk w" hs ?p]]])
        apply (use assms(4) in simp)
       apply (rule wtriple_bind [OF wtriple_pre [OF wtriple_lift [OF triple_sysClose
             [where P = "\<lambda>k. k = disk w \<and> fl"], where hs = hs]]], simp)
       apply (rule wtriple_ret, use k0 in \<open>auto simp: acquired_def\<close>)[1]
      by (rule wtriple_ret) (use k0 in \<open>auto simp: acquired_def\<close>)
    done
qed


subsection \<open>Open\<close>

text \<open>A disk that reads back as \<open>cs\<close> and \<open>sg\<close> whatever happens.\<close>

definition steady :: "path \<Rightarrow> colls \<Rightarrow> wal_record list \<Rightarrow> disk \<Rightarrow> bool" where
  "steady dr cs sg k \<longleftrightarrow> ok (place dr) k \<and> (\<forall>n. validName n \<longrightarrow> possAt k (collPath dr n) {snapOf cs n}) \<and>
     (\<exists>W. possAt k (walPath dr) W \<and> (\<forall>x \<in> W. \<exists>t. nl \<notin> set t \<and> walText x = encLog sg @ t))"

lemma steady_safe:
  assumes "steady dr cs sg k"
  shows "safe dr cs sg (length sg) k"
proof -
  obtain W where W: "possAt k (walPath dr) W" "\<forall>x \<in> W. \<exists>t. nl \<notin> set t \<and> walText x = encLog sg @ t"
    using assms unfolding steady_def by (elim conjE exE)
  have "fits sg (length sg) (\<lambda>_. {0}) (walText x)" if x: "x \<in> W" for x
  proof -
    obtain t where "nl \<notin> set t \<and> walText x = encLog sg @ t" using bspec [OF W(2) x] by (elim exE)
    then show ?thesis by (intro fitsI [where b = 0 and m = "length sg" and t = t]) simp_all
  qed
  then show ?thesis
    using assms W(1) by (intro safeI [where W = W and J = "\<lambda>_. {0}"]) (simp_all add: steady_def snapAt_def)
qed

lemma steady_keeps:
  assumes o: "openable dr cs sg t k0" and k: "ok (place dr) k" "keeps (place dr) X k0 k"
    and X: "X \<subseteq> {walPath dr, lockPath dr}"
    and W: "possAt k (walPath dr) W" "\<And>x. x \<in> W \<Longrightarrow> \<exists>t. nl \<notin> set t \<and> walText x = encLog sg @ t"
  shows "steady dr cs sg k"
proof -
  have "possAt k (collPath dr n) {snapOf cs n}" if v: "validName n" for n
  proof (rule keeps_poss [OF k(2)])
    show "possAt k0 (collPath dr n) {snapOf cs n}" using o v by (simp add: openable_def)
    show "collPath dr n \<notin> X" using X by auto
  qed (use lasting_coll [OF v, of dr] in \<open>simp_all add: lasting_def\<close>)
  then show ?thesis using k(1) W unfolding steady_def by blast
qed

text \<open>Neither making the directory nor taking the lock changes what can be read.\<close>

lemma openable_keeps:
  assumes o: "openable dr cs sg t k0" and k: "ok (place dr) k" "keeps (place dr) X k0 k" "X \<subseteq> {lockPath dr}"
  shows "steady dr cs sg k" "stableBut {} k \<Longrightarrow> openable dr cs sg t k"
proof -
  obtain x where x: "possAt k0 (walPath dr) {x}" "walText x = encLog sg @ t" and t: "nl \<notin> set t"
    using o unfolding openable_def by blast
  have "walPath dr \<notin> X" using k(3) by auto
  then have wal: "possAt k (walPath dr) {x}"
    using keeps_poss [OF k(2) x(1)] lasting_wal [of dr] by (simp add: lasting_def)
  show st: "steady dr cs sg k" by (rule steady_keeps [OF o k(1,2) _ wal]) (use k(3) x(2) t in auto)
  show "openable dr cs sg t k" if "stableBut {} k"
    using o st wal x(2) t that unfolding openable_def steady_def by blast
qed

text \<open>The log is open: the state from which \<open>load\<close> and \<open>replayLog\<close> start.\<close>

definition logReady :: "path \<Rightarrow> colls \<Rightarrow> wal_record list \<Rightarrow> bytes \<Rightarrow> ino \<Rightarrow> disk \<Rightarrow> bool" where
  "logReady dr cs sg t i k \<longleftrightarrow> openable dr cs sg t k \<and> pinned k (walPath dr) i \<and>
     possAt k (walPath dr) {Some (encLog sg @ t)}"

lemma triple_openLog_steady:
  assumes o: "openable dr cs sg t k0" and d: "isDir k0 dr"
  shows "triple fl (\<lambda>k. k = k0) (openLog (walPath dr))
     (\<lambda>r k. case r of Inl _ \<Rightarrow> fl \<and> steady dr cs sg k | Inr i \<Rightarrow> logReady dr cs sg t i k)"
proof -
  obtain x where x: "possAt k0 (walPath dr) {x}" "walText x = encLog sg @ t" and t: "nl \<notin> set t"
    and k0: "ok (place dr) k0" "stableBut {} k0" using o unfolding openable_def by blast
  show ?thesis
  proof (rule triple_post [OF triple_openLog [OF k0 d x(1)]])
    fix r k assume L: "logOpened dr fl x k0 r k"
    then have k: "ok (place dr) k" "keeps (place dr) {walPath dr} k0 k" by (simp_all add: logOpened_def)
    show "case r of Inl _ \<Rightarrow> fl \<and> steady dr cs sg k | Inr i \<Rightarrow> logReady dr cs sg t i k"
    proof (cases r)
      case (Inl e)
      then have W: "possAt k (walPath dr) {x, Some (walText x)}" and fl using L by (simp_all add: logOpened_def)
      have "steady dr cs sg k" by (rule steady_keeps [OF o k _ W]) (use x(2) t in auto)
      then show ?thesis using Inl \<open>fl\<close> by simp
    next
      case (Inr i)
      then have W: "possAt k (walPath dr) {Some (encLog sg @ t)}" and s: "stableBut {} k" and p: "pinned k (walPath dr) i"
        using L x(2) by (simp_all add: logOpened_def)
      have st: "steady dr cs sg k" by (rule steady_keeps [OF o k _ W]) (use t in auto)
      have "\<exists>x. possAt k (walPath dr) {x} \<and> walText x = encLog sg @ t" using W walText_simps(2) by blast
      then show ?thesis using Inr o st W s p by (simp add: logReady_def openable_def steady_def)
    qed
  qed
qed


text \<open>Applying records changes the collections and the dirty set only.\<close>

lemma mem_eta: "d\<lparr>colls := colls d, dirty := dirty d\<rparr> = d"
  by simp

lemma applyRec_fields: "\<exists>cs D. applyRec r d = d\<lparr>colls := cs, dirty := D\<rparr>"
proof -
  have "\<exists>cs D. d = d\<lparr>colls := cs, dirty := D\<rparr>" by (metis mem_eta)
  then show ?thesis unfolding applyRec_def by (auto split: option.split)
qed

lemma applyAll_fields: "\<exists>D. applyAll rs d = d\<lparr>colls := collsAt (colls d) rs, dirty := D\<rparr>"
proof -
  have "\<exists>cs D. applyAll rs d = d\<lparr>colls := cs, dirty := D\<rparr>"
  proof (induction rs arbitrary: d)
    case Nil
    show ?case by (metis mem_eta applyAll.simps(1))
  next
    case (Cons r rs)
    obtain cs D where "applyRec r d = d\<lparr>colls := cs, dirty := D\<rparr>" using applyRec_fields by blast
    then show ?case using Cons [of "applyRec r d"] by fastforce
  qed
  then obtain cs D where e: "applyAll rs d = d\<lparr>colls := cs, dirty := D\<rparr>" by blast
  then have "cs = collsAt (colls d) rs" using colls_applyAll [of rs d] by simp
  with e show ?thesis by blast
qed

lemma applyAll_dirty_ok:
  "recsOK rs \<Longrightarrow> \<forall>n \<in> fset (dirty d). okName n \<Longrightarrow> \<forall>n \<in> fset (dirty (applyAll rs d)). okName n"
proof (induction rs arbitrary: d)
  case (Cons r rs)
  then have "\<forall>n \<in> fset (dirty (applyRec r d)). okName n"
    using applyRec_dirty_names [of r d] by (auto simp: recsOK_def)
  then show ?case using Cons by (simp add: recsOK_def)
qed simp

text \<open>The handle and the disk between replay and the first snapshot.\<close>

definition replayedDB :: "path \<Rightarrow> options \<Rightarrow> ino \<Rightarrow> colls \<Rightarrow> wal_record list \<Rightarrow> db" where
  "replayedDB dr o' i cs sg =
     (applyAll sg ((newDB dr o' i)\<lparr>colls := cs\<rparr>))\<lparr>logSize := int (length (encLog sg))\<rparr>"

lemma replayedDB_fields:
  "dir (replayedDB dr o' i cs sg) = dr" "log (replayedDB dr o' i cs sg) = i"
  "colls (replayedDB dr o' i cs sg) = collsAt cs sg" "logSize (replayedDB dr o' i cs sg) = int (length (encLog sg))"
  "(replayedDB dr o' i cs sg)\<lparr>dirty := {||}, logSize := 0\<rparr> = (newDB dr o' i)\<lparr>colls := collsAt cs sg\<rparr>"
proof -
  obtain D where "applyAll sg ((newDB dr o' i)\<lparr>colls := cs\<rparr>) =
      ((newDB dr o' i)\<lparr>colls := cs\<rparr>)\<lparr>colls := collsAt (colls ((newDB dr o' i)\<lparr>colls := cs\<rparr>)) sg, dirty := D\<rparr>"
    using applyAll_fields by blast
  then have D: "replayedDB dr o' i cs sg = (newDB dr o' i)\<lparr>colls := collsAt cs sg, dirty := D, logSize := int (length (encLog sg))\<rparr>"
    by (simp add: replayedDB_def)
  show "dir (replayedDB dr o' i cs sg) = dr" "log (replayedDB dr o' i cs sg) = i"
    "colls (replayedDB dr o' i cs sg) = collsAt cs sg" "logSize (replayedDB dr o' i cs sg) = int (length (encLog sg))"
    "(replayedDB dr o' i cs sg)\<lparr>dirty := {||}, logSize := 0\<rparr> = (newDB dr o' i)\<lparr>colls := collsAt cs sg\<rparr>"
    by (simp_all add: D newDB_def)
qed

lemma replayed_diskInv:
  assumes r: "logReady dr cs sg t i k0"
    and k: "ok (place dr) k" "keeps (place dr) {walPath dr} k0 k" "stableBut {} k" "pinned k (walPath dr) i"
      "possAt k (walPath dr) {Some (encLog sg)}"
  shows "diskInv dr i cs sg 0 (length sg) (fset (dirty (replayedDB dr o' i cs sg))) k"
proof -
  let ?d = "(newDB dr o' i)\<lparr>colls := cs\<rparr>"
  have o: "openable dr cs sg t k0" using r by (simp add: logReady_def)
  have clean: "snapOf cs n = snapOf (collsAt cs sg) n" if "n |\<notin>| dirty (replayedDB dr o' i cs sg)" for n
    using applyAll_clean [of n sg ?d] colls_applyAll [of sg ?d] that by (simp add: replayedDB_def snapOf_def)
  have "possAt k (collPath dr n) {snapOf cs n}" if v: "validName n" for n
    using keeps_poss [OF k(2), of "collPath dr n"] o v lasting_coll [OF v, of dr]
    by (simp add: openable_def lasting_def)
  then have "aged dr cs sg 0 (fset (dirty (replayedDB dr o' i cs sg))) k n 0" if "validName n" for n
    using that clean by (simp add: aged_def snapAt_def)
  then show ?thesis using k unfolding diskInv_def by auto
qed

lemma encLog_empty: "encLog rs = [] \<longleftrightarrow> rs = []"
  by (cases rs) auto

text \<open>After a complete snapshot the history may start over.\<close>

lemma diskInv_rebase:
  assumes "diskInv dr lg cs rs m m {} k"
  shows "diskInv dr lg (collsAt cs rs) [] 0 0 {} k"
proof -
  obtain j where j: "\<forall>n. validName n \<longrightarrow> aged dr cs rs m {} k n (j n)" using diskInv_ages [OF assms] .
  have "aged dr (collsAt cs rs) [] 0 {} k n 0" if "validName n" for n
    using j that by (auto simp: aged_def snapAt_def)
  then show ?thesis using assms unfolding diskInv_def by auto
qed

definition opened :: "path \<Rightarrow> options \<Rightarrow> colls \<Rightarrow> wal_record list \<Rightarrow> bool \<Rightarrow> error option \<times> db \<Rightarrow> disk \<Rightarrow> bool" where
  "opened dr o' cs sg fl rd k \<longleftrightarrow> (case rd of
     (Some _, _) \<Rightarrow> fl \<and> safe dr cs sg (length sg) k
   | (None, d) \<Rightarrow> \<exists>i. d = (newDB dr o' i)\<lparr>colls := collsAt cs sg\<rparr> \<and> diskInv dr i (collsAt cs sg) [] 0 0 {} k)"

lemma snapshotted_opened:
  assumes inv: "diskInv dr i cs sg 0 (length sg) (fset (dirty d)) k0" and d: "d = replayedDB dr o' i cs sg"
    and D: "\<forall>n \<in> fset (dirty d). okName n"
    and s: "snapshotted fl d k0 (encLog sg) rd k"
  shows "opened dr o' cs sg fl rd k"
proof -
  note f = replayedDB_fields [of dr o' i cs sg, folded d]
  have X: "seg sg 0 (length sg) = sg" by simp
  from s consider (noop) "rd = (None, d)" "dirty d = {||}" "logSize d = 0" "k = k0"
    | (complete) "rd = (None, d\<lparr>dirty := {||}, logSize := 0\<rparr>)"
        "emptied dr fl (collPaths dr (fset (dirty d))) i (encLog sg) k0 (collTgt dr (collsAt cs sg)) None k"
    | (broken) e where "rd = (Some e, d\<lparr>dirty := {||}\<rparr>)"
        "moved (place dr) fl (collTgt dr (collsAt cs sg)) (collPaths dr (fset (dirty d))) k0 (Some e) k"
    | (cut) e where "rd = (Some e, d\<lparr>dirty := {||}\<rparr>)"
        "emptied dr fl (collPaths dr (fset (dirty d))) i (encLog sg) k0 (collTgt dr (collsAt cs sg)) (Some e) k"
    unfolding snapshotted_def Let_def f by blast
  then show ?thesis
  proof cases
    case noop
    then have "sg = []" using f(4) by (simp add: encLog_empty)
    moreover have "d\<lparr>dirty := dirty d, logSize := logSize d\<rparr> = d" by simp
    then have "d = (newDB dr o' i)\<lparr>colls := collsAt cs sg\<rparr>" using noop(2,3) f(5) by metis
    ultimately show ?thesis using noop inv by (auto simp: opened_def)
  next
    case complete
    then show ?thesis
      using diskInv_rebase [OF emptied_diskInv [OF inv complete(2)]] f(5) by (auto simp: opened_def)
  next
    case broken
    then show ?thesis using moved_safe [OF inv D broken(2)] by (simp add: opened_def moved_def)
  next
    case cut
    then show ?thesis using emptied_safe [OF inv, unfolded X, OF cut(2)] by (simp add: opened_def emptied_def)
  qed
qed

end
