(* ===== verification/Reopen.thy ===== *)
theory Reopen
  imports Open_Facts
begin

text \<open>
  \<open>Open\<close> as a whole, run on a disk from which \<open>cs\<close> and \<open>sg\<close> can be read.
\<close>

definition openResult :: "path \<Rightarrow> options \<Rightarrow> colls \<Rightarrow> wal_record list \<Rightarrow> bool \<Rightarrow> path fset \<Rightarrow> error + db \<Rightarrow> world \<Rightarrow> bool" where
  "openResult dr o' cs sg fl hs r w \<longleftrightarrow> (case r of
     Inl _ \<Rightarrow> fl \<and> held w = hs \<and> safe dr cs sg (length sg) (disk w)
   | Inr d \<Rightarrow> held w = finsert (lockPath dr) hs \<and>
       (\<exists>i. d = (newDB dr o' i)\<lparr>colls := collsAt cs sg\<rparr> \<and> diskInv dr i (collsAt cs sg) [] 0 0 {} (disk w)))"

lemma wtriple_abandon:
  assumes "lockPath dr |\<notin>| hs" "\<And>k. P k \<Longrightarrow> fl \<and> safe dr cs sg (length sg) k"
  shows "wtriple fl (\<lambda>w. P (disk w) \<and> held w = finsert (lockPath dr) hs) (abandon (lockPath dr) e) (openResult dr o' cs sg fl hs)"
  unfolding abandon_def
  apply (rule wtriple_bind [OF wtriple_lift [OF triple_sysClose]])
  apply (rule wtriple_at)
  subgoal for a w
    apply (rule wtriple_bind [OF wtriple_pre [OF wtriple_sysUnlock [of fl "disk w" "held w"]]], simp)
    by (rule wtriple_ret) (use assms in \<open>auto simp: openResult_def\<close>)
  done

lemma replayed_safe:
  assumes r: "logReady dr cs sg t i k0"
    and p: "replayed fl ((newDB dr o' i)\<lparr>colls := cs\<rparr>) sg t k0 (Inl e) k"
  shows "fl \<and> safe dr cs sg (length sg) k"
proof -
  have o: "openable dr cs sg t k0" and t: "nl \<notin> set t" using r by (simp_all add: logReady_def openable_def)
  have k: "ok (place dr) k" "keeps (place dr) {walPath dr} k0 k" fl
    "possAt k (walPath dr) {Some (encLog sg @ t), Some (encLog sg)}"
    using p by (simp_all add: replayed_def Let_def newDB_def)
  have "steady dr cs sg k" by (rule steady_keeps [OF o k(1,2) _ k(4)]) (use t in auto)
  then show ?thesis using k(3) steady_safe by blast
qed

text \<open>The handle after replay, ready for its first snapshot.\<close>

lemma triple_firstSnapshot:
  assumes dr: "list_all cleanComp dr" and r: "logReady dr cs sg t i k0"
    and p: "replayed fl ((newDB dr o' i)\<lparr>colls := cs\<rparr>) sg t k0 (Inr d) k1"
  shows "triple fl (\<lambda>k. k = k1) (writeSnapshot None d) (opened dr o' cs sg fl)"
proof -
  have o: "collsOK cs" "recsOK sg" using r by (simp_all add: logReady_def openable_def)
  have d: "d = replayedDB dr o' i cs sg" using p by (simp add: replayed_def Let_def replayedDB_def)
  note f = replayedDB_fields [of dr o' i cs sg, folded d]
  have inv: "diskInv dr i cs sg 0 (length sg) (fset (dirty d)) k1"
    unfolding d by (rule replayed_diskInv [OF r]) (use p in \<open>simp_all add: replayed_def Let_def newDB_def\<close>)
  have D: "\<forall>n \<in> fset (dirty d). okName n"
    using applyAll_dirty_ok [OF o(2), of "(newDB dr o' i)\<lparr>colls := cs\<rparr>"] by (simp add: d replayedDB_def newDB_def)
  have "triple fl (\<lambda>k. k = k1) (writeSnapshot None d) (snapshotted fl d k1 (encLog sg))"
    by (rule triple_writeSnapshot)
       (use inv dr diskInv_quiet [OF inv D] collsOK_collsAt [OF o] in \<open>simp_all add: f diskInv_def\<close>)
  then show ?thesis by (rule triple_post) (use snapshotted_opened [OF inv d D] in blast)
qed

lemma wtriple_recover:
  assumes dr: "list_all cleanComp dr" and r: "logReady dr cs sg t i k0" and lk: "lockPath dr |\<notin>| hs"
  shows "wtriple fl (\<lambda>w. disk w = k0 \<and> held w = finsert (lockPath dr) hs)
    (openRecover (lockPath dr) (walPath dr) (newDB dr o' i)) (openResult dr o' cs sg fl hs)"
proof -
  let ?d = "newDB dr o' i"
  have o: "openable dr cs sg t k0" and t: "nl \<notin> set t" and sg: "\<forall>r \<in> set sg. recOK r"
    using r by (simp_all add: logReady_def openable_def recsOK_def)
  have h: "hyg k0" using o by (simp add: openable_def ok_def)
  have st: "safe dr cs sg (length sg) k0"
    by (rule steady_safe [OF openable_keeps(1) [OF o]]) (use o in \<open>auto simp: openable_def keeps_refl\<close>)
  have ld: "triple fl (\<lambda>k. k = k0) (load ?d) (\<lambda>r k. k = k0 \<and> (case r of Inl _ \<Rightarrow> fl | Inr d' \<Rightarrow> d' = ?d\<lparr>colls := cs\<rparr>))"
    using triple_load [of ?d k0 cs fl] o possAt_current(2) [OF h] by (auto simp: newDB_def openable_def)
  have rp: "triple fl (\<lambda>k. k = k0) (replayLog (walPath dr) (?d\<lparr>colls := cs\<rparr>)) (replayed fl (?d\<lparr>colls := cs\<rparr>) sg t k0)"
    using triple_replayLog [OF sg t, of "?d\<lparr>colls := cs\<rparr>" k0 fl] r by (simp add: newDB_def logReady_def openable_def)
  have inner: "wtriple fl (\<lambda>w. replayed fl (?d\<lparr>colls := cs\<rparr>) sg t k0 (Inr d2) (disk w) \<and> held w = finsert (lockPath dr) hs)
     (do { s \<leftarrow> writeSnapshot None d2;
           (case s of (Some e, _) \<Rightarrow> abandon (lockPath dr) e | (None, d3) \<Rightarrow> ret (Inr d3)) })
     (openResult dr o' cs sg fl hs)" for d2
    apply (rule wtriple_at)
    subgoal premises prems for w
      apply (rule wtriple_bind)
       apply (rule wtriple_pre [OF wtriple_lift [OF triple_firstSnapshot [OF dr r conjunct1 [OF prems]], where hs = "held w"]])
       apply simp
      subgoal for s
        apply (cases s)
        subgoal for a d3
          apply (cases a)
           apply (simp, rule wtriple_ret, use prems in \<open>simp add: opened_def openResult_def\<close>)
          apply (simp add: conjunct2 [OF prems])
          by (rule wtriple_abandon [OF lk]) (simp add: opened_def)
        done
      done
    done
  show ?thesis
    unfolding openRecover_def
    apply (rule wtriple_sum [OF wtriple_pre [OF wtriple_lift [OF ld, where hs = "finsert (lockPath dr) hs"]]], simp)
     apply (rule wtriple_abandon [OF lk], use st in simp)
    subgoal for d1
      apply (rule wtriple_assume [where A = "d1 = ?d\<lparr>colls := cs\<rparr>"], simp)
      apply (simp, rule wtriple_sum [OF wtriple_pre [OF wtriple_lift [OF rp, where hs = "finsert (lockPath dr) hs"]]], simp)
       apply (rule wtriple_abandon [OF lk], use replayed_safe [OF r] in blast)
      by (rule inner)
    done
qed

lemma wtriple_openLocked:
  assumes dr: "list_all cleanComp dr" and lk: "lockPath dr |\<notin>| hs"
    and w: "openable dr cs sg t (disk w)" "isDir (disk w) dr" "held w = finsert (lockPath dr) hs"
  shows "wtriple fl (\<lambda>w'. w' = w) (openLocked (lockPath dr) dr o') (openResult dr o' cs sg fl hs)"
  unfolding openLocked_def
  apply (rule wtriple_sum [OF wtriple_pre [OF wtriple_lift [OF triple_openLog_steady [OF w(1,2)], where hs = "held w"]]], simp)
   apply (rule wtriple_at)
  subgoal for e w'
    apply (rule wtriple_bind [OF wtriple_pre [OF wtriple_sysUnlock [of fl "disk w'" "held w'"]]], simp)
    by (rule wtriple_ret) (use w(3) lk steady_safe in \<open>auto simp: openResult_def\<close>)
  apply (rule wtriple_at)
  subgoal premises prems for i w'
    by (rule wtriple_pre [OF wtriple_recover [OF dr _ lk, of cs sg t i "disk w'"]]) (use prems w(3) in auto)
  done

text \<open>
  \<open>Open\<close> returns the recovered state, or fails because a system call failed; either way the
  disk still holds that state.
\<close>

theorem wtriple_Open:
  assumes dr: "list_all cleanComp dr" and o: "openable dr cs sg t k0" and lk: "lockPath dr |\<notin>| hs"
    and v: "validate (fold (\<lambda>f x. f x) os defaultOptions) = None"
  shows "wtriple fl (\<lambda>w. disk w = k0 \<and> held w = hs) (Open dr os)
     (openResult dr (fold (\<lambda>f x. f x) os defaultOptions) cs sg fl hs)"
proof -
  let ?o = "fold (\<lambda>f x. f x) os defaultOptions"
  have k0: "ok (place dr) k0" "stableBut {} k0" using o by (simp_all add: openable_def)
  note mk = wtriple_lift [OF triple_MkdirAll [OF dirsOnly_dr [OF dr], where fl = fl and ?k0.0 = k0], of hs]
  have bad: "openResult dr ?o cs sg fl hs (Inl e) w"
    if "fl" "ok (place dr) (disk w)" "keeps (place dr) {lockPath dr} k0 (disk w)" "held w = hs" for e w
    using steady_safe [OF openable_keeps(1) [OF o that(2,3)]] that by (simp add: openResult_def)
  have A: "wtriple fl (\<lambda>w'. w' = w)
      (do { lk \<leftarrow> Acquire (lockPath dr);
         (case lk of Inl e \<Rightarrow> ret (Inl e) | Inr flock \<Rightarrow> openLocked flock dr ?o) })
      (openResult dr ?o cs sg fl hs)"
    if w: "ok (place dr) (disk w)" "keeps (place dr) {} k0 (disk w)" "stableBut {} (disk w)" "isDir (disk w) dr"
      "held w = hs" for w
  proof (rule wtriple_sum [OF wtriple_pre [OF wtriple_Acquire [OF w(1,3,4) lk]]])
    have kp: "keeps (place dr) {lockPath dr} k0 (disk w')" if "keeps (place dr) {lockPath dr} (disk w) (disk w')" for w'
      using keeps_trans [OF keeps_mono [OF w(2)] that] by simp
    show "wtriple fl (acquired dr fl hs (disk w) (Inl e)) (ret (Inl e)) (openResult dr ?o cs sg fl hs)" for e
      by (rule wtriple_ret, rule bad) (auto simp: acquired_def intro: kp)
    show "wtriple fl (acquired dr fl hs (disk w) (Inr p)) (openLocked p dr ?o) (openResult dr ?o cs sg fl hs)" for p
      apply (rule wtriple_at)
      subgoal premises prems for w'
      proof -
        have a: "ok (place dr) (disk w')" "keeps (place dr) {lockPath dr} k0 (disk w')" "stableBut {} (disk w')"
          "isDir (disk w') dr" "p = lockPath dr" "held w' = finsert (lockPath dr) hs"
          using prems kp [of w'] by (simp_all add: acquired_def)
        show ?thesis
          unfolding a(5) by (rule wtriple_openLocked [OF dr lk openable_keeps(2) [OF o a(1,2) _ a(3)] a(4,6)]) simp
      qed
      done
  qed (use w(5) in simp)
  show ?thesis
    unfolding Open_def Let_def v option.case
    apply (rule wtriple_option [OF wtriple_pre [OF mk]], use k0 in simp)
     apply (rule wtriple_at, rule A, simp_all)[1]
    apply (rule wtriple_ret, rule bad)
    using keeps_mono [of "place dr" "{}" k0 _ "{lockPath dr}"] by auto
qed

end
