(* ===== verification/System.thy ===== *)
theory System
  imports Reopen
begin

text \<open>
  The running database: clients and the worker goroutine interleaved in any order.  A step is one
  critical section of a client, or what the worker does from one critical section to the next: the
  parts that run outside \<open>db.mu\<close> and \<open>db.logMu\<close> touch only the disk and the fields the
  worker owns, so client steps commute with them.  Handling a wake-up has two critical sections, one
  to take the batch and one to encode the snapshot, if there is one.  \<open>worker_notify\<close> is the
  iteration in which no client gets between them; \<open>worker_log\<close> is its first half, \<open>worker_tick\<close>
  a snapshot at any time.  A writer that comes between the wake-up and the taking of the batch
  leaves another wake-up behind (\<open>b\<close>).  \<open>hist\<close> is a ghost: the accepted records in order, each
  with the commit its writer waits for.
\<close>

record sys =
  handle :: db
  env_world :: world
  hist :: "(wal_record \<times> nat) list"

inductive db_step :: "sys \<Rightarrow> sys \<Rightarrow> bool" where
  client_write:
    "DB_write r (handle s) = (Inr c, d') \<Longrightarrow>
       db_step s (s\<lparr>handle := d', hist := hist s @ [(r, c)]\<rparr>)"
| worker_notify:
    "notify (handle s) \<Longrightarrow> \<not> stopped (handle s) \<Longrightarrow> run_state (runNotify (handle s)) (env_world s) = (d', w') \<Longrightarrow>
       db_step s (s\<lparr>handle := d', env_world := w'\<rparr>)"
| worker_log:
    "notify (handle s) \<Longrightarrow> \<not> stopped (handle s) \<Longrightarrow> run_state (runLog ((handle s)\<lparr>notify := b\<rparr>)) (env_world s) = (d', w') \<Longrightarrow>
       db_step s (s\<lparr>handle := d', env_world := w'\<rparr>)"
| worker_tick:
    "\<not> stopped (handle s) \<Longrightarrow> run_state (runTick (handle s)) (env_world s) = (d', w') \<Longrightarrow>
       db_step s (s\<lparr>handle := d', env_world := w'\<rparr>)"
| begin_close:
    "Close_begin (handle s) = (None, d') \<Longrightarrow> db_step s (s\<lparr>handle := d'\<rparr>)"
| worker_stop:
    "closed (handle s) \<Longrightarrow> \<not> stopped (handle s) \<Longrightarrow> run_state (runStop (handle s)) (env_world s) = (d', w') \<Longrightarrow>
       db_step s (s\<lparr>handle := d', env_world := w'\<rparr>)"

inductive_cases db_stepE: "db_step s s'"

text \<open>
  The code accepts more records than it can store (see Limits).  A storable record has an operation
  of the API, a valid name not below \<open>lock/\<close>, an ID that is valid UTF-8 and a document nested at
  most 9999 levels.  The steps do not ask for that; the promises about recovery do.
\<close>

definition storable :: "wal_record \<Rightarrow> bool" where
  "storable r \<longleftrightarrow> recOK r \<and> okName (Coll r)"

text \<open>A writer has been told that its record is stored.\<close>

definition acked :: "sys \<Rightarrow> nat \<Rightarrow> bool" where
  "acked s i \<longleftrightarrow> i < length (hist s) \<and> commit_wait (snd (hist s ! i)) (handle s) = Some None"

abbreviation recs :: "sys \<Rightarrow> wal_record list" where
  "recs s \<equiv> map fst (hist s)"

subsection \<open>The invariant\<close>

text \<open>
  Bookkeeping of the group commits: every writer waits for the open commit or for one that has an
  outcome, and only the first \<open>m\<close> writers have been told that they succeeded.
\<close>

definition commitInv :: "db \<Rightarrow> nat list \<Rightarrow> nat \<Rightarrow> bool" where
  "commitInv d cids m \<longleftrightarrow>
     (commit d = None \<longleftrightarrow> pending d = []) \<and>
     (\<forall>c. commit d = Some c \<longrightarrow> c < nextCommit d \<and> fmlookup (results d) c = None) \<and>
     (\<forall>c. fmlookup (results d) c \<noteq> None \<longrightarrow> c < nextCommit d) \<and>
     (\<forall>i < length cids. (commit d = Some (cids ! i) \<or> fmlookup (results d) (cids ! i) \<noteq> None) \<and>
        (fmlookup (results d) (cids ! i) = Some None \<longrightarrow> i < m))"

definition noErr :: "db \<Rightarrow> bool" where
  "noErr d \<longleftrightarrow> (\<forall>c e. fmlookup (results d) c = Some e \<longrightarrow> e = None)"

text \<open>The disk under a worker whose error so far is \<open>err\<close>.\<close>

definition coreInv :: "path \<Rightarrow> ino \<Rightarrow> colls \<Rightarrow> bool \<Rightarrow> (wal_record \<times> nat) list \<Rightarrow> error option \<Rightarrow> db \<Rightarrow> disk \<Rightarrow> bool" where
  "coreInv dr lg cs fl H err d k \<longleftrightarrow> (let rs = map fst H in
     dir d = dr \<and> log d = lg \<and> recsOK rs \<and> colls d = collsAt cs rs \<and> (\<forall>n \<in> fset (dirty d). okName n) \<and>
     (\<exists>b m. m \<le> length H \<and> commitInv d (map snd H) m \<and>
        (if err = None then
           diskInv dr lg cs rs b m (fset (dirty d)) k \<and> pending d = map encRec (drop m rs) \<and>
           logSize d = int (length (encLog (seg rs b m))) \<and> noErr d
         else fl \<and> safe dr cs rs m k)))"

definition workerErr :: "db \<Rightarrow> error option" where
  "workerErr d = (if stopped d then failed d else runErr d)"

definition dbInv :: "path \<Rightarrow> ino \<Rightarrow> colls \<Rightarrow> bool \<Rightarrow> sys \<Rightarrow> bool" where
  "dbInv dr lg cs fl s \<longleftrightarrow> (let d = handle s in
     env fl (env_world s) \<and> coreInv dr lg cs fl (hist s) (workerErr d) d (disk (env_world s)) \<and>
     (pending d \<noteq> [] \<longrightarrow> notify d) \<and>
     (stopped d \<longrightarrow> closed d \<and> pending d = [] \<and> (failed d = None \<longrightarrow> dirty d = {||} \<and> logSize d = 0)))"

lemma coreInv_simps [simp]:
  "coreInv dr lg cs fl H err (d\<lparr>notify := x\<rparr>) k = coreInv dr lg cs fl H err d k"
  "coreInv dr lg cs fl H err (d\<lparr>closed := y\<rparr>) k = coreInv dr lg cs fl H err d k"
  "coreInv dr lg cs fl H err (d\<lparr>runErr := e\<rparr>) k = coreInv dr lg cs fl H err d k"
  "coreInv dr lg cs fl H err (d\<lparr>failed := e\<rparr>) k = coreInv dr lg cs fl H err d k"
  "coreInv dr lg cs fl H err (d\<lparr>stopped := z\<rparr>) k = coreInv dr lg cs fl H err d k"
  by (simp_all add: coreInv_def commitInv_def noErr_def)

lemma coreInv_open:
  assumes "coreInv dr lg cs fl H err d k" "rs = map fst H"
  obtains b m where "dir d = dr" "log d = lg" "recsOK rs" "colls d = collsAt cs rs" "\<forall>n \<in> fset (dirty d). okName n"
    "m \<le> length rs" "commitInv d (map snd H) m"
    "err = None \<Longrightarrow> diskInv dr lg cs rs b m (fset (dirty d)) k \<and> pending d = map encRec (drop m rs) \<and>
       logSize d = int (length (encLog (seg rs b m))) \<and> noErr d"
    "err \<noteq> None \<Longrightarrow> fl \<and> safe dr cs rs m k"
  using assms unfolding coreInv_def Let_def by (auto split: if_splits)

lemma coreInvI:
  assumes "dir d = dr" "log d = lg" "recsOK (map fst H)" "colls d = collsAt cs (map fst H)" "\<forall>n \<in> fset (dirty d). okName n"
    "m \<le> length H" "commitInv d (map snd H) m"
    "err = None \<Longrightarrow> diskInv dr lg cs (map fst H) b m (fset (dirty d)) k \<and> pending d = map encRec (drop m (map fst H)) \<and>
       logSize d = int (length (encLog (seg (map fst H) b m))) \<and> noErr d"
    "err \<noteq> None \<Longrightarrow> fl \<and> safe dr cs (map fst H) m k"
  shows "coreInv dr lg cs fl H err d k"
  unfolding coreInv_def Let_def using assms by (intro conjI exI [of _ b] exI [of _ m]) auto

subsection \<open>The worker's steps\<close>

lemma commitInv_answer:
  assumes "commitInv d cids m" "commit d = Some c" "e = None \<Longrightarrow> m' = length cids" "m \<le> m'"
    "pending d' = []" "commit d' = None" "nextCommit d' = nextCommit d" "results d' = fmupd c e (results d)"
  shows "commitInv d' cids m'"
  using assms unfolding commitInv_def by (auto dest: less_le_trans)

text \<open>The fields neither the log nor the snapshot touches.\<close>

definition sameCtl :: "db \<Rightarrow> db \<Rightarrow> bool" where
  "sameCtl d d' \<longleftrightarrow> closed d' = closed d \<and> notify d' = notify d \<and> stopped d' = stopped d \<and>
     runErr d' = runErr d \<and> failed d' = failed d \<and> opts d' = opts d"

definition loggedInv :: "path \<Rightarrow> ino \<Rightarrow> colls \<Rightarrow> bool \<Rightarrow> (wal_record \<times> nat) list \<Rightarrow> db \<Rightarrow> error option \<times> db \<Rightarrow> disk \<Rightarrow> bool" where
  "loggedInv dr lg cs fl H d rd k \<longleftrightarrow> coreInv dr lg cs fl H (fst rd) (snd rd) k \<and> pending (snd rd) = [] \<and> sameCtl d (snd rd)"

lemma log_coreInv:
  assumes inv: "coreInv dr lg cs fl H None d k0" and c: "commit d = Some c" "m \<le> length H"
    "commitInv d (map snd H) m" "diskInv dr lg cs (map fst H) b m (fset (dirty d)) k0"
    "pending d = map encRec (drop m (map fst H))" "logSize d = int (length (encLog (seg (map fst H) b m)))" "noErr d"
    and a: "appended dr fl lg (encLog (seg (map fst H) b m)) (logBuf (pending d)) k0 e k"
  shows "coreInv dr lg cs fl H e (d\<lparr>pending := [], commit := None,
     logSize := (if e = None then logSize d + int (length (logBuf (pending d))) else logSize d),
     results := fmupd c e (results d)\<rparr>) k"
proof -
  let ?rs = "map fst H"
  obtain b' m' where o: "dir d = dr" "log d = lg" "recsOK ?rs" "colls d = collsAt cs ?rs" "\<forall>n \<in> fset (dirty d). okName n"
    using coreInv_open [OF inv refl] by metis
  have bm: "b \<le> m" "m \<le> length ?rs" using c(4) by (simp_all add: diskInv_def)
  have p: "logBuf (pending d) = encLog (drop m ?rs)" using c(5) by (simp add: encLog_def)
  note a' = a [unfolded p]
  have sum: "encLog (seg ?rs b (length ?rs)) = encLog (seg ?rs b m) @ encLog (drop m ?rs)"
    by (simp only: seg_all [OF bm] encLog_simps)
  show ?thesis
  proof (cases e)
    case None
    have "diskInv dr lg cs ?rs b (length ?rs) (fset (dirty d)) k"
      using appended_diskInv [OF c(4)] a' None by simp
    then show ?thesis
      using None o c(6,7) p sum commitInv_answer [OF c(3,1), of None "length H"] c(2)
      by (intro coreInvI [where m = "length H" and b = b]) (simp_all add: noErr_def)
  next
    case (Some x)
    then have "fl" "safe dr cs ?rs m k"
      using appended_safe [OF c(4) o(3)] a' by (simp_all add: appended_def)
    then show ?thesis
      using Some o c(2) commitInv_answer [OF c(3,1), of "Some x" m] by (intro coreInvI [where m = m]) simp_all
  qed
qed

lemma triple_writeLog_inv:
  assumes inv: "coreInv dr lg cs fl H err d k0"
  shows "triple fl (\<lambda>k. k = k0) (writeLog err d) (loggedInv dr lg cs fl H d)"
proof -
  let ?rs = "map fst H"
  obtain b m where o: "dir d = dr" "log d = lg" "recsOK ?rs" "colls d = collsAt cs ?rs" "\<forall>n \<in> fset (dirty d). okName n"
    "m \<le> length ?rs" "commitInv d (map snd H) m"
    and n: "err = None \<Longrightarrow> diskInv dr lg cs ?rs b m (fset (dirty d)) k0 \<and> pending d = map encRec (drop m ?rs) \<and>
       logSize d = int (length (encLog (seg ?rs b m))) \<and> noErr d"
    and e: "err \<noteq> None \<Longrightarrow> fl \<and> safe dr cs ?rs m k0" using coreInv_open [OF inv refl] by metis
  have "triple fl (\<lambda>k. k = k0) (writeLog err d) (logged fl err d k0 (encLog (seg ?rs b m)))"
    by (rule triple_writeLog) (use n o in \<open>simp add: diskInv_def\<close>)
  then show ?thesis
  proof (rule triple_post)
    fix rd k assume L: "logged fl err d k0 (encLog (seg ?rs b m)) rd k"
    show "loggedInv dr lg cs fl H d rd k"
    proof (cases "commit d")
      case None
      then have "pending d = []" using o(7) by (simp add: commitInv_def)
      then have eta: "d\<lparr>pending := [], commit := None\<rparr> = d" using None by simp
      show ?thesis
        using L [unfolded logged_def None option.case eta] inv \<open>pending d = []\<close> by (simp add: loggedInv_def sameCtl_def)
    next
      case (Some c)
      then have "pending d \<noteq> []" using o(7) by (simp add: commitInv_def)
      show ?thesis
      proof (cases err)
        case None
        then show ?thesis
          using L Some \<open>pending d \<noteq> []\<close> log_coreInv [OF inv [unfolded None] Some _ o(7), of b] n o(1,2,6)
          by (auto simp: loggedInv_def logged_def sameCtl_def)
      next
        case (Some x)
        let ?d = "d\<lparr>pending := [], commit := None, results := fmupd c err (results d)\<rparr>"
        have rd: "rd = (err, ?d)" "k = k0" using L \<open>commit d = Some c\<close> Some by (simp_all add: logged_def)
        have "coreInv dr lg cs fl H err ?d k"
          using o e Some commitInv_answer [OF o(7) \<open>commit d = Some c\<close>, of err m] rd(2)
          by (intro coreInvI [where m = m]) simp_all
        then show ?thesis using rd by (simp add: loggedInv_def sameCtl_def)
      qed
    qed
  qed
qed

definition snapInv :: "path \<Rightarrow> ino \<Rightarrow> colls \<Rightarrow> bool \<Rightarrow> (wal_record \<times> nat) list \<Rightarrow> db \<Rightarrow> error option \<times> db \<Rightarrow> disk \<Rightarrow> bool" where
  "snapInv dr lg cs fl H d rd k \<longleftrightarrow> coreInv dr lg cs fl H (fst rd) (snd rd) k \<and>
     (fst rd = None \<longrightarrow> dirty (snd rd) = {||} \<and> logSize (snd rd) = 0) \<and>
     pending (snd rd) = pending d \<and> sameCtl d (snd rd)"

lemma commitInv_snap [simp]: "commitInv (d\<lparr>dirty := D\<rparr>) cids m = commitInv d cids m"
  "commitInv (d\<lparr>logSize := z\<rparr>) cids m = commitInv d cids m"
  by (simp_all add: commitInv_def)

lemma triple_writeSnapshot_inv:
  assumes dr: "list_all cleanComp dr" and cs: "collsOK cs" and inv: "coreInv dr lg cs fl H err d k0"
  shows "triple fl (\<lambda>k. k = k0) (writeSnapshot err d) (snapInv dr lg cs fl H d)"
proof (cases err)
  case (Some x)
  then show ?thesis
    using inv by (auto intro!: triple_ret simp: writeSnapshot_def snapInv_def sameCtl_def)
next
  case None
  let ?rs = "map fst H"
  obtain b m where o: "dir d = dr" "log d = lg" "recsOK ?rs" "colls d = collsAt cs ?rs" "\<forall>n \<in> fset (dirty d). okName n"
    "m \<le> length ?rs" "commitInv d (map snd H) m"
    and n: "diskInv dr lg cs ?rs b m (fset (dirty d)) k0" "pending d = map encRec (drop m ?rs)"
       "logSize d = int (length (encLog (seg ?rs b m)))" "noErr d" using coreInv_open [OF inv refl] None by metis
  let ?c = "encLog (seg ?rs b m)"
  have "triple fl (\<lambda>k. k = k0) (writeSnapshot None d) (snapshotted fl d k0 ?c)"
    by (rule triple_writeSnapshot)
       (use o n dr collsOK_collsAt [OF cs o(3)] diskInv_quiet [OF n(1) o(5)] in \<open>simp_all add: diskInv_def\<close>)
  then show ?thesis
    unfolding None
  proof (rule triple_post)
    fix rd k assume "snapshotted fl d k0 ?c rd k"
    then consider (noop) "rd = (None, d)" "dirty d = {||}" "logSize d = 0" "k = k0"
      | (complete) "rd = (None, d\<lparr>dirty := {||}, logSize := 0\<rparr>)"
          "emptied dr fl (collPaths dr (fset (dirty d))) lg ?c k0 (collTgt dr (collsAt cs ?rs)) None k"
      | (broken) e where "rd = (Some e, d\<lparr>dirty := {||}\<rparr>)" "fl" "safe dr cs ?rs m k"
      unfolding snapshotted_def Let_def o
      using moved_safe [OF n(1) o(5)] emptied_safe [OF n(1)] by (auto simp: moved_def emptied_def)
    then show "snapInv dr lg cs fl H d rd k"
    proof cases
      case noop
      then show ?thesis using inv None by (simp add: snapInv_def sameCtl_def)
    next
      case complete
      have "coreInv dr lg cs fl H None (d\<lparr>dirty := {||}, logSize := 0\<rparr>) k"
        using o n emptied_diskInv [OF n(1) complete(2)] by (intro coreInvI [where m = m and b = m]) (simp_all add: noErr_def)
      then show ?thesis using complete by (simp add: snapInv_def sameCtl_def)
    next
      case broken
      have "coreInv dr lg cs fl H (Some e) (d\<lparr>dirty := {||}\<rparr>) k"
        using o broken by (intro coreInvI [where m = m]) simp_all
      then show ?thesis using broken by (simp add: snapInv_def sameCtl_def)
    qed
  qed
qed

subsection \<open>Every step keeps the invariant\<close>

lemma DB_write_accepted:
  assumes "DB_write r d = (Inr c, d')"
  shows "\<not> closed d" "enqueue (encRec r) (applyRec r d) = (c, d')"
  using assms by (auto simp: DB_write_def encRec_def split: sum.splits if_splits prod.splits)

lemma applyRec_only_mem:
  "dir (applyRec r d) = dir d" "log (applyRec r d) = log d" "commit (applyRec r d) = commit d"
  "pending (applyRec r d) = pending d" "nextCommit (applyRec r d) = nextCommit d" "results (applyRec r d) = results d"
  "logSize (applyRec r d) = logSize d" "stopped (applyRec r d) = stopped d" "failed (applyRec r d) = failed d"
  "runErr (applyRec r d) = runErr d" "closed (applyRec r d) = closed d"
  by (simp_all add: applyRec_def split: option.split)

text \<open>Joining the open commit, or opening one.\<close>

lemma enqueue_fields:
  assumes "enqueue b d = (c, d')"
  shows "colls d' = colls d" "dirty d' = dirty d" "dir d' = dir d" "log d' = log d" "pending d' = pending d @ [b]"
    "commit d' = Some c" "results d' = results d" "logSize d' = logSize d" "notify d'" "stopped d' = stopped d"
    "failed d' = failed d" "runErr d' = runErr d" "closed d' = closed d"
    "commit d = None \<and> c = nextCommit d \<and> nextCommit d' = Suc c \<or> commit d = Some c \<and> nextCommit d' = nextCommit d"
  using assms by (auto simp: enqueue_def Let_def split: option.splits)

lemma commitInv_enqueue:
  assumes inv: "commitInv d cids m" and e: "enqueue b d = (c, d')" and m: "m \<le> length cids"
  shows "commitInv d' (cids @ [c]) m"
proof -
  note f = enqueue_fields [OF e]
  have nr: "fmlookup (results d) c = None" and lt: "c < nextCommit d'"
    using inv f(14) unfolding commitInv_def by (auto simp: f)
  have old: "commit d = Some x \<Longrightarrow> c = x" for x using f(14) by auto
  show ?thesis
    unfolding commitInv_def f
  proof (intro conjI allI impI)
    fix i assume i: "i < length (cids @ [c])"
    show "Some c = Some ((cids @ [c]) ! i) \<or> fmlookup (results d) ((cids @ [c]) ! i) \<noteq> None"
    proof (cases "i < length cids")
      case True
      then have "commit d = Some (cids ! i) \<or> fmlookup (results d) (cids ! i) \<noteq> None"
        using inv unfolding commitInv_def by blast
      then show ?thesis using True old by (auto simp: nth_append)
    qed (use i in \<open>simp add: nth_append\<close>)
    show "i < m" if "fmlookup (results d) ((cids @ [c]) ! i) = Some None"
      using inv i that nr unfolding commitInv_def by (cases "i = length cids") (auto simp: nth_append)
  next
    fix x assume "fmlookup (results d) x \<noteq> None"
    then show "x < nextCommit d'" using inv f(14) unfolding commitInv_def by (metis less_SucI)
  qed (use nr lt in auto)
qed

lemma commitInv_applyRec [simp]: "commitInv (applyRec r d) cids m = commitInv d cids m"
  by (simp add: commitInv_def applyRec_only_mem)

lemma coreInv_write:
  assumes inv: "coreInv dr lg cs fl H err d k" and w: "DB_write r d = (Inr c, d')" and r: "recOK r" "okName (Coll r)"
  shows "coreInv dr lg cs fl (H @ [(r, c)]) err d' k"
proof -
  let ?rs = "map fst H"
  obtain b m where o: "dir d = dr" "log d = lg" "recsOK ?rs" "colls d = collsAt cs ?rs" "\<forall>n \<in> fset (dirty d). okName n"
    "m \<le> length ?rs" "commitInv d (map snd H) m"
    and n: "err = None \<Longrightarrow> diskInv dr lg cs ?rs b m (fset (dirty d)) k \<and> pending d = map encRec (drop m ?rs) \<and>
       logSize d = int (length (encLog (seg ?rs b m))) \<and> noErr d"
    and e: "err \<noteq> None \<Longrightarrow> fl \<and> safe dr cs ?rs m k" using coreInv_open [OF inv refl] by metis
  note f = enqueue_fields [OF DB_write_accepted(2) [OF w]]
  have cl: "colls (applyRec r d) = collsAt cs (?rs @ [r])"
    using colls_applyAll [of "[r]" d] o(4) by (simp add: collsAt_append)
  have more: "diskInv dr lg cs (?rs @ [r]) b m (fset (dirty (applyRec r d))) k" if "err = None"
  proof (rule diskInv_more [OF conjunct1 [OF n [OF that]]])
    show "fset (dirty d) \<subseteq> fset (dirty (applyRec r d))" using applyRec_dirty_mono by (simp add: less_eq_fset.rep_eq)
    show "fmlookup (collsAt cs (?rs @ [r])) x = fmlookup (collsAt cs ?rs) x" if "x \<notin> fset (dirty (applyRec r d))" for x
      using applyRec_clean [of x r d] that cl o(4) by simp
  qed
  show ?thesis
  proof (rule coreInvI [where m = m and b = b])
    show "commitInv d' (map snd (H @ [(r, c)])) m"
      using commitInv_enqueue [OF _ DB_write_accepted(2) [OF w], of "map snd H" m] o(6,7) by simp
    show "\<forall>n \<in> fset (dirty d'). okName n"
      using applyRec_dirty_names [of r d] o(5) r(2) by (auto simp: f)
  qed (use o n e r more safe_more [of dr cs ?rs m k r] in \<open>auto simp: f cl applyRec_only_mem recsOK_def noErr_def\<close>)
qed

text \<open>One iteration of the worker, with the error it carries on.\<close>

definition workPost :: "path \<Rightarrow> ino \<Rightarrow> colls \<Rightarrow> bool \<Rightarrow> (wal_record \<times> nat) list \<Rightarrow> db \<Rightarrow> db \<Rightarrow> disk \<Rightarrow> bool" where
  "workPost dr lg cs fl H d d' k \<longleftrightarrow> coreInv dr lg cs fl H (workerErr d') d' k \<and> closed d' = closed d"

lemma triple_runTick:
  assumes dr: "list_all cleanComp dr" and cs: "collsOK cs" and inv: "coreInv dr lg cs fl H (runErr d) d k0" "\<not> stopped d"
  shows "triple fl (\<lambda>k. k = k0) (runTick d)
     (\<lambda>d' k. workPost dr lg cs fl H d d' k \<and> \<not> stopped d' \<and> pending d' = pending d \<and> notify d' = notify d)"
  unfolding runTick_def
  apply (rule triple_bind [OF triple_writeSnapshot_inv [OF dr cs inv(1)]])
  by (auto intro!: triple_ret split: prod.split
    simp: snapInv_def workPost_def workerErr_def) (use inv(2) in \<open>auto simp: sameCtl_def\<close>)

lemma triple_runLog:
  assumes "coreInv dr lg cs fl H (runErr d) d k0" "\<not> stopped d"
  shows "triple fl (\<lambda>k. k = k0) (runLog d) (\<lambda>d' k. workPost dr lg cs fl H d d' k \<and> \<not> stopped d' \<and> pending d' = [])"
  unfolding runLog_def
  by (rule triple_bind [OF triple_writeLog_inv [OF assms(1)]])
     (auto intro!: triple_ret split: prod.split simp: loggedInv_def workPost_def workerErr_def sameCtl_def assms(2))

lemma triple_runNotify:
  assumes dr: "list_all cleanComp dr" and cs: "collsOK cs" and inv: "coreInv dr lg cs fl H (runErr d) d k0" "\<not> stopped d"
  shows "triple fl (\<lambda>k. k = k0) (runNotify d) (\<lambda>d' k. workPost dr lg cs fl H d d' k \<and> \<not> stopped d' \<and> pending d' = [])"
  unfolding runNotify_def
proof (rule triple_bind [OF triple_runLog])
  show "coreInv dr lg cs fl H (runErr (d\<lparr>notify := False\<rparr>)) (d\<lparr>notify := False\<rparr>) k0" "\<not> stopped (d\<lparr>notify := False\<rparr>)"
    using inv by simp_all
  fix d1
  show "triple fl (\<lambda>k. workPost dr lg cs fl H (d\<lparr>notify := False\<rparr>) d1 k \<and> \<not> stopped d1 \<and> pending d1 = [])
     (if flushBytes (opts d1) \<le> logSize d1 then runTick d1 else ret d1)
     (\<lambda>d' k. workPost dr lg cs fl H d d' k \<and> \<not> stopped d' \<and> pending d' = [])"
  proof (rule triple_at)
    fix k assume L: "workPost dr lg cs fl H (d\<lparr>notify := False\<rparr>) d1 k \<and> \<not> stopped d1 \<and> pending d1 = []"
    then have c: "coreInv dr lg cs fl H (runErr d1) d1 k" by (auto simp: workPost_def workerErr_def)
    show "triple fl (\<lambda>k'. k' = k) (if flushBytes (opts d1) \<le> logSize d1 then runTick d1 else ret d1)
       (\<lambda>d' k. workPost dr lg cs fl H d d' k \<and> \<not> stopped d' \<and> pending d' = [])"
      using L by (auto intro!: triple_ret triple_post [OF triple_runTick [OF dr cs c]] simp: workPost_def)
  qed
qed

lemma triple_runStop:
  assumes dr: "list_all cleanComp dr" and cs: "collsOK cs" and inv: "coreInv dr lg cs fl H (runErr d) d k0"
  shows "triple fl (\<lambda>k. k = k0) (runStop d) (\<lambda>d' k. workPost dr lg cs fl H d d' k \<and> stopped d' \<and> pending d' = [] \<and>
     (failed d' = None \<longrightarrow> dirty d' = {||} \<and> logSize d' = 0))"
  unfolding runStop_def
  apply (rule triple_bind [OF triple_writeLog_inv [OF inv]])
  apply (rule triple_at)
  subgoal premises prems for x k
  proof (cases x)
    case (Pair e d1)
    have L: "coreInv dr lg cs fl H e d1 k" "pending d1 = []" "sameCtl d d1"
      using prems Pair by (simp_all add: loggedInv_def)
    show ?thesis
      unfolding Pair
      apply (simp, rule triple_bind [OF triple_writeSnapshot_inv [OF dr cs L(1)]])
      by (auto intro!: triple_ret split: prod.split
        simp: snapInv_def workPost_def workerErr_def) (use L in \<open>auto simp: sameCtl_def\<close>)
  qed
  done

lemma worker_dbInv:
  assumes inv: "dbInv dr lg cs fl s" and t: "triple fl (\<lambda>k. k = disk (env_world s)) m Q"
    and m: "run_state m (env_world s) = (d', w')"
    and Q: "\<And>k. Q d' k \<Longrightarrow> workPost dr lg cs fl (hist s) (handle s) d' k \<and> (pending d' \<noteq> [] \<longrightarrow> notify d') \<and>
      (stopped d' \<longrightarrow> closed (handle s) \<and> pending d' = [] \<and> (failed d' = None \<longrightarrow> dirty d' = {||} \<and> logSize d' = 0))"
  shows "dbInv dr lg cs fl (s\<lparr>handle := d', env_world := w'\<rparr>)"
proof -
  have e: "env fl (env_world s)" using inv by (simp add: dbInv_def Let_def)
  note T = tripleD [OF t e refl m]
  show ?thesis using Q [OF T(3)] T(2) by (simp add: dbInv_def Let_def workPost_def)
qed

lemma db_step_dbInv:
  assumes dr: "list_all cleanComp dr" and cs: "collsOK cs"
  shows "db_step s s' \<Longrightarrow> dbInv dr lg cs fl s \<Longrightarrow> list_all storable (recs s') \<Longrightarrow> dbInv dr lg cs fl s'"
proof (induction rule: db_step.induct)
  case (client_write r s c d')
  note f = enqueue_fields [OF DB_write_accepted(2) [OF client_write(1)]]
  have "\<not> stopped (handle s)" using client_write(2) DB_write_accepted(1) [OF client_write(1)] by (auto simp: dbInv_def Let_def)
  moreover have "recOK r" "okName (Coll r)" using client_write(3) by (simp_all add: storable_def)
  ultimately show ?case
    using client_write(2) coreInv_write [OF _ client_write(1), of dr lg cs fl "hist s" "runErr (handle s)"]
    by (simp add: dbInv_def Let_def f applyRec_only_mem workerErr_def)
next
  case (worker_notify s d' w')
  then have "coreInv dr lg cs fl (hist s) (runErr (handle s)) (handle s) (disk (env_world s))"
    by (simp add: dbInv_def Let_def workerErr_def)
  from worker_dbInv [OF worker_notify(4) triple_runNotify [OF dr cs this worker_notify(2)] worker_notify(3)]
  show ?case by simp
next
  case (worker_log s b d' w')
  then have "coreInv dr lg cs fl (hist s) (runErr (handle s)) (handle s) (disk (env_world s))"
    by (simp add: dbInv_def Let_def workerErr_def)
  then have "triple fl (\<lambda>k. k = disk (env_world s)) (runLog ((handle s)\<lparr>notify := b\<rparr>))
      (\<lambda>d' k. workPost dr lg cs fl (hist s) (handle s) d' k \<and> \<not> stopped d' \<and> pending d' = [])"
    using triple_runLog [of dr lg cs fl "hist s" "(handle s)\<lparr>notify := b\<rparr>"] worker_log(2) by (simp add: workPost_def)
  from worker_dbInv [OF worker_log(4) this worker_log(3)] show ?case by simp
next
  case (worker_tick s d' w')
  then have "coreInv dr lg cs fl (hist s) (runErr (handle s)) (handle s) (disk (env_world s))"
    "pending (handle s) \<noteq> [] \<longrightarrow> notify (handle s)"
    by (simp_all add: dbInv_def Let_def workerErr_def)
  with worker_dbInv [OF worker_tick(3) triple_runTick [OF dr cs this(1) worker_tick(1)] worker_tick(2)]
  show ?case by simp
next
  case (begin_close s d')
  then show ?case by (auto simp: dbInv_def Let_def Close_begin_def workerErr_def split: if_splits)
next
  case (worker_stop s d' w')
  then have "coreInv dr lg cs fl (hist s) (runErr (handle s)) (handle s) (disk (env_world s))"
    by (simp add: dbInv_def Let_def workerErr_def)
  from worker_dbInv [OF worker_stop(4) triple_runStop [OF dr cs this] worker_stop(3)] worker_stop(1)
  show ?case by simp
qed

lemma db_step_hist: "db_step s s' \<Longrightarrow> \<exists>h. hist s' = hist s @ h"
  by (induction rule: db_step.induct) simp_all

lemma db_steps_dbInv:
  assumes "list_all cleanComp dr" "collsOK cs" "db_step\<^sup>*\<^sup>* s s'" "dbInv dr lg cs fl s" "list_all storable (recs s')"
  shows "dbInv dr lg cs fl s'"
  using assms(3,5)
proof (induction rule: rtranclp_induct)
  case (step s1 s2)
  obtain h where "hist s2 = hist s1 @ h" using db_step_hist [OF step(2)] by blast
  then have "dbInv dr lg cs fl s1" using step by simp
  then show ?case using db_step_dbInv [OF assms(1,2) step(2)] step.prems by blast
qed (use assms(4) in simp)

end
