(* ===== verification/Guarantees.thy ===== *)
theory Guarantees
  imports System
begin

text \<open>
  What the database promises across power losses: the whole life of a directory, from an empty
  disk through any number of openings, runs and power losses.
\<close>

subsection \<open>The life of a directory\<close>

definition emptyDisk :: disk where
  "emptyDisk = \<lparr>ents = fmempty, content = (\<lambda>_. []), dhist = (\<lambda>_. [\<lambda>_. None]), chist = (\<lambda>_. [[]]), nextIno = 0\<rparr>"

text \<open>The machine has started on disk \<open>k\<close>; \<open>fl\<close> says whether system calls may fail.\<close>

definition booted :: "bool \<Rightarrow> disk \<Rightarrow> world \<Rightarrow> bool" where
  "booted fl k w \<longleftrightarrow> disk w = k \<and> held w = {||} \<and> env fl w"

definition start :: "db \<Rightarrow> world \<Rightarrow> sys" where
  "start d w = \<lparr>handle = d, env_world = w, hist = []\<rparr>"

text \<open>
  A run of the database on disk \<open>k\<close>: it is opened, giving \<open>d\<close>, and then clients and the
  worker take any number of steps.
\<close>

definition runsTo :: "path \<Rightarrow> bool \<Rightarrow> disk \<Rightarrow> db \<Rightarrow> sys \<Rightarrow> bool" where
  "runsTo dr fl k d s \<longleftrightarrow> (\<exists>w os w'. booted fl k w \<and> run_state (Open dr os) w = (Inr d, w') \<and> db_step\<^sup>*\<^sup>* (start d w') s)"

text \<open>
  The disks found at power-on, with the records the clients wrote in the life of the directory so
  far.  A power loss during \<open>Open\<close> is an \<open>Open\<close> in which every system call from that point
  on fails, and likewise for a power loss during a step of the worker.
\<close>

inductive poweredOff :: "path \<Rightarrow> wal_record set \<Rightarrow> disk \<Rightarrow> bool" for dr where
  fresh: "poweredOff dr {} emptyDisk"
| lost_open: "poweredOff dr R k \<Longrightarrow> booted True k w \<Longrightarrow> run_state (Open dr os) w = (Inl e, w') \<Longrightarrow>
    crashOf (disk w') k' \<Longrightarrow> poweredOff dr R k'"
| lost_run: "poweredOff dr R k \<Longrightarrow> runsTo dr True k d s \<Longrightarrow> crashOf (disk (env_world s)) k' \<Longrightarrow>
    poweredOff dr (R \<union> set (recs s)) k'"

text \<open>The lives and runs in which every record was storable.\<close>

definition safeOff :: "path \<Rightarrow> disk \<Rightarrow> bool" where
  "safeOff dr k \<longleftrightarrow> (\<exists>R. poweredOff dr R k \<and> (\<forall>r \<in> R. storable r))"

definition safeRun :: "path \<Rightarrow> bool \<Rightarrow> disk \<Rightarrow> db \<Rightarrow> sys \<Rightarrow> bool" where
  "safeRun dr fl k d s \<longleftrightarrow> runsTo dr fl k d s \<and> list_all storable (recs s)"

lemma safe_life:
  assumes "poweredOff dr R k" "runsTo dr fl k d s" "\<forall>r \<in> R \<union> set (recs s). storable r"
  shows "safeOff dr k" "safeRun dr fl k d s"
  using assms unfolding safeOff_def safeRun_def by (auto simp: list_all_iff)

lemma safeOff_fresh: "safeOff dr emptyDisk"
  and safeOff_open: "safeOff dr k \<Longrightarrow> booted True k w \<Longrightarrow> run_state (Open dr os) w = (Inl e, w') \<Longrightarrow>
    crashOf (disk w') k' \<Longrightarrow> safeOff dr k'"
  and safeOff_run: "safeOff dr k \<Longrightarrow> safeRun dr True k d s \<Longrightarrow> crashOf (disk (env_world s)) k' \<Longrightarrow> safeOff dr k'"
  unfolding safeOff_def safeRun_def list_all_iff using poweredOff.intros [of dr] by (blast, blast, meson UnE)

subsection \<open>What a disk holds\<close>

definition holds :: "path \<Rightarrow> colls \<Rightarrow> disk \<Rightarrow> bool" where
  "holds dr V k \<longleftrightarrow> (\<exists>cs sg t. openable dr cs sg t k \<and> collsAt cs sg = V)"

lemma stableDir_root [simp]: "stableDir k []"
  by (simp add: stableDir_def)

lemma openable_empty: "openable dr fmempty [] [] emptyDisk"
proof -
  have iv: "\<not> inVer emptyDisk D v c n" for D v c n by (auto simp: inVer_def emptyDisk_def)
  have h: "hyg emptyDisk"
    by (auto simp: hyg_def hygCur_def hygVer_def hygTree_def iv) (simp_all add: emptyDisk_def children_def [abs_def])
  have p: "possAt emptyDisk (D @ [c]) {None}" for D c
    by (simp add: possAt_def emptyDisk_def nodeIn_def)
  have "possAt emptyDisk (collPath dr n) {None}" for n by (simp add: collPath_alt p flip: append_assoc)
  then show ?thesis
    using h p by (auto simp: openable_def ok_def allowed_def iv snapOf_def collsOK_def recsOK_def intro!: exI [of _ None])
       (simp add: stableBut_def emptyDisk_def)
qed

lemma holds_empty: "holds dr fmempty emptyDisk"
  unfolding holds_def using openable_empty collsAt_Nil by blast

text \<open>A disk on which every recovery gives the same state holds that state after a power loss.\<close>

lemma safe_holds:
  assumes "safe dr cs rs (length rs) k" "collsOK cs" "recsOK rs" "crashOf k k'"
  shows "holds dr (collsAt cs rs) k'"
proof -
  obtain cs' sg t where o: "openable dr cs' sg t k'"
    "\<And>c. \<exists>i. length rs \<le> i \<and> i \<le> length rs \<and> cell (collsAt cs' sg) c = cell (collsAt cs (take i rs)) c"
    using safe_crash [OF assms] by metis
  have "cell (collsAt cs' sg) c = cell (collsAt cs rs) c" for c
  proof -
    obtain i where i: "length rs \<le> i" "i \<le> length rs" "cell (collsAt cs' sg) c = cell (collsAt cs (take i rs)) c"
      using o(2) by blast
    then show ?thesis by simp
  qed
  then have "collsAt cs' sg = collsAt cs rs" by (rule colls_eqI)
  with o(1) show ?thesis unfolding holds_def by blast
qed

lemma run_wtriple:
  assumes "wtriple fl P m Q" "env fl w" "P w" "run_state m w = (a, w')"
  shows "env fl w'" "Q a w'"
  using wtripleD [OF assms] .

text \<open>\<open>Open\<close> on a disk that holds \<open>V\<close>.\<close>

lemma Open_invalid:
  assumes "validate (fold (\<lambda>f x. f x) os defaultOptions) = Some x"
  shows "run_state (Open dr os) w = (Inl x, w)"
  using assms by (simp add: Open_def Let_def)

lemma openable_safe:
  assumes "openable dr cs sg t k"
  shows "safe dr cs sg (length sg) k"
  by (rule steady_safe [OF openable_keeps(1) [OF assms, of k "{}"]]) (use assms in \<open>simp_all add: openable_def\<close>)

lemma Open_failed_safe:
  assumes "list_all cleanComp dr" "openable dr cs sg t k" "booted fl k w" "run_state (Open dr os) w = (Inl e, w')"
  shows "safe dr cs sg (length sg) (disk w')"
proof (cases "validate (fold (\<lambda>f x. f x) os defaultOptions)")
  case None
  have "openResult dr (fold (\<lambda>f x. f x) os defaultOptions) cs sg fl {||} (Inl e) w'"
    by (rule run_wtriple(2) [OF wtriple_Open [OF assms(1,2) _ None] _ _ assms(4)])
       (use assms(3) in \<open>simp_all add: booted_def\<close>)
  then show ?thesis by (simp add: openResult_def)
next
  case (Some x)
  then show ?thesis using Open_invalid assms(3,4) openable_safe [OF assms(2)] by (simp add: booted_def)
qed

lemma Open_failed:
  assumes "list_all cleanComp dr" "holds dr V k" "booted fl k w" "run_state (Open dr os) w = (Inl e, w')"
  shows "hyg (disk w')" "crashOf (disk w') k' \<Longrightarrow> holds dr V k'"
proof -
  obtain cs sg t where o: "openable dr cs sg t k" "collsAt cs sg = V" using assms(2) unfolding holds_def by blast
  note s = Open_failed_safe [OF assms(1) o(1) assms(3,4)]
  show "hyg (disk w')" using s by (simp add: safe_def ok_def)
  show "crashOf (disk w') k' \<Longrightarrow> holds dr V k'" using safe_holds [OF s] o by (auto simp: openable_def)
qed

lemma holds_collsOK: "holds dr V k \<Longrightarrow> collsOK V"
  unfolding holds_def openable_def using collsOK_collsAt by blast

lemma Open_opened:
  assumes "list_all cleanComp dr" "holds dr V k" "booted fl k w" "run_state (Open dr os) w = (Inr d, w')"
  shows "colls d = V" "\<exists>lg. dbInv dr lg V fl (start d w')" "lockPath dr |\<in>| held w'"
    "\<not> closed d" "\<not> stopped d"
proof -
  obtain cs sg t where o: "openable dr cs sg t k" "collsAt cs sg = V" using assms(2) unfolding holds_def by blast
  have v: "validate (fold (\<lambda>f x. f x) os defaultOptions) = None"
    using Open_invalid [of os] assms(4) by (cases "validate (fold (\<lambda>f x. f x) os defaultOptions)") auto
  note W = wtriple_Open [OF assms(1) o(1) _ v, of "{||}" fl]
  have e: "env fl w'" by (rule run_wtriple(1) [OF W _ _ assms(4)]) (use assms(3) in \<open>simp_all add: booted_def\<close>)
  have r: "openResult dr (fold (\<lambda>f x. f x) os defaultOptions) cs sg fl {||} (Inr d) w'"
    by (rule run_wtriple(2) [OF W _ _ assms(4)]) (use assms(3) in \<open>simp_all add: booted_def\<close>)
  then obtain i where d: "d = (newDB dr (fold (\<lambda>f x. f x) os defaultOptions) i)\<lparr>colls := V\<rparr>"
      "diskInv dr i V [] 0 0 {} (disk w')" and l: "held w' = {|lockPath dr|}"
    using o(2) by (auto simp: openResult_def)
  then show "colls d = V" "lockPath dr |\<in>| held w'" "\<not> closed d" "\<not> stopped d" by (simp_all add: newDB_def)
  have "coreInv dr i V fl [] None d (disk w')"
    by (rule coreInvI [where m = 0 and b = 0]) (use d in \<open>simp_all add: newDB_def commitInv_def recsOK_def noErr_def\<close>)
  then show "\<exists>lg. dbInv dr lg V fl (start d w')"
    using d e by (auto simp: dbInv_def start_def Let_def workerErr_def newDB_def)
qed

lemma safeRun_inv:
  assumes "list_all cleanComp dr" "holds dr V k" "safeRun dr fl k d s"
  shows "colls d = V" "\<exists>lg. dbInv dr lg V fl s"
proof -
  obtain w os w' where r: "booted fl k w" "run_state (Open dr os) w = (Inr d, w')" "db_step\<^sup>*\<^sup>* (start d w') s"
      "list_all storable (recs s)"
    using assms(3) unfolding safeRun_def runsTo_def by blast
  note O = Open_opened [OF assms(1,2) r(1,2)]
  show "colls d = V" by (rule O(1))
  show "\<exists>lg. dbInv dr lg V fl s" using O(2) db_steps_dbInv [OF assms(1) holds_collsOK [OF assms(2)] r(3) _ r(4)] by blast
qed

text \<open>The records whose writers were told they succeeded are covered on disk.\<close>

lemma dbInv_safe:
  assumes "dbInv dr lg V fl s"
  obtains A where "safe dr V (recs s) A (disk (env_world s))" "\<forall>j. acked s j \<longrightarrow> j < A" "recsOK (recs s)"
proof -
  obtain b m where m: "recsOK (recs s)" "commitInv (handle s) (map snd (hist s)) m"
    "workerErr (handle s) = None \<Longrightarrow> diskInv dr lg V (recs s) b m (fset (dirty (handle s))) (disk (env_world s))"
    "workerErr (handle s) \<noteq> None \<Longrightarrow> safe dr V (recs s) m (disk (env_world s))"
    using assms coreInv_open [OF _ refl] unfolding dbInv_def Let_def by metis
  have "safe dr V (recs s) m (disk (env_world s))"
    using m(3,4) diskInv_safe by (cases "workerErr (handle s)") auto
  moreover have "\<forall>j. acked s j \<longrightarrow> j < m"
    using m(2) by (auto simp: acked_def commit_wait_def commitInv_def)
  ultimately show thesis using that m(1) by blast
qed

text \<open>The state after a power loss, cell by cell, is one the database went through after the last acknowledgement.\<close>

definition recovers :: "sys \<Rightarrow> colls \<Rightarrow> colls \<Rightarrow> bool" where
  "recovers s V V' \<longleftrightarrow> (\<forall>c. \<exists>i \<le> length (hist s). (\<forall>j. acked s j \<longrightarrow> j < i) \<and>
     cell V' c = cell (collsAt V (take i (recs s))) c)"

lemma run_crash:
  assumes "list_all cleanComp dr" "holds dr V k" "safeRun dr fl k d s" "crashOf (disk (env_world s)) k'"
  obtains V' where "holds dr V' k'" "recovers s V V'"
proof -
  obtain lg where inv: "dbInv dr lg V fl s" using safeRun_inv(2) [OF assms(1-3)] by blast
  obtain A where A: "safe dr V (recs s) A (disk (env_world s))" "\<forall>j. acked s j \<longrightarrow> j < A" "recsOK (recs s)"
    using dbInv_safe [OF inv] .
  obtain cs' sg t where o: "openable dr cs' sg t k'"
    "\<And>c. \<exists>i. A \<le> i \<and> i \<le> length (recs s) \<and> cell (collsAt cs' sg) c = cell (collsAt V (take i (recs s))) c"
    using safe_crash [OF A(1) holds_collsOK [OF assms(2)] A(3) assms(4)] by metis
  have "\<exists>i \<le> length (hist s). (\<forall>j. acked s j \<longrightarrow> j < i) \<and> cell (collsAt cs' sg) c = cell (collsAt V (take i (recs s))) c" for c
    using o(2) [of c] A(2) by (auto intro: less_le_trans)
  then have "recovers s V (collsAt cs' sg)" by (simp add: recovers_def)
  then show thesis using that o(1) unfolding holds_def by blast
qed

lemma poweredOff_holds:
  assumes "list_all cleanComp dr" "poweredOff dr R k" "\<forall>r \<in> R. storable r"
  shows "\<exists>V. holds dr V k"
  using assms(2,3)
proof induction
  case fresh
  show ?case using holds_empty by blast
next
  case (lost_open R k w os e w' k')
  then show ?case using Open_failed(2) [OF assms(1)] by blast
next
  case (lost_run R k d s k')
  then obtain V where "holds dr V k" by blast
  moreover have "safeRun dr True k d s" using lost_run.hyps(2) lost_run.prems by (simp add: safeRun_def list_all_iff)
  ultimately show ?case using run_crash [OF assms(1) _ _ lost_run.hyps(3)] by metis
qed

lemma safeOff_holds: "list_all cleanComp dr \<Longrightarrow> safeOff dr k \<Longrightarrow> \<exists>V. holds dr V k"
  unfolding safeOff_def using poweredOff_holds by blast

end
