(* ===== verification/Promises.thy ===== *)
theory Promises
  imports Guarantees
begin

text \<open>
  The durability properties of the database, and one concrete run of it that meets their
  hypotheses: a document is stored, the power fails, and the directory is opened again.

  The properties about recovery ask that every record written in the life of the directory is
  \<open>storable\<close>: the code does not check it, and Limits shows what happens otherwise.
\<close>

subsection \<open>A concrete run\<close>

definition demoWorld :: "disk \<Rightarrow> world" where
  "demoWorld k = \<lparr>disk = k, held = {||}, faults = (\<lambda>_. None), tick = 0, rangeOrder = sorted_list_of_fset\<rparr>"

definition demoRec :: wal_record where
  "demoRec = \<lparr>Op = ''set'', Coll = ''u'', ID = ''a'', Doc = ''1''\<rparr>"

lemma demoWorld_booted: "booted fl k (demoWorld k)"
  by (simp add: booted_def demoWorld_def env_def sorted_list_of_fset.rep_eq)

lemma demoRec_ok: "recOK demoRec" "okName (Coll demoRec)"
proof -
  have "canonAt 1 ''1''" by code_simp
  then have "canonAt 9999 ''1''" by (rule canonAt_mono) simp
  moreover have "validName ''u''" by code_simp
  moreover have "validUTF8 ''a''" by (simp add: plainText_body plainText_def)
  ultimately show "recOK demoRec" "okName (Coll demoRec)"
    by (simp_all add: recOK_def demoRec_def opSet_def okName_def)
qed

lemma env_weaken: "env False w \<Longrightarrow> env fl w"
  by (simp add: env_def)

lemma demoRec_storable: "storable demoRec"
  using demoRec_ok by (simp add: storable_def)

lemma safeRun_weaken: "safeRun dr False k d s \<Longrightarrow> safeRun dr fl k d s"
  unfolding safeRun_def runsTo_def booted_def using env_weaken by blast

lemma safeRun_plain:
  assumes "safeRun dr False k d s"
  shows "runsTo dr fl k d s" "\<forall>r \<in> {} \<union> set (recs s). storable r"
  using safeRun_weaken [OF assms] by (simp_all add: safeRun_def list_all_iff)

lemma safeRun_step: "safeRun dr fl k d s \<Longrightarrow> db_step s s' \<Longrightarrow> list_all storable (recs s') \<Longrightarrow> safeRun dr fl k d s'"
  unfolding safeRun_def runsTo_def by (meson rtranclp.rtrancl_into_rtrancl)

lemma safeRun_work:
  assumes "safeRun dr fl k d s" "db_step s s'" "hist s' = hist s"
  shows "safeRun dr fl k d s'"
  using safeRun_step [OF assms(1,2)] assms(1,3) by (simp add: safeRun_def)

text \<open>Without faults \<open>Open\<close> succeeds on every disk that holds a state.\<close>

lemma Open_faultless:
  assumes "list_all cleanComp dr" "holds dr V k" "booted False k w"
    "validate (fold (\<lambda>f x. f x) os defaultOptions) = None"
  obtains d w' where "run_state (Open dr os) w = (Inr d, w')"
proof -
  obtain cs sg t where o: "openable dr cs sg t k" using assms(2) unfolding holds_def by blast
  obtain r w' where r: "run_state (Open dr os) w = (r, w')" by fastforce
  have "openResult dr (fold (\<lambda>f x. f x) os defaultOptions) cs sg False {||} r w'"
    by (rule run_wtriple(2) [OF wtriple_Open [OF assms(1) o _ assms(4)] _ _ r])
       (use assms(3) in \<open>simp_all add: booted_def\<close>)
  then show thesis using that r by (cases r) (auto simp: openResult_def)
qed

lemma validate_default: "validate (fold (\<lambda>f x. f x) [] defaultOptions) = None"
  by (simp add: validate_def defaultOptions_def)

text \<open>A power loss may keep all entries, and leave in a file any content since its last sync.\<close>

lemma crash_to:
  assumes "hyg k" "c \<in> set (chist k i)"
  shows "\<exists>k'. crashOf k k' \<and> ents k' = ents k \<and> content k' = (content k)(i := c) \<and> nextIno k' = nextIno k"
proof -
  let ?v = "\<lambda>D. children (ents k) D" and ?c = "(content k)(i := c)"
  let ?k = "k\<lparr>content := ?c, dhist := (\<lambda>D. [?v D]), chist := (\<lambda>j. [?c j])\<rparr>"
  have "live ?v (D @ [x])" if "fmlookup (ents k) (D @ [x]) \<noteq> None" for D x
    using hyg_above [OF assms(1) that] by (auto simp: live_def children_def)
  then have "fmlookup (ents k) (D @ [x]) = (if live ?v (D @ [x]) then ?v D x else None)" for D x
    by (cases "fmlookup (ents k) (D @ [x])") (simp_all add: children_def)
  then have "survives k ?k ?v"
    using hyg_children [OF assms(1)] hyg_root [OF assms(1)] by (simp add: survives_def)
  then have "crashOf k ?k"
    using hyg_content [OF assms(1)] assms(2) by (auto simp: crashOf_def settled_def)
  then show ?thesis by (intro exI [of _ ?k]) simp
qed

lemma crash_exists: "hyg k \<Longrightarrow> \<exists>k'. crashOf k k'"
  using crash_to hyg_content by blast

lemma dbInv_hyg: "dbInv dr lg V fl s \<Longrightarrow> hyg (disk (env_world s))"
  by (erule dbInv_safe) (auto simp: safe_def ok_def)

text \<open>Without faults the worker reports no error.\<close>

lemma dbInv_faultless:
  assumes "dbInv dr lg V False s"
  shows "workerErr (handle s) = None" "commit_wait c (handle s) = Some e \<Longrightarrow> e = None"
  using assms coreInv_open [OF _ refl, of dr lg V False "hist s" "workerErr (handle s)"]
  unfolding dbInv_def Let_def commit_wait_def noErr_def by metis+

lemma commitInv_resolved:
  assumes "commitInv d (map snd H) m" "pending d = []" "j < length H"
  shows "commit_wait (snd (H ! j)) d \<noteq> None"
proof -
  have "commit d = Some (map snd H ! j) \<or> fmlookup (results d) (map snd H ! j) \<noteq> None" "commit d = None"
    using assms unfolding commitInv_def by auto
  then show ?thesis using assms(3) by (simp add: commit_wait_def)
qed

lemma dbInv_resolved:
  assumes "dbInv dr lg V fl s" "j < length (hist s)" "pending (handle s) = []"
  shows "commit_wait (snd (hist s ! j)) (handle s) \<noteq> None"
proof -
  obtain m where m: "commitInv (handle s) (map snd (hist s)) m"
    using assms(1) coreInv_open [OF _ refl, of dr lg V fl "hist s" "workerErr (handle s)"]
    unfolding dbInv_def Let_def by metis
  then show ?thesis using commitInv_resolved assms(2,3) by blast
qed

text \<open>Store one document, let the worker write it, crash, and open again.\<close>

abbreviation demoDir :: path where
  "demoDir \<equiv> [''db'']"

lemma demoDir_ok: "list_all cleanComp demoDir"
  by (simp add: cleanComp_def)

lemma demo_open:
  obtains d w' where "run_state (Open demoDir []) (demoWorld emptyDisk) = (Inr d, w')" "safeRun demoDir False emptyDisk d (start d w')"
    "colls d = fmempty" "\<not> closed d" "\<not> stopped d" "hist (start d w') = []"
proof -
  obtain d w' where r: "run_state (Open demoDir []) (demoWorld emptyDisk) = (Inr d, w')"
    using Open_faultless [OF demoDir_ok holds_empty demoWorld_booted validate_default] .
  then have run: "safeRun demoDir False emptyDisk d (start d w')"
    unfolding safeRun_def runsTo_def using demoWorld_booted by (auto simp: start_def)
  note O = Open_opened [OF demoDir_ok holds_empty demoWorld_booted r]
  show thesis by (rule that [OF r run O(1,4,5)]) (simp add: start_def)
qed

lemma demo_write:
  obtains d s c where "safeRun demoDir False emptyDisk d s" "hist s = [(demoRec, c)]" "colls d = fmempty"
    "\<not> closed (handle s)" "\<not> stopped (handle s)" "notify (handle s)" "commit_wait c (handle s) = None"
proof -
  obtain d w' where o: "safeRun demoDir False emptyDisk d (start d w')" "colls d = fmempty" "\<not> closed d" "\<not> stopped d"
    using demo_open by metis
  obtain c d1 where q: "enqueue (encRec demoRec) (applyRec demoRec d) = (c, d1)" by fastforce
  then have w: "DB_write demoRec (handle (start d w')) = (Inr c, d1)"
    using o(3) encRec(1) [OF demoRec_ok(1)] by (simp add: DB_write_def start_def)
  let ?s = "(start d w')\<lparr>handle := d1, hist := hist (start d w') @ [(demoRec, c)]\<rparr>"
  have st: "safeRun demoDir False emptyDisk d ?s"
    by (rule safeRun_step [OF o(1) db_step.client_write [OF w]]) (simp add: start_def demoRec_storable)
  note f = enqueue_fields [OF q]
  obtain lg where "dbInv demoDir lg fmempty False ?s" using safeRun_inv(2) [OF demoDir_ok holds_empty st] by blast
  then have "commit_wait c d1 = None"
    using coreInv_open [OF _ refl, of demoDir lg fmempty False "[(demoRec, c)]" _ d1 "disk w'"] f(6)
    unfolding dbInv_def Let_def commitInv_def commit_wait_def by (simp add: start_def) metis
  then show thesis using that [OF st] o f by (simp add: start_def applyRec_only_mem)
qed

text \<open>After the worker's next iteration the writer has its answer.\<close>

lemma demo_acked:
  obtains d s c where "safeRun demoDir False emptyDisk d s" "hist s = [(demoRec, c)]" "colls d = fmempty"
    "acked s 0" "\<not> closed (handle s)" "\<not> stopped (handle s)"
proof -
  obtain d s c where w: "safeRun demoDir False emptyDisk d s" "hist s = [(demoRec, c)]" "colls d = fmempty"
    "\<not> closed (handle s)" "\<not> stopped (handle s)" "notify (handle s)" using demo_write by metis
  obtain d2 w2 where n: "run_state (runNotify (handle s)) (env_world s) = (d2, w2)" by fastforce
  let ?s = "s\<lparr>handle := d2, env_world := w2\<rparr>"
  have st: "safeRun demoDir False emptyDisk d ?s" by (rule safeRun_work [OF w(1) db_step.worker_notify [OF w(6,5) n]]) simp
  obtain lg where i: "dbInv demoDir lg fmempty False s" "env False (env_world s)"
    using safeRun_inv(2) [OF demoDir_ok holds_empty w(1)] by (auto simp: dbInv_def Let_def)
  then have "coreInv demoDir lg fmempty False (hist s) (runErr (handle s)) (handle s) (disk (env_world s))"
    using w(5) by (simp add: dbInv_def Let_def workerErr_def)
  from tripleD(3) [OF triple_runNotify [OF demoDir_ok holds_collsOK [OF holds_empty] this w(5)] i(2) refl n]
  have p: "pending d2 = []" "\<not> stopped d2" "closed d2 = closed (handle s)" by (simp_all add: workPost_def)
  obtain lg' where inv: "dbInv demoDir lg' fmempty False ?s" using safeRun_inv(2) [OF demoDir_ok holds_empty st] by blast
  have "commit_wait c d2 = Some None"
    using dbInv_resolved [OF inv, of 0] dbInv_faultless(2) [OF inv, of c] p(1) w(2) by (cases "commit_wait c d2") auto
  then have "acked ?s 0" using w(2) by (simp add: acked_def)
  then show thesis using that [OF st] w(2-4) p by simp
qed

lemma safeRun_crash:
  assumes "list_all cleanComp dr" "holds dr V k" "safeRun dr fl k d s"
  obtains k' d' w' where "crashOf (disk (env_world s)) k'" "run_state (Open dr []) (demoWorld k') = (Inr d', w')"
proof -
  obtain lg where "dbInv dr lg V fl s" using safeRun_inv(2) [OF assms] by blast
  then obtain k' where k': "crashOf (disk (env_world s)) k'" using crash_exists dbInv_hyg by blast
  then obtain V' where "holds dr V' k'" using run_crash [OF assms] by metis
  then show thesis using that k' Open_faultless [OF assms(1) _ demoWorld_booted validate_default] by metis
qed

subsection \<open>Properties\<close>

lemma collsAt_applyAll: "collsAt (colls d) rs = colls (applyAll rs d)"
  by (simp add: colls_applyAll)

lemma reopened:
  assumes "list_all cleanComp dr" "safeOff dr k" "safeRun dr True k d s" "crashOf (disk (env_world s)) k'"
    "booted True k' w" "run_state (Open dr os) w = (Inr d', w')"
  shows "recovers s (colls d) (colls d')"
proof -
  obtain V where V: "holds dr V k" using safeOff_holds [OF assms(1,2)] by blast
  obtain V' where V': "holds dr V' k'" "recovers s V V'" using run_crash [OF assms(1) V assms(3,4)] .
  then show ?thesis
    using safeRun_inv(1) [OF assms(1) V assms(3)] Open_opened(1) [OF assms(1) V'(1) assms(5,6)] by simp
qed

text \<open>
  C1: Durability.  Take any life of a database directory (any number of earlier openings, runs and
  power losses), a run of the database in which clients and the worker interleave in any order and
  any system call may fail, and a power loss at any moment of it, be it in the middle of a log write,
  a snapshot or a recovery.  When the directory opens again, every document, and the existence of
  every collection, is as it was after some prefix of the accepted records that includes every
  record whose writer was told that it succeeded.  All records written so far are storable.
\<close>

theorem durability:
  assumes "list_all cleanComp dr" "poweredOff dr R k" "runsTo dr True k d s" "\<forall>r \<in> R \<union> set (recs s). storable r"
    and "crashOf (disk (env_world s)) k'"
    "booted True k' w" "run_state (Open dr os) w = (Inr d', w')"
  shows "\<forall>c. \<exists>i \<le> length (hist s). (\<forall>j. acked s j \<longrightarrow> j < i) \<and>
     cell (colls d') c = cell (colls (applyAll (take i (recs s)) d)) c"
  using reopened [OF assms(1) safe_life [OF assms(2-4)] assms(5-7)] by (simp add: recovers_def collsAt_applyAll)

text \<open>Witness for C1: one document, stored and acknowledged, then a power loss.\<close>

theorem durability_witness:
  "\<exists>d s k' d' w'. runsTo demoDir True emptyDisk d s \<and> acked s 0 \<and> crashOf (disk (env_world s)) k' \<and>
     run_state (Open demoDir []) (demoWorld k') = (Inr d', w') \<and>
     (\<forall>c. \<exists>i \<le> length (hist s). (\<forall>j. acked s j \<longrightarrow> j < i) \<and>
       cell (colls d') c = cell (colls (applyAll (take i (recs s)) d)) c)"
proof -
  obtain d s c where a: "safeRun demoDir False emptyDisk d s" "acked s 0" using demo_acked by metis
  obtain k' d' w' where k: "crashOf (disk (env_world s)) k'" "run_state (Open demoDir []) (demoWorld k') = (Inr d', w')"
    using safeRun_crash [OF demoDir_ok holds_empty a(1)] .
  note r = safeRun_plain [OF a(1)]
  show ?thesis
    using a(2) k r(1) durability [OF demoDir_ok poweredOff.fresh r k(1) demoWorld_booted k(2)] by blast
qed

lemma cell_after:
  assumes "j < i" "i \<le> length rs" "effect (rs ! j) c = Some v" "\<And>l. j < l \<Longrightarrow> l < length rs \<Longrightarrow> effect (rs ! l) c = None"
  shows "cell (colls (applyAll (take i rs) d)) c = v"
  using st.last_eff_nth [of j "take i rs" c v] assms by (simp add: cell_applyAll)

text \<open>
  C4: An acknowledged change is never lost: if the writer of a record was told that it succeeded,
  then after any power loss and reopening a document it changed has the value it wrote (or is gone,
  for a delete or a drop), unless a later accepted record changes the same document.  All records
  written so far are storable.
\<close>

theorem acknowledged_write_survives:
  assumes "list_all cleanComp dr" "poweredOff dr R k" "runsTo dr True k d s" "\<forall>r \<in> R \<union> set (recs s). storable r"
    and "crashOf (disk (env_world s)) k'"
    "booted True k' w" "run_state (Open dr os) w = (Inr d', w')"
    and "acked s j" "effect (recs s ! j) c = Some v"
    and "\<And>i. j < i \<Longrightarrow> i < length (hist s) \<Longrightarrow> effect (recs s ! i) c = None"
  shows "cell (colls d') c = v"
proof -
  obtain i where i: "i \<le> length (recs s)" "j < i" "cell (colls d') c = cell (colls (applyAll (take i (recs s)) d)) c"
    using reopened [OF assms(1) safe_life [OF assms(2-4)] assms(5-7)] assms(8) unfolding recovers_def collsAt_applyAll length_map by meson
  then show ?thesis using cell_after [OF i(2,1) assms(9)] assms(10) by simp
qed

text \<open>Witness for C4: the document of the concrete run is read back after the power loss.\<close>

theorem acknowledged_write_survives_witness:
  "\<exists>d s k' d' w'. runsTo demoDir True emptyDisk d s \<and> recs s = [demoRec] \<and> crashOf (disk (env_world s)) k' \<and>
     run_state (Open demoDir []) (demoWorld k') = (Inr d', w') \<and> cell (colls d') (''u'', Some ''a'') = Some ''1''"
proof -
  obtain d s c where a: "safeRun demoDir False emptyDisk d s" "hist s = [(demoRec, c)]" "acked s 0" using demo_acked by metis
  obtain k' d' w' where k: "crashOf (disk (env_world s)) k'" "run_state (Open demoDir []) (demoWorld k') = (Inr d', w')"
    using safeRun_crash [OF demoDir_ok holds_empty a(1)] .
  note r = safeRun_plain [OF a(1)]
  have e: "effect (recs s ! 0) (''u'', Some ''a'') = Some (Some ''1'')"
    using a(2) by (simp add: demoRec_def effect_def opSet_def)
  have "cell (colls d') (''u'', Some ''a'') = Some ''1''"
    by (rule acknowledged_write_survives [OF demoDir_ok poweredOff.fresh r k(1) demoWorld_booted k(2) a(3) e])
       (use a(2) in simp)
  moreover have "recs s = [demoRec]" using a(2) by simp
  ultimately show ?thesis using k by (intro exI conjI) (rule r)
qed

text \<open>
  C5: A directory whose records were storable opens again.  Let every record the clients ever wrote
  to the directory have an ID that is valid UTF-8, a document nested at most 9999 levels and a
  collection not below \<open>lock/\<close>, which the code does not check.  Then, after any life of the
  directory with power losses at any moment, and with valid options, \<open>Open\<close> returns a handle
  whenever no system call fails.  Without the condition it may not: a collection below \<open>lock/\<close>
  or a document of 10000 levels makes \<open>Open\<close> fail for good.
\<close>

theorem always_opens:
  assumes "list_all cleanComp dr" "poweredOff dr R k" "\<forall>r \<in> R. storable r" "booted False k w"
    and "validate (fold (\<lambda>f x. f x) os defaultOptions) = None"
  shows "\<exists>d w'. run_state (Open dr os) w = (Inr d, w') \<and> lockPath dr |\<in>| held w'"
proof -
  obtain V where V: "holds dr V k" using poweredOff_holds [OF assms(1-3)] by blast
  obtain d w' where r: "run_state (Open dr os) w = (Inr d, w')" using Open_faultless [OF assms(1) V assms(4,5)] .
  then show ?thesis using Open_opened(3) [OF assms(1) V assms(4)] by blast
qed

text \<open>Witness for C5: the disk after the power loss of the concrete run.\<close>

theorem always_opens_witness:
  "\<exists>d s k. runsTo demoDir True emptyDisk d s \<and> acked s 0 \<and> crashOf (disk (env_world s)) k \<and>
     (\<exists>d w'. run_state (Open demoDir []) (demoWorld k) = (Inr d, w') \<and> lockPath demoDir |\<in>| held w')"
proof -
  obtain d s c where a: "safeRun demoDir False emptyDisk d s" "acked s 0" using demo_acked by metis
  obtain k' where k: "crashOf (disk (env_world s)) k'" using safeRun_crash [OF demoDir_ok holds_empty a(1)] .
  note r = safeRun_plain [OF a(1)]
  show ?thesis
    using r(1) a(2) k always_opens [OF demoDir_ok poweredOff.lost_run [OF poweredOff.fresh r(1) k] r(2) demoWorld_booted validate_default]
    by blast
qed

text \<open>
  C6: Recovery can be interrupted.  If \<open>Open\<close> fails at any system call, or the power fails
  while it runs, the next \<open>Open\<close> that succeeds finds the same collections as one that had
  not been interrupted.  All records written so far are storable.
\<close>

theorem interrupted_recovery:
  assumes "list_all cleanComp dr" "poweredOff dr R k" "\<forall>r \<in> R. storable r"
    and "booted True k w1" "run_state (Open dr os1) w1 = (Inl e, w1')" "crashOf (disk w1') k'"
    and "booted True k' w2" "run_state (Open dr os2) w2 = (Inr d2, w2')"
    and "booted True k w3" "run_state (Open dr os3) w3 = (Inr d3, w3')"
  shows "colls d2 = colls d3"
proof -
  obtain V where V: "holds dr V k" using poweredOff_holds [OF assms(1-3)] by blast
  have "holds dr V k'" by (rule Open_failed(2) [OF assms(1) V assms(4-6)])
  then show ?thesis
    using Open_opened(1) [OF assms(1) _ assms(7,8)] Open_opened(1) [OF assms(1) V assms(9,10)] by simp
qed

text \<open>Witness for C6: a first \<open>Open\<close> in which every system call fails.\<close>

definition brokenWorld :: "disk \<Rightarrow> world" where
  "brokenWorld k = (demoWorld k)\<lparr>faults := (\<lambda>_. Some (EIO, 0))\<rparr>"

theorem interrupted_recovery_witness:
  "\<exists>d s k e w k' d2 w2 d3 w3. runsTo demoDir True emptyDisk d s \<and> acked s 0 \<and> crashOf (disk (env_world s)) k \<and>
     run_state (Open demoDir []) (brokenWorld k) = (Inl e, w) \<and> crashOf (disk w) k' \<and>
     run_state (Open demoDir []) (demoWorld k') = (Inr d2, w2) \<and>
     run_state (Open demoDir []) (demoWorld k) = (Inr d3, w3) \<and> colls d2 = colls d3"
proof -
  obtain d s c where a: "safeRun demoDir False emptyDisk d s" "acked s 0" using demo_acked by metis
  obtain k d3 w3 where k: "crashOf (disk (env_world s)) k" "run_state (Open demoDir []) (demoWorld k) = (Inr d3, w3)"
    using safeRun_crash [OF demoDir_ok holds_empty a(1)] .
  note r = safeRun_plain [OF a(1)]
  note p = poweredOff.lost_run [OF poweredOff.fresh r(1) k(1)]
  have b: "booted True k (brokenWorld k)"
    by (simp add: booted_def brokenWorld_def demoWorld_def env_def okFault_def dirSyncUnsupported_def sorted_list_of_fset.rep_eq)
  have o: "run_state (Open demoDir []) (brokenWorld k) = (Inl (ErrSys EIO), (brokenWorld k)\<lparr>tick := 1\<rparr>)"
    unfolding Open_def Let_def validate_default option.case
    by (simp add: MkdirAll_def mkdirAll_def sysStat_def run_syscall brokenWorld_def demoWorld_def)
  obtain V where V: "holds demoDir V k" using poweredOff_holds [OF demoDir_ok p r(2)] by blast
  then have "hyg k" by (auto simp: holds_def openable_def ok_def)
  then obtain k' where k': "crashOf k k'" using crash_exists by blast
  then have c: "crashOf (disk ((brokenWorld k)\<lparr>tick := 1\<rparr>)) k'" by (simp add: brokenWorld_def demoWorld_def)
  obtain d2 w2 where d2: "run_state (Open demoDir []) (demoWorld k') = (Inr d2, w2)"
    using Open_faultless [OF demoDir_ok Open_failed(2) [OF demoDir_ok V b o c] demoWorld_booted validate_default] .
  have "colls d2 = colls d3"
    by (rule interrupted_recovery [OF demoDir_ok p r(2) b o c demoWorld_booted d2 demoWorld_booted k(2)])
  then show ?thesis using a(2) k o c d2 by (intro exI conjI) (rule r(1))
qed

lemma diskInv_openable:
  assumes "diskInv dr lg V rs b m {} k" "encLog (seg rs b m) = []" "collsOK V" "recsOK rs"
  shows "openable dr (collsAt V rs) [] [] k"
proof -
  obtain j where j: "\<forall>n. validName n \<longrightarrow> aged dr V rs b {} k n (j n)" using diskInv_ages [OF assms(1)] .
  then have "possAt k (collPath dr n) {snapOf (collsAt V rs) n}" if "validName n" for n
    using that unfolding aged_def by (metis empty_iff)
  then show ?thesis
    using assms collsOK_collsAt [OF assms(3,4)]
    by (auto simp: openable_def diskInv_def recsOK_def intro!: exI [of _ "Some []"])
qed

text \<open>A worker that stopped without an error leaves the state of the handle behind.\<close>

lemma stopped_holds:
  assumes "list_all cleanComp dr" "holds dr V k" "safeRun dr fl k d s" "stopped (handle s)" "failed (handle s) = None"
    and "k' = disk (env_world s) \<or> crashOf (disk (env_world s)) k'"
  shows "holds dr (colls (handle s)) k'" "dir (handle s) = dr" "\<forall>j < length (hist s). acked s j"
proof -
  obtain lg where inv: "dbInv dr lg V fl s" using safeRun_inv(2) [OF assms(1-3)] by blast
  have e: "workerErr (handle s) = None" "dirty (handle s) = {||}" "logSize (handle s) = 0" "pending (handle s) = []"
    using assms(4,5) inv by (simp_all add: workerErr_def dbInv_def Let_def)
  have "coreInv dr lg V fl (hist s) None (handle s) (disk (env_world s))" using inv e(1) by (simp add: dbInv_def Let_def)
  then obtain b m where m: "dir (handle s) = dr" "recsOK (recs s)" "colls (handle s) = collsAt V (recs s)"
    "diskInv dr lg V (recs s) b m {} (disk (env_world s))" "noErr (handle s)" "encLog (seg (recs s) b m) = []"
    by (rule coreInv_open [OF _ refl]) (use e in auto)
  show "dir (handle s) = dr" by fact
  show "\<forall>j < length (hist s). acked s j"
  proof (intro allI impI)
    fix j assume j: "j < length (hist s)"
    then show "acked s j"
      using dbInv_resolved [OF inv j e(4)] m(5) by (auto simp: acked_def commit_wait_def noErr_def)
  qed
  have o: "openable dr (colls (handle s)) [] [] (disk (env_world s))"
    using diskInv_openable [OF m(4,6) holds_collsOK [OF assms(2)] m(2)] m(3) by simp
  then have c: "collsOK (colls (handle s))" "recsOK []" by (simp_all add: openable_def)
  show "holds dr (colls (handle s)) k'"
    using assms(6)
  proof
    assume "k' = disk (env_world s)"
    then show ?thesis using o unfolding holds_def by (metis collsAt_Nil)
  next
    assume "crashOf (disk (env_world s)) k'"
    then show ?thesis using safe_holds [OF openable_safe [OF o] c] by simp
  qed
qed

lemma run_Close_end:
  assumes "run_state (Close_end d) w = ((err, d'), w')"
  shows "disk w' = disk w" "held w' = held w |-| {|lockPath (dir d)|}" "err = None \<Longrightarrow> failed d = None"
    "colls d' = fmempty" "faults w' = faults w" "rangeOrder w' = rangeOrder w"
  using assms
  by (auto simp: Close_end_def sysClose_def run_syscall sysUnlock_def Let_def split: option.splits sum.splits)

text \<open>
  C7: \<open>Close\<close> keeps everything.  When the worker has stopped and \<open>Close\<close> returns no
  error, every writer was told that it succeeded, the lock is free, and reopening the directory,
  with or without a power loss in between, gives exactly the collections the handle had.  All
  records written so far are storable.
\<close>

theorem close_reopen:
  assumes "list_all cleanComp dr" "poweredOff dr R k" "runsTo dr True k d s" "\<forall>r \<in> R \<union> set (recs s). storable r" "stopped (handle s)"
    and "run_state (Close_end (handle s)) (env_world s) = ((None, d1), w1)"
    and "k' = disk w1 \<or> crashOf (disk w1) k'"
    and "booted True k' w" "run_state (Open dr os) w = (Inr d', w')"
  shows "colls d' = colls (handle s) \<and> (\<forall>j < length (hist s). acked s j) \<and> lockPath dr |\<notin>| held w1"
proof -
  note L = safe_life [OF assms(2-4)]
  obtain V where V: "holds dr V k" using safeOff_holds [OF assms(1) L(1)] by blast
  note C = run_Close_end [OF assms(6)]
  note S = stopped_holds [OF assms(1) V L(2) assms(5) C(3) [OF refl] assms(7) [unfolded C(1)]]
  show ?thesis using Open_opened(1) [OF assms(1) S(1) assms(8,9)] S(2,3) C(2) by simp
qed

lemma faultless: "env False w \<Longrightarrow> faults w = (\<lambda>_. None)"
proof
  fix t assume e: "env False w"
  show "faults w t = None" using env_fault [OF e, of t] by (cases "faults w t") auto
qed

lemma demo_stopped:
  obtains d s c where "safeRun demoDir False emptyDisk d s" "hist s = [(demoRec, c)]" "stopped (handle s)"
    "failed (handle s) = None" "faults (env_world s) = (\<lambda>_. None)"
proof -
  obtain d s c where w: "safeRun demoDir False emptyDisk d s" "hist s = [(demoRec, c)]" "\<not> closed (handle s)" "\<not> stopped (handle s)"
    using demo_acked by metis
  let ?s1 = "s\<lparr>handle := (handle s)\<lparr>closed := True\<rparr>\<rparr>"
  have r1: "safeRun demoDir False emptyDisk d ?s1"
    by (rule safeRun_work [OF w(1) db_step.begin_close]) (use w(3) in \<open>simp_all add: Close_begin_def\<close>)
  obtain d2 w2 where n: "run_state (runStop (handle ?s1)) (env_world ?s1) = (d2, w2)" by fastforce
  let ?s2 = "?s1\<lparr>handle := d2, env_world := w2\<rparr>"
  have r2: "safeRun demoDir False emptyDisk d ?s2"
    by (rule safeRun_work [OF r1 db_step.worker_stop [OF _ _ n]]) (use w(4) in simp_all)
  obtain lg where i: "dbInv demoDir lg fmempty False ?s1" using safeRun_inv(2) [OF demoDir_ok holds_empty r1] by blast
  then have c: "coreInv demoDir lg fmempty False (hist ?s1) (runErr (handle ?s1)) (handle ?s1) (disk (env_world ?s1))"
    "env False (env_world ?s1)" using w(4) by (simp_all add: dbInv_def Let_def workerErr_def)
  have st: "stopped d2"
    using tripleD(3) [OF triple_runStop [OF demoDir_ok holds_collsOK [OF holds_empty] c(1)] c(2) refl n] by simp
  obtain lg' where i2: "dbInv demoDir lg' fmempty False ?s2" using safeRun_inv(2) [OF demoDir_ok holds_empty r2] by blast
  have "failed d2 = None" using dbInv_faultless(1) [OF i2] st by (simp add: workerErr_def)
  moreover have "env False w2" using i2 by (simp add: dbInv_def Let_def)
  ultimately show thesis using that [OF r2] w(2) st faultless [of w2] by simp
qed

text \<open>Witness for C7: the concrete run, closed and opened again.\<close>

theorem close_reopen_witness:
  "\<exists>d s d1 w1 d' w'. runsTo demoDir True emptyDisk d s \<and> recs s = [demoRec] \<and> stopped (handle s) \<and>
     run_state (Close_end (handle s)) (env_world s) = ((None, d1), w1) \<and>
     run_state (Open demoDir []) (demoWorld (disk w1)) = (Inr d', w') \<and>
     colls d' = colls (handle s) \<and> acked s 0 \<and> lockPath demoDir |\<notin>| held w1"
proof -
  obtain d s c where w: "safeRun demoDir False emptyDisk d s" "hist s = [(demoRec, c)]" "stopped (handle s)"
    "failed (handle s) = None" "faults (env_world s) = (\<lambda>_. None)" using demo_stopped .
  note r = safeRun_plain [OF w(1)]
  obtain d1 w1 where e: "run_state (Close_end (handle s)) (env_world s) = ((None, d1), w1)"
    using w(4,5) by (auto simp: Close_end_def sysClose_def run_syscall sysUnlock_def Let_def)
  have "holds demoDir (colls (handle s)) (disk w1)"
    using stopped_holds(1) [OF demoDir_ok holds_empty w(1,3,4)] run_Close_end(1) [OF e] by simp
  then obtain d' w' where o: "run_state (Open demoDir []) (demoWorld (disk w1)) = (Inr d', w')"
    using Open_faultless [OF demoDir_ok _ demoWorld_booted validate_default] by blast
  have "colls d' = colls (handle s) \<and> (\<forall>j < length (hist s). acked s j) \<and> lockPath demoDir |\<notin>| held w1"
    by (rule close_reopen [OF demoDir_ok poweredOff.fresh r w(3) e _ demoWorld_booted o]) simp
  then have t: "colls d' = colls (handle s)" "acked s 0" "lockPath demoDir |\<notin>| held w1" "recs s = [demoRec]"
    using w(2) by simp_all
  show ?thesis using w(3) e o t by (intro exI conjI) (rule r(1))
qed

text \<open>
  C8: No writer waits forever.  As long as a writer has no answer, the worker has not stopped, it has
  been woken up, and the iteration of its loop that handles the wake-up, or the one that
  handles \<open>Close\<close>, answers the writer, also when the storage has failed.  All records written
  so far are storable.
\<close>

theorem no_writer_stuck:
  assumes "list_all cleanComp dr" "poweredOff dr R k" "runsTo dr True k d s" "\<forall>r \<in> R \<union> set (recs s). storable r"
    and "j < length (hist s)" "commit_wait (snd (hist s ! j)) (handle s) = None"
    and "run_state (runNotify (handle s)) (env_world s) = (d1, w1)"
    and "run_state (runStop (handle s)) (env_world s) = (d2, w2)"
  shows "notify (handle s) \<and> \<not> stopped (handle s) \<and>
     commit_wait (snd (hist s ! j)) d1 \<noteq> None \<and> commit_wait (snd (hist s ! j)) d2 \<noteq> None"
proof -
  note L = safe_life [OF assms(2-4)]
  obtain V where V: "holds dr V k" using safeOff_holds [OF assms(1) L(1)] by blast
  obtain lg where inv: "dbInv dr lg V True s" using safeRun_inv(2) [OF assms(1) V L(2)] by blast
  have p: "pending (handle s) \<noteq> []" using dbInv_resolved [OF inv assms(5)] assms(6) by blast
  then have n: "notify (handle s)" "\<not> stopped (handle s)" using inv by (auto simp: dbInv_def Let_def)
  have c: "coreInv dr lg V True (hist s) (runErr (handle s)) (handle s) (disk (env_world s))" "env True (env_world s)"
    using inv n(2) by (simp_all add: dbInv_def Let_def workerErr_def)
  note N = tripleD [OF triple_runNotify [OF assms(1) holds_collsOK [OF V] c(1) n(2)] c(2) refl assms(7)]
    and S = tripleD [OF triple_runStop [OF assms(1) holds_collsOK [OF V] c(1)] c(2) refl assms(8)]
  have res: "commit_wait (snd (hist s ! j)) d' \<noteq> None" if co: "coreInv dr lg V True (hist s) e d' k'" and pe: "pending d' = []" for d' e k'
  proof -
    obtain m where "commitInv d' (map snd (hist s)) m" using coreInv_open [OF co refl] by metis
    then show ?thesis using commitInv_resolved [OF _ pe assms(5)] by blast
  qed
  show ?thesis using n res N(3) S(3) by (auto simp: workPost_def)
qed

text \<open>Witness for C8: the writer of the concrete run, before the worker has run.\<close>

theorem no_writer_stuck_witness:
  "\<exists>d s. runsTo demoDir True emptyDisk d s \<and> length (hist s) = 1 \<and>
     commit_wait (snd (hist s ! 0)) (handle s) = None \<and>
     commit_wait (snd (hist s ! 0)) (fst (run_state (runNotify (handle s)) (env_world s))) \<noteq> None"
proof -
  obtain d s c where w: "safeRun demoDir False emptyDisk d s" "hist s = [(demoRec, c)]" "commit_wait c (handle s) = None"
    using demo_write by metis
  note r = safeRun_plain [OF w(1)]
  have l: "0 < length (hist s)" "commit_wait (snd (hist s ! 0)) (handle s) = None" using w by simp_all
  have "commit_wait (snd (hist s ! 0)) (fst (run_state (runNotify (handle s)) (env_world s))) \<noteq> None"
    using no_writer_stuck [OF demoDir_ok poweredOff.fresh r l, of "fst (run_state (runNotify (handle s)) (env_world s))"
      "snd (run_state (runNotify (handle s)) (env_world s))" "fst (run_state (runStop (handle s)) (env_world s))"
      "snd (run_state (runStop (handle s)) (env_world s))"] by simp
  then show ?thesis using l(2) w(2) by (intro exI conjI) (rule r(1), simp_all)
qed

subsection \<open>Storage errors\<close>

text \<open>An error the worker carries stops it from touching the disk.\<close>

lemma run_writeLog_err:
  "run_state (writeLog (Some e) d) w = ((Some e, d\<lparr>pending := [], commit := None,
     results := (case commit d of None \<Rightarrow> results d | Some c \<Rightarrow> fmupd c (Some e) (results d))\<rparr>), w)"
  by (simp add: writeLog_def Let_def split: option.split)

lemma run_writeSnapshot_err: "run_state (writeSnapshot (Some e) d) w = ((Some e, d), w)"
  by (simp add: writeSnapshot_def)

definition stuckAt :: "error \<Rightarrow> sys \<Rightarrow> sys \<Rightarrow> bool" where
  "stuckAt e s s' \<longleftrightarrow> disk (env_world s') = disk (env_world s) \<and> workerErr (handle s') = Some e \<and>
     (\<forall>c x. commit_wait c (handle s') = Some x \<longrightarrow> commit_wait c (handle s) = Some x \<or> x = Some e)"

lemma stuck_step:
  assumes "db_step s s'" "workerErr (handle s) = Some e"
  shows "stuckAt e s s'"
  using assms
proof (cases rule: db_step.cases)
  case (client_write r c d')
  then show ?thesis
    using assms(2) enqueue_fields [OF DB_write_accepted(2) [OF client_write(2)]]
    by (simp add: stuckAt_def workerErr_def commit_wait_def applyRec_only_mem split: if_splits)
next
  case (begin_close d')
  then show ?thesis
    using assms(2) by (auto simp: stuckAt_def workerErr_def commit_wait_def Close_begin_def split: if_splits)
qed (use assms(2) in \<open>auto simp: stuckAt_def workerErr_def commit_wait_def runNotify_def runLog_def runTick_def runStop_def
   run_writeLog_err run_writeSnapshot_err split: if_splits option.splits\<close>)

text \<open>
  C9: A storage error sticks.  Once the worker has seen an error, no later step of any client or of
  the worker changes the disk, the error stays, and every writer answered from then on gets
  that error: nothing is reported as stored after the storage has failed.
\<close>

theorem storage_error_sticks:
  assumes "db_step\<^sup>*\<^sup>* s s'" "workerErr (handle s) = Some e"
  shows "disk (env_world s') = disk (env_world s) \<and> workerErr (handle s') = Some e \<and>
     (\<forall>c x. commit_wait c (handle s') = Some x \<longrightarrow> commit_wait c (handle s) = Some x \<or> x = Some e)"
  using assms(1)
proof (induction rule: rtranclp_induct)
  case (step s1 s2)
  then show ?case using stuck_step [OF step(2), of e] unfolding stuckAt_def by metis
qed (use assms(2) in simp)

text \<open>Witness for C9: a write after an error of the log is answered with that error.\<close>

definition failedSys :: sys where
  "failedSys = start ((newDB demoDir defaultOptions 0)\<lparr>runErr := Some (ErrSys EIO)\<rparr>) (demoWorld emptyDisk)"

theorem storage_error_sticks_witness:
  "\<exists>s. db_step\<^sup>*\<^sup>* failedSys s \<and> length (hist s) = 1 \<and>
     commit_wait (snd (hist s ! 0)) (handle s) = Some (Some (ErrSys EIO)) \<and> disk (env_world s) = emptyDisk"
proof -
  obtain c d1 where q: "enqueue (encRec demoRec) (applyRec demoRec (handle failedSys)) = (c, d1)" by fastforce
  then have w: "DB_write demoRec (handle failedSys) = (Inr c, d1)"
    using encRec(1) [OF demoRec_ok(1)] by (simp add: DB_write_def failedSys_def start_def newDB_def)
  note f = enqueue_fields [OF q]
  let ?s1 = "failedSys\<lparr>handle := d1, hist := hist failedSys @ [(demoRec, c)]\<rparr>"
  obtain d2 w2 where n: "run_state (runNotify d1) (env_world failedSys) = (d2, w2)" by fastforce
  let ?s2 = "?s1\<lparr>handle := d2, env_world := w2\<rparr>"
  have "db_step failedSys ?s1" by (rule db_step.client_write [OF w])
  moreover have "db_step ?s1 ?s2"
    by (rule db_step.worker_notify) (use n f in \<open>simp_all add: applyRec_only_mem failedSys_def start_def newDB_def\<close>)
  ultimately have r: "db_step\<^sup>*\<^sup>* failedSys ?s2" by simp
  have e: "workerErr (handle failedSys) = Some (ErrSys EIO)" by (simp add: failedSys_def start_def newDB_def workerErr_def)
  have x: "fmlookup (results d2) c \<noteq> None"
    using n f(6,12) by (auto simp: runNotify_def runLog_def runTick_def run_writeLog_err run_writeSnapshot_err applyRec_only_mem failedSys_def
        start_def newDB_def split: if_splits)
  have z: "commit_wait c (handle failedSys) = None" by (simp add: commit_wait_def failedSys_def start_def newDB_def)
  have "commit_wait c d2 = Some (Some (ErrSys EIO))" "disk w2 = disk (env_world failedSys)"
    using storage_error_sticks [OF r e] x z by (auto simp: commit_wait_def) (metis option.distinct(1))
  then show ?thesis
    by (intro exI [of _ ?s2] conjI r) (simp_all add: failedSys_def start_def demoWorld_def)
qed

end
