(* ===== verification/Kill.thy ===== *)
theory Kill
  imports Promises
begin

text \<open>
  A process that is killed while the machine runs on: what the system calls have done so far is
  there, synced or not, and the lock is gone.  No program can tell such a disk from the one a power
  loss that loses nothing would leave, because no system call looks at what is not synced yet.  So
  what holds after power losses holds after any number of kills, too.
\<close>

subsection \<open>Disks that look the same\<close>

definition sameNow :: "disk \<Rightarrow> disk \<Rightarrow> bool" where
  "sameNow k k' \<longleftrightarrow> ents k' = ents k \<and> content k' = content k \<and> nextIno k' = nextIno k"

definition alike :: "world \<Rightarrow> world \<Rightarrow> bool" where
  "alike w w' \<longleftrightarrow> sameNow (disk w) (disk w') \<and> held w' = held w \<and> faults w' = faults w \<and> tick w' = tick w \<and>
     rangeOrder w' = rangeOrder w"

definition blind :: "'a io \<Rightarrow> bool" where
  "blind m \<longleftrightarrow> (\<forall>w w'. alike w w' \<longrightarrow> fst (run_state m w') = fst (run_state m w) \<and> alike (snd (run_state m w)) (snd (run_state m w')))"

named_theorems blindness

lemma sameNow_refl [simp]: "sameNow k k"
  and sameNow_sym: "sameNow k k' \<Longrightarrow> sameNow k' k"
  and sameNow_trans: "sameNow k k' \<Longrightarrow> sameNow k' k'' \<Longrightarrow> sameNow k k''"
  by (simp_all add: sameNow_def)

lemma blindD:
  assumes "blind m" "alike w w'" "run_state m w = (a, v)"
  obtains v' where "run_state m w' = (a, v')" "alike v v'"
  using assms unfolding blind_def by (metis fst_conv prod.collapse snd_conv)

lemma blind_ret [blindness]: "blind (ret a)"
  by (simp add: blind_def)

lemma blind_bind [blindness]:
  assumes "blind m" "\<And>a. blind (f a)"
  shows "blind (State_Monad.bind m f)"
  unfolding blind_def
proof (intro allI impI)
  fix w w' assume a: "alike w w'"
  obtain x v where m: "run_state m w = (x, v)" by fastforce
  obtain v' where m': "run_state m w' = (x, v')" "alike v v'" using blindD [OF assms(1) a m] .
  obtain y u where f: "run_state (f x) v = (y, u)" by fastforce
  obtain u' where "run_state (f x) v' = (y, u')" "alike u u'" using blindD [OF assms(2) m'(2) f] .
  then show "fst (run_state (State_Monad.bind m f) w') = fst (run_state (State_Monad.bind m f) w) \<and>
      alike (snd (run_state (State_Monad.bind m f) w)) (snd (run_state (State_Monad.bind m f) w'))"
    using m m' f by simp
qed

lemma blind_sum [blindness]: "(\<And>e. blind (f e)) \<Longrightarrow> (\<And>x. blind (g x)) \<Longrightarrow> blind (case r of Inl e \<Rightarrow> f e | Inr x \<Rightarrow> g x)"
  and blind_option [blindness]: "blind m \<Longrightarrow> (\<And>x. blind (h x)) \<Longrightarrow> blind (case q of None \<Rightarrow> m | Some x \<Rightarrow> h x)"
  and blind_prod [blindness]: "(\<And>a b. blind (k a b)) \<Longrightarrow> blind (case p of (a, b) \<Rightarrow> k a b)"
  and blind_node [blindness]: "blind m \<Longrightarrow> (\<And>i. blind (j i)) \<Longrightarrow> blind (case n of DirN \<Rightarrow> m | FileN i \<Rightarrow> j i)"
  and blind_if [blindness]: "blind m \<Longrightarrow> blind m' \<Longrightarrow> blind (if b then m else m')"
  by (auto split: sum.split option.split prod.split node.split)

subsection \<open>System calls\<close>

lemma blind_syscall:
  assumes "\<And>k k'. sameNow k k' \<Longrightarrow> fst (f k') = fst (f k) \<and> sameNow (snd (f k)) (snd (f k'))"
  shows "blind (syscall f)"
  using assms by (auto simp: blind_def alike_def run_syscall split: option.split)

lemma sameNow_lookup: "sameNow k k' \<Longrightarrow> lookupNode k' p = lookupNode k p"
  "sameNow k k' \<Longrightarrow> parentDir k' p = parentDir k p"
  by (simp_all add: sameNow_def lookupNode_def parentDir_def)

lemmas disk_defs = changeEnts_def setEntry_def setContent_def newFile_def appendFile_def flushDir_def newDir_def flushFile_def

lemma sameNow_change: assumes "sameNow k k'" shows
  "sameNow (setEntry p n k) (setEntry p n k')" "sameNow (setContent i c v k) (setContent i c v k')" "sameNow (newDir p k) (newDir p k')"
  "sameNow (appendFile i b k) (appendFile i b k')" "sameNow (flushFile i k) (flushFile i k')" "sameNow (flushDir p k) (flushDir p k')"
  "fst (newFile p k') = fst (newFile p k)" "sameNow (snd (newFile p k)) (snd (newFile p k'))"
  using assms by (auto simp: sameNow_def disk_defs Let_def split: option.split)

lemma blind_stat [blindness]: "blind (sysStat p)" "blind (sysOpenDir p)" "blind sysClose"
  unfolding sysStat_def sysOpenDir_def sysClose_def
  by (rule blind_syscall; simp add: sameNow_lookup split: sum.split)+

lemma blind_read [blindness]: "blind (sysReadFile p)" "blind (sysWalkDir p)"
  unfolding sysReadFile_def sysWalkDir_def
  by (rule blind_syscall; simp add: sameNow_lookup walkEntries_def; simp add: sameNow_def split: sum.split node.split)+

lemma blind_sync [blindness]: "blind (sysFsync i)" "blind (sysFsyncDir p)" "blind (sysTruncate i n)"
  unfolding sysFsync_def sysFsyncDir_def sysTruncate_def
  by (rule blind_syscall; simp add: sameNow_change; simp add: sameNow_def disk_defs)+

lemma blind_mkdir [blindness]: "blind (sysMkdir p)"
  unfolding sysMkdir_def by (rule blind_syscall) (simp add: sameNow_lookup sameNow_change split: sum.split)

lemma blind_open [blindness]: "blind (sysOpen t p)"
  unfolding sysOpen_def
  by (rule blind_syscall) (auto simp: sameNow_lookup sameNow_change case_prod_beta split: sum.split node.split)

lemma blind_remove [blindness]: "blind (sysRemove p)"
  unfolding sysRemove_def
  by (rule blind_syscall, simp add: sameNow_lookup sameNow_change split: sum.split node.split, simp add: sameNow_def)

lemma blind_rename [blindness]: "blind (sysRename p q)"
proof -
  have "sameNow (changeEnts ds (g (ents k)) k) (changeEnts ds (g (ents k')) k')" if "sameNow k k'" for k k' ds g
    using that by (simp add: sameNow_def changeEnts_def)
  then show ?thesis
    unfolding sysRename_def by (intro blind_syscall) (simp add: sameNow_lookup split: sum.split node.split, simp add: sameNow_def)
qed

lemma blind_write [blindness]: "blind (sysWrite i b)"
  using sameNow_change(4) by (auto simp: blind_def alike_def sysWrite_def split: option.split)

lemma blind_locks [blindness]: "blind (sysFlock p)" "blind (sysUnlock p)"
  by (auto simp: blind_def alike_def sysFlock_def sysUnlock_def split: option.split)

lemma blind_getOrder [blindness]: "blind (getOrder s)"
  by (simp add: blind_def alike_def getOrder_def)

subsection \<open>The programs of the database\<close>

lemma blind_SyncDir [blindness]: "blind (SyncDir p)"
  unfolding SyncDir_def syncDir_def by (intro blindness)

lemma blind_missingParents [blindness]: "blind (missingParents cs ps)"
  by (induction cs arbitrary: ps) (auto intro!: blindness)

lemma blind_osMkdirAll [blindness]: "blind (osMkdirAll cs)"
  by (induction cs) (auto intro!: blindness)

lemma blind_syncParents [blindness]: "blind (syncParents SyncDir ps)"
  by (induction ps) (auto intro!: blindness)

lemma blind_MkdirAll [blindness]: "blind (MkdirAll p)"
  unfolding MkdirAll_def mkdirAll_def by (intro blindness)

lemma blind_WriteFileAtomic [blindness]: "blind (WriteFileAtomic p b)"
  unfolding WriteFileAtomic_def by (intro blindness)

lemma blind_writeSnaps [blindness]: "blind (writeSnaps dr snaps ns)"
  by (induction ns) (auto intro!: blindness split: option.split)

lemma blind_removeDropped [blindness]: "blind (removeDropped dr ns)"
  by (induction ns) (auto simp: removeColl_def intro!: blindness)

lemma blind_writeSnapshot [blindness]: "blind (writeSnapshot e d)"
  unfolding writeSnapshot_def Let_def by (intro blindness)

lemma blind_writeLog [blindness]: "blind (writeLog e d)"
  unfolding writeLog_def Let_def by (intro blindness)

lemma blind_worker: "blind (runTick d)" "blind (runLog d)" "blind (runNotify d)" "blind (runStop d)"
  unfolding runNotify_def runTick_def runLog_def runStop_def by (intro blindness)+

lemma blind_loadFiles [blindness]: "blind (loadFiles es d)"
proof (induction es arbitrary: d)
  case (Cons pn es)
  then show ?case by (cases pn) (auto simp: Let_def intro!: blindness)
qed (simp add: blind_ret)

lemma blind_recover [blindness]: "blind (openRecover flock lp d)"
  unfolding openRecover_def load_def replayLog_def abandon_def by (intro blindness)

lemma blind_Open: "blind (Open dr os)"
  unfolding Open_def openLocked_def openLog_def Acquire_def Let_def by (intro blindness)

subsection \<open>Runs on disks that look the same\<close>

definition alikeSys :: "sys \<Rightarrow> sys \<Rightarrow> bool" where
  "alikeSys s t \<longleftrightarrow> handle t = handle s \<and> hist t = hist s \<and> alike (env_world s) (env_world t)"

lemma alike_worker:
  assumes "blind m" "alikeSys s t" "run_state m (env_world s) = (d', w')"
    and "\<And>w. run_state m (env_world t) = (d', w) \<Longrightarrow> db_step t (t\<lparr>handle := d', env_world := w\<rparr>)"
  shows "\<exists>t'. db_step t t' \<and> alikeSys (s\<lparr>handle := d', env_world := w'\<rparr>) t'"
proof -
  obtain v where "run_state m (env_world t) = (d', v)" "alike w' v"
    using blindD [OF assms(1) _ assms(3)] assms(2) unfolding alikeSys_def by metis
  then show ?thesis using assms(2,4) by (intro exI [of _ "t\<lparr>handle := d', env_world := v\<rparr>"]) (simp add: alikeSys_def)
qed

lemma alike_step:
  assumes "db_step s s'" "alikeSys s t"
  shows "\<exists>t'. db_step t t' \<and> alikeSys s' t'"
  using assms
proof (induction rule: db_step.induct)
  case (client_write r s c d')
  then show ?case
    using db_step.client_write [of r t c d']
    by (intro exI [of _ "t\<lparr>handle := d', hist := hist t @ [(r, c)]\<rparr>"]) (simp add: alikeSys_def)
next
  case (begin_close s d')
  then show ?case
    using db_step.begin_close [of t d'] by (intro exI [of _ "t\<lparr>handle := d'\<rparr>"]) (simp add: alikeSys_def)
next
  case (worker_notify s d' w')
  then show ?case
    by (intro alike_worker [OF blind_worker(3)] db_step.worker_notify) (auto simp: alikeSys_def)
next
  case (worker_log s b d' w')
  then show ?case
    by (intro alike_worker [OF blind_worker(2)] db_step.worker_log) (auto simp: alikeSys_def)
next
  case (worker_tick s d' w')
  then show ?case
    by (intro alike_worker [OF blind_worker(1)] db_step.worker_tick) (auto simp: alikeSys_def)
next
  case (worker_stop s d' w')
  then show ?case
    by (intro alike_worker [OF blind_worker(4)] db_step.worker_stop) (auto simp: alikeSys_def)
qed

lemma alike_steps:
  assumes "db_step\<^sup>*\<^sup>* s s'" "alikeSys s t"
  shows "\<exists>t'. db_step\<^sup>*\<^sup>* t t' \<and> alikeSys s' t'"
  using assms by (induction rule: rtranclp_induct) (blast, metis alike_step rtranclp.rtrancl_into_rtrancl)

lemma alike_booted: "booted fl k w \<Longrightarrow> sameNow k k' \<Longrightarrow> booted fl k' (w\<lparr>disk := k'\<rparr>) \<and> alike w (w\<lparr>disk := k'\<rparr>)"
  by (simp add: booted_def env_def alike_def)

lemma alike_safeRun:
  assumes "safeRun dr fl k d s" "sameNow k k'"
  shows "\<exists>t. safeRun dr fl k' d t \<and> alikeSys s t"
proof -
  obtain w os w1 where r: "booted fl k w" "run_state (Open dr os) w = (Inr d, w1)" "db_step\<^sup>*\<^sup>* (start d w1) s"
    using assms(1) unfolding safeRun_def runsTo_def by blast
  note b = alike_booted [OF r(1) assms(2)]
  obtain v where v: "run_state (Open dr os) (w\<lparr>disk := k'\<rparr>) = (Inr d, v)" "alike w1 v"
    using blindD [OF blind_Open _ r(2)] b by metis
  have "alikeSys (start d w1) (start d v)" using v(2) by (simp add: alikeSys_def start_def)
  then obtain t where "db_step\<^sup>*\<^sup>* (start d v) t" "alikeSys s t" using alike_steps [OF r(3)] by blast
  then have "runsTo dr fl k' d t" "list_all storable (recs t)" "alikeSys s t"
    using b v(1) assms(1) unfolding safeRun_def runsTo_def by (blast, auto simp: alikeSys_def)
  then show ?thesis unfolding safeRun_def by blast
qed

text \<open>A power loss may leave the disk as it looked.\<close>

lemma crash_now: "hyg k \<Longrightarrow> \<exists>k'. crashOf k k' \<and> sameNow k k'"
  using crash_to [OF _ hyg_content, of k] by (auto simp: sameNow_def)

subsection \<open>Lives with kills\<close>

text \<open>
  The disks found after a life with power losses and then kills, of the running database or during
  \<open>Open\<close>.  A kill between two system calls is a run in which every later call fails.
\<close>

inductive killedOff :: "path \<Rightarrow> wal_record set \<Rightarrow> disk \<Rightarrow> bool" for dr where
  unhurt: "poweredOff dr R k \<Longrightarrow> killedOff dr R k"
| killed_open: "killedOff dr R k \<Longrightarrow> booted True k w \<Longrightarrow> run_state (Open dr os) w = (Inl e, w') \<Longrightarrow> killedOff dr R (disk w')"
| killed_run: "killedOff dr R k \<Longrightarrow> runsTo dr True k d s \<Longrightarrow> killedOff dr (R \<union> set (recs s)) (disk (env_world s))"

lemma safeOff_hyg:
  assumes "list_all cleanComp dr" "safeOff dr k" "safeRun dr True k d s"
  shows "hyg (disk (env_world s))"
proof -
  obtain V where "holds dr V k" using safeOff_holds [OF assms(1,2)] by blast
  then obtain lg where "dbInv dr lg V True s" using safeRun_inv(2) [OF assms(1) _ assms(3)] by blast
  then show ?thesis by (rule dbInv_hyg)
qed

text \<open>Each of them looks like a disk that only power losses have left.\<close>

lemma killedOff_looks:
  assumes "list_all cleanComp dr" "killedOff dr R k" "\<forall>r \<in> R. storable r"
  shows "\<exists>k'. safeOff dr k' \<and> sameNow k k'"
  using assms(2,3)
proof induction
  case (unhurt R k)
  then show ?case using sameNow_refl unfolding safeOff_def by blast
next
  case (killed_open R k w os e w')
  then obtain k' where k': "safeOff dr k'" "sameNow k k'" by blast
  note b = alike_booted [OF killed_open(2) k'(2)]
  obtain v where v: "run_state (Open dr os) (w\<lparr>disk := k'\<rparr>) = (Inl e, v)" "alike w' v"
    using blindD [OF blind_Open _ killed_open(3)] b by metis
  obtain V where "holds dr V k'" using safeOff_holds [OF assms(1) k'(1)] by blast
  then obtain k'' where "crashOf (disk v) k''" "sameNow (disk v) k''"
    using Open_failed(1) [OF assms(1) _ _ v(1)] b crash_now by blast
  then show ?case using safeOff_open [OF k'(1) _ v(1)] b v(2) sameNow_trans unfolding alike_def by blast
next
  case (killed_run R k d s)
  then obtain k' where k': "safeOff dr k'" "sameNow k k'" by blast
  have "safeRun dr True k d s" using killed_run.hyps(2) killed_run.prems by (simp add: safeRun_def list_all_iff)
  then obtain t where t: "safeRun dr True k' d t" "alikeSys s t" using alike_safeRun [OF _ k'(2)] by blast
  obtain k'' where "crashOf (disk (env_world t)) k''" "sameNow (disk (env_world t)) k''"
    using crash_now [OF safeOff_hyg [OF assms(1) k'(1) t(1)]] by blast
  then show ?case using safeOff_run [OF k'(1) t(1)] t(2) sameNow_trans unfolding alikeSys_def alike_def by blast
qed

subsection \<open>Properties\<close>

text \<open>
  C3: A killed process loses nothing it acknowledged.  Take any life of a directory with power
  losses and then any number of kills, also during \<open>Open\<close>, and a run in which clients and the
  worker interleave in any order and any system call may fail.  The process is killed at any moment,
  the system keeps what the calls so far have done, and the lock is released.  When the directory
  opens again, every document and the existence of every collection are as they were after some
  prefix of the accepted records that includes every acknowledged one.  All records written so far
  are storable.
\<close>

theorem kill_durability:
  assumes "list_all cleanComp dr" "killedOff dr R k" "runsTo dr True k d s" "\<forall>r \<in> R \<union> set (recs s). storable r"
    and "booted True (disk (env_world s)) w" "run_state (Open dr os) w = (Inr d', w')"
  shows "\<forall>c. \<exists>i \<le> length (hist s). (\<forall>j. acked s j \<longrightarrow> j < i) \<and>
     cell (colls d') c = cell (colls (applyAll (take i (recs s)) d)) c"
proof -
  obtain k1 where k1: "safeOff dr k1" "sameNow k k1" using killedOff_looks [OF assms(1,2)] assms(4) by blast
  have s: "safeRun dr True k d s" using assms(3,4) by (simp add: safeRun_def list_all_iff)
  obtain t where t: "safeRun dr True k1 d t" "alikeSys s t" using alike_safeRun [OF s k1(2)] by blast
  obtain k2 where k2: "crashOf (disk (env_world t)) k2" "sameNow (disk (env_world t)) k2"
    using crash_now [OF safeOff_hyg [OF assms(1) k1(1) t(1)]] by blast
  have "sameNow (disk (env_world s)) k2" using k2(2) t(2) sameNow_trans unfolding alikeSys_def alike_def by blast
  note b = alike_booted [OF assms(5) this]
  obtain v where v: "run_state (Open dr os) (w\<lparr>disk := k2\<rparr>) = (Inr d', v)" using blindD [OF blind_Open _ assms(6)] b by metis
  have "recovers t (colls d) (colls d')" by (rule reopened [OF assms(1) k1(1) t(1) k2(1) _ v]) (use b in simp)
  moreover have "hist t = hist s" "acked t = acked s" using t(2) by (auto simp: alikeSys_def acked_def fun_eq_iff)
  ultimately show ?thesis by (simp add: recovers_def collsAt_applyAll)
qed

text \<open>Witness for C3: one document is stored and acknowledged, the process is killed, and the document is read back.\<close>

theorem kill_durability_witness:
  "\<exists>d s d' w'. runsTo demoDir True emptyDisk d s \<and> acked s 0 \<and> run_state (Open demoDir []) (demoWorld (disk (env_world s))) = (Inr d', w') \<and>
     cell (colls d') (''u'', Some ''a'') = Some ''1''"
proof -
  obtain d s c where a: "safeRun demoDir False emptyDisk d s" "hist s = [(demoRec, c)]" "acked s 0" using demo_acked by metis
  note r = safeRun_weaken [OF a(1)] and p = safeRun_plain [OF a(1)]
  obtain k where k: "crashOf (disk (env_world s)) k" "sameNow (disk (env_world s)) k"
    using crash_now [OF safeOff_hyg [OF demoDir_ok safeOff_fresh r]] by blast
  obtain V where "holds demoDir V k" using safeOff_holds [OF demoDir_ok safeOff_run [OF safeOff_fresh r k(1)]] by blast
  then obtain d' v where "run_state (Open demoDir []) (demoWorld k) = (Inr d', v)"
    using Open_faultless [OF demoDir_ok _ demoWorld_booted validate_default] by blast
  moreover have "alike (demoWorld k) (demoWorld (disk (env_world s)))" using sameNow_sym [OF k(2)] by (simp add: alike_def demoWorld_def)
  ultimately obtain w' where o: "run_state (Open demoDir []) (demoWorld (disk (env_world s))) = (Inr d', w')"
    using blindD [OF blind_Open] by metis
  obtain i where i: "i \<le> length (hist s)" "\<forall>j. acked s j \<longrightarrow> j < i"
    "cell (colls d') (''u'', Some ''a'') = cell (colls (applyAll (take i (recs s)) d)) (''u'', Some ''a'')"
    using kill_durability [OF demoDir_ok killedOff.unhurt [OF poweredOff.fresh] p demoWorld_booted o] by blast
  have "effect (recs s ! 0) (''u'', Some ''a'') = Some (Some ''1'')" using a(2) by (simp add: demoRec_def effect_def opSet_def)
  then have "cell (colls d') (''u'', Some ''a'') = Some ''1''"
    using i a(2,3) cell_after [of 0 i "recs s" "(''u'', Some ''a'')" "Some ''1''" d] by simp
  then show ?thesis using a(3) o by (intro exI conjI) (rule p(1))
qed

end
