(* ===== verification/Locking.thy ===== *)
theory Locking
  imports Db
begin

text \<open>
  The directory lock: which operations of the library touch it, and what \<open>Open\<close> does to it on
  every path.
\<close>

definition lockFree :: "'a io \<Rightarrow> bool" where
  "lockFree m \<longleftrightarrow> (\<forall>w. held (snd (run_state m w)) = held w)"

named_theorems lock_free

lemma lockFree_ret [simp, lock_free]: "lockFree (ret a)"
  by (simp add: lockFree_def)

lemma lockFree_bind [lock_free]: "lockFree m \<Longrightarrow> (\<And>a. lockFree (f a)) \<Longrightarrow> lockFree (State_Monad.bind m f)"
  by (simp add: lockFree_def split: prod.split) (metis prod.collapse snd_conv)

lemma lockFree_sum [lock_free]: "(\<And>e. lockFree (f e)) \<Longrightarrow> (\<And>x. lockFree (g x)) \<Longrightarrow> lockFree (case r of Inl e \<Rightarrow> f e | Inr x \<Rightarrow> g x)"
  and lockFree_option [lock_free]: "lockFree m \<Longrightarrow> (\<And>x. lockFree (h x)) \<Longrightarrow> lockFree (case q of None \<Rightarrow> m | Some x \<Rightarrow> h x)"
  and lockFree_prod [lock_free]: "(\<And>a b. lockFree (k a b)) \<Longrightarrow> lockFree (case p of (a, b) \<Rightarrow> k a b)"
  and lockFree_node [lock_free]: "lockFree m \<Longrightarrow> (\<And>i. lockFree (j i)) \<Longrightarrow> lockFree (case n of DirN \<Rightarrow> m | FileN i \<Rightarrow> j i)"
  and lockFree_if [lock_free]: "lockFree m \<Longrightarrow> lockFree m' \<Longrightarrow> lockFree (if b then m else m')"
  by (auto split: sum.split option.split prod.split node.split)

lemma lockFree_syscall [lock_free]: "lockFree (syscall f)"
  by (auto simp: lockFree_def syscall_def split: option.split prod.split)

lemma lockFree_sysWrite [lock_free]: "lockFree (sysWrite i b)"
  by (auto simp: lockFree_def sysWrite_def split: option.split)

lemma lockFree_getOrder [lock_free]: "lockFree (getOrder s)"
  by (simp add: lockFree_def getOrder_def)

lemmas sys_defs = sysStat_def sysMkdir_def sysOpen_def sysOpenDir_def sysFsync_def sysFsyncDir_def sysTruncate_def
  sysClose_def sysRename_def sysRemove_def sysReadFile_def sysWalkDir_def

lemma lockFree_sys [lock_free]:
  "lockFree (sysStat p)" "lockFree (sysMkdir p)" "lockFree (sysOpen t p)" "lockFree (sysOpenDir p)" "lockFree (sysFsync i)"
  "lockFree (sysFsyncDir p)" "lockFree (sysTruncate i n)" "lockFree sysClose" "lockFree (sysRename p q)"
  "lockFree (sysRemove p)" "lockFree (sysReadFile p)" "lockFree (sysWalkDir p)"
  by (simp_all add: sys_defs lockFree_syscall)

lemma lockFree_SyncDir [lock_free]: "lockFree (SyncDir p)"
  unfolding SyncDir_def syncDir_def by (intro lock_free)

lemma lockFree_missingParents [lock_free]: "lockFree (missingParents cs ps)"
  by (induction cs arbitrary: ps) (auto intro!: lock_free)

lemma lockFree_osMkdirAll [lock_free]: "lockFree (osMkdirAll cs)"
  by (induction cs) (auto intro!: lock_free)

lemma lockFree_syncParents [lock_free]: "(\<And>p. lockFree (f p)) \<Longrightarrow> lockFree (syncParents f ps)"
  by (induction ps) (auto intro!: lock_free)

lemma lockFree_MkdirAll [lock_free]: "lockFree (MkdirAll p)"
  unfolding MkdirAll_def mkdirAll_def by (intro lock_free)

lemma lockFree_WriteFileAtomic [lock_free]: "lockFree (WriteFileAtomic p b)"
  unfolding WriteFileAtomic_def by (intro lock_free)

lemma lockFree_writeSnaps [lock_free]: "lockFree (writeSnaps dr snaps ns)"
  by (induction ns) (auto intro!: lock_free split: option.split)

lemma lockFree_removeDropped [lock_free]: "lockFree (removeDropped dr ns)"
  by (induction ns) (auto simp: removeColl_def intro!: lock_free)

lemma lockFree_writeSnapshot [lock_free]: "lockFree (writeSnapshot e d)"
  unfolding writeSnapshot_def Let_def by (intro lock_free)

lemma lockFree_writeLog [lock_free]: "lockFree (writeLog e d)"
  unfolding writeLog_def Let_def by (intro lock_free)

lemma lockFree_openLog [lock_free]: "lockFree (openLog p)"
  unfolding openLog_def by (intro lock_free)

lemma lockFree_loadFiles [lock_free]: "lockFree (loadFiles es d)"
proof (induction es arbitrary: d)
  case (Cons pn es)
  then show ?case by (cases pn) (auto simp: Let_def intro!: lock_free)
qed simp

lemma lockFree_load [lock_free]: "lockFree (load d)"
  unfolding load_def by (intro lock_free)

lemma lockFree_replayLog [lock_free]: "lockFree (replayLog p d)"
  unfolding replayLog_def by (intro lock_free)

lemma lockFree_held: "lockFree m \<Longrightarrow> run_state m w = (a, w') \<Longrightarrow> held w' = held w"
  by (metis lockFree_def snd_conv)

text \<open>What a program does to the locks, as a relation on the locks before and after.\<close>

definition lockRel :: "(path fset \<Rightarrow> 'a \<Rightarrow> path fset \<Rightarrow> bool) \<Rightarrow> 'a io \<Rightarrow> bool" where
  "lockRel R m \<longleftrightarrow> (\<forall>w. case run_state m w of (a, w') \<Rightarrow> R (held w) a (held w'))"

lemma lockRelD: "lockRel R m \<Longrightarrow> run_state m w = (a, w') \<Longrightarrow> R (held w) a (held w')"
  unfolding lockRel_def by (drule spec [of _ w]) simp

lemma lockRel_ret: "(\<And>h. R h a h) \<Longrightarrow> lockRel R (ret a)"
  by (simp add: lockRel_def)

lemma lockRel_bind:
  assumes "lockFree m" "\<And>a. lockRel R (f a)"
  shows "lockRel R (State_Monad.bind m f)"
  unfolding lockRel_def
proof
  fix w
  obtain a w1 where m: "run_state m w = (a, w1)" by fastforce
  have "held w1 = held w" by (rule lockFree_held [OF assms(1) m])
  moreover have "case run_state (f a) w1 of (b, w2) \<Rightarrow> R (held w1) b (held w2)" using assms(2) by (simp add: lockRel_def)
  ultimately show "case run_state (State_Monad.bind m f) w of (a, w') \<Rightarrow> R (held w) a (held w')" using m by simp
qed

text \<open>With the lock at \<open>p\<close> taken: an error releases it, a handle keeps it.\<close>

definition holding :: "path \<Rightarrow> path fset \<Rightarrow> error + db \<Rightarrow> path fset \<Rightarrow> bool" where
  "holding p h r h' \<longleftrightarrow> (case r of Inl _ \<Rightarrow> h' = h |-| {|p|} | Inr _ \<Rightarrow> h' = h)"

lemma lockRel_unlock: "lockRel (holding p) (do { _ \<leftarrow> sysUnlock p; ret (Inl e) })"
  by (simp add: lockRel_def holding_def sysUnlock_def)

lemma lockRel_abandon: "lockRel (holding p) (abandon p e)"
  unfolding abandon_def by (rule lockRel_bind [OF _ lockRel_unlock]) (intro lock_free)

lemma lockRel_openRecover: "lockRel (holding p) (openRecover p lp d)"
  unfolding openRecover_def
  by (auto intro!: lockRel_bind lock_free lockRel_abandon lockRel_ret simp: holding_def split: sum.split option.split)

lemma lockRel_openLocked: "lockRel (holding p) (openLocked p dr o')"
  unfolding openLocked_def
  by (auto intro!: lockRel_bind lock_free lockRel_unlock lockRel_openRecover split: sum.split)

lemma run_Acquire_held:
  assumes "run_state (Acquire p) w = (r, w')"
  shows "case r of Inl _ \<Rightarrow> held w' = held w | Inr q \<Rightarrow> q = p \<and> p |\<notin>| held w \<and> held w' = finsert p (held w)"
  using assms
  by (auto simp: Acquire_def sysFlock_def sys_defs syscall_def
     split: sum.splits option.splits prod.splits if_splits)

text \<open>\<open>Open\<close> as a whole: the lock is taken exactly if it succeeds.\<close>

definition acquired :: "path \<Rightarrow> path fset \<Rightarrow> error + db \<Rightarrow> path fset \<Rightarrow> bool" where
  "acquired p h r h' \<longleftrightarrow> (case r of Inl _ \<Rightarrow> h' = h | Inr _ \<Rightarrow> p |\<notin>| h \<and> h' = finsert p h)"

lemma lockRel_Open: "lockRel (acquired (dr @ [lockName])) (Open dr os)"
proof -
  let ?p = "dr @ [lockName]" and ?o = "fold (\<lambda>f x. f x) os defaultOptions"
  let ?R = "acquired ?p"
  have inner: "lockRel ?R (do { lk \<leftarrow> Acquire ?p; (case lk of Inl e \<Rightarrow> ret (Inl e) | Inr fl \<Rightarrow> openLocked fl dr ?o) })"
    unfolding lockRel_def
  proof
    fix w
    obtain a w1 where a: "run_state (Acquire ?p) w = (a, w1)" by fastforce
    note A = run_Acquire_held [OF a]
    show "case run_state (do { lk \<leftarrow> Acquire ?p; (case lk of Inl e \<Rightarrow> ret (Inl e) | Inr fl \<Rightarrow> openLocked fl dr ?o) }) w of
      (r, w') \<Rightarrow> ?R (held w) r (held w')"
    proof (cases a)
      case (Inr q)
      obtain r w2 where r: "run_state (openLocked ?p dr ?o) w1 = (r, w2)" by fastforce
      have "holding ?p (held w1) r (held w2)" by (rule lockRelD [OF lockRel_openLocked r])
      then show ?thesis using A Inr a r by (cases r) (auto simp: holding_def acquired_def)
    qed (use A a in \<open>simp add: acquired_def\<close>)
  qed
  show ?thesis
    unfolding Open_def Let_def
    by (auto intro!: lockRel_bind lock_free lockRel_ret inner simp: acquired_def split: option.split)
qed

subsection \<open>Properties\<close>

text \<open>
  C22: The directory lock.  \<open>Open\<close> succeeds only if nobody held the lock, and then holds it;
  on every error path, whatever failed, it leaves the locks as it found them: its own is released
  and another holder's is untouched.
\<close>

theorem Open_lock:
  "case run_state (Open dr os) w of
     (Inl e, w') \<Rightarrow> held w' = held w
   | (Inr d, w') \<Rightarrow> dr @ [lockName] |\<notin>| held w \<and> held w' = finsert (dr @ [lockName]) (held w)"
  using lockRelD [OF lockRel_Open] by (fastforce simp: acquired_def split: prod.split sum.split)

end
