(* ===== verification/Collection.thy ===== *)
theory Collection
  imports Db
begin

text \<open>
  Typed collections: \<open>collection.go\<close>.  A handle is its collection name.  The type parameter's
  \<open>json.Marshal\<close> and \<open>json.Unmarshal\<close> are a \<open>codec\<close>, an argument of every
  operation that encodes or decodes; \<open>json.RawMessage\<close> is the instance the server uses for
  documents.  Operations that write return the commit their caller then waits for.

  The locale \<open>doc_codec\<close> is the contract of a codec; the laws of a collection (what is set is
  what one gets, nothing else changes, a failed call changes nothing) are proved once in it.
\<close>

record 't codec =
  enc :: "'t \<Rightarrow> error + bytes"
  dec :: "bytes \<Rightarrow> error + 't"

text \<open>\<open>C\<close>: \<open>None\<close> is its panic.\<close>

definition C :: "string \<Rightarrow> string option" where
  "C name = (case mustValidName name of None \<Rightarrow> None | Some _ \<Rightarrow> Some name)"

definition coll_Get :: "'t codec \<Rightarrow> string \<Rightarrow> string \<Rightarrow> db \<Rightarrow> error + 't" where
  "coll_Get cd name i d = (case DB_read name i d of Inl e \<Rightarrow> Inl e | Inr raw \<Rightarrow> dec cd raw)"

text \<open>\<open>Set\<close> and \<open>Delete\<close> up to the wait at the end of \<open>DB.write\<close>: the number is the commit to wait for.\<close>

definition coll_Set :: "'t codec \<Rightarrow> string \<Rightarrow> string \<Rightarrow> 't \<Rightarrow> db \<Rightarrow> (error + nat) \<times> db" where
  "coll_Set cd name i doc d =
     (case enc cd doc of
        Inl e \<Rightarrow> (Inl e, d)
      | Inr raw \<Rightarrow>
          (case checkDocSize raw d of
             Some e \<Rightarrow> (Inl e, d)
           | None \<Rightarrow> DB_write \<lparr>Op = opSet, Coll = name, ID = i, Doc = raw\<rparr> d))"

definition coll_Delete :: "string \<Rightarrow> string \<Rightarrow> db \<Rightarrow> (error + nat) \<times> db" where
  "coll_Delete name i d = DB_write \<lparr>Op = opDel, Coll = name, ID = i, Doc = []\<rparr> d"

text \<open>
  \<open>update\<close>, all of it under \<open>db.mu\<close>.  \<open>fn\<close> returns a value, an error, or panics
  (\<open>None\<close>); the deferred unlock lets the panic through.
\<close>

definition coll_update :: "'t codec \<Rightarrow> string \<Rightarrow> string \<Rightarrow> ('t \<Rightarrow> (error + 't) option) \<Rightarrow> db \<Rightarrow> ((error + nat) \<times> db) option" where
  "coll_update cd name i fn d =
     (if closed d then Some (Inl ErrClosed, d)
      else case fmlookup (fmget (colls d) name) i of
        None \<Rightarrow> Some (Inl ErrNotFound, d)
      | Some raw \<Rightarrow>
          (case dec cd raw of
             Inl e \<Rightarrow> Some (Inl e, d)
           | Inr v \<Rightarrow>
               (case fn v of
                  None \<Rightarrow> None
                | Some (Inl e) \<Rightarrow> Some (Inl e, d)
                | Some (Inr v') \<Rightarrow>
                    (case enc cd v' of
                       Inl e \<Rightarrow> Some (Inl e, d)
                     | Inr out \<Rightarrow>
                         (case checkDocSize out d of
                            Some e \<Rightarrow> Some (Inl e, d)
                          | None \<Rightarrow>
                              (let rec = \<lparr>Op = opSet, Coll = name, ID = i, Doc = out\<rparr> in
                               case marshalRecord rec of
                                 Inl e \<Rightarrow> Some (Inl e, d)
                               | Inr buf \<Rightarrow>
                                   (case enqueue buf (applyRec rec d) of (c, d') \<Rightarrow> Some (Inr c, d'))))))))"

text \<open>
  Waiting for the commit: \<open>outcome c\<close> is what the worker reports for commit \<open>c\<close>.  The change is
  in memory by then, whatever the worker reports.
\<close>

definition waited :: "(nat \<Rightarrow> error option) \<Rightarrow> (error + nat) \<times> db \<Rightarrow> error option \<times> db" where
  "waited outcome r = (case r of (Inl e, d) \<Rightarrow> (Some e, d) | (Inr c, d) \<Rightarrow> (outcome c, d))"

text \<open>The whole of \<open>Set\<close>, \<open>Delete\<close> and \<open>Update\<close>.\<close>

definition Set_wait :: "(nat \<Rightarrow> error option) \<Rightarrow> 't codec \<Rightarrow> string \<Rightarrow> string \<Rightarrow> 't \<Rightarrow> db \<Rightarrow> error option \<times> db" where
  "Set_wait outcome cd name i doc d = waited outcome (coll_Set cd name i doc d)"

definition Delete_wait :: "(nat \<Rightarrow> error option) \<Rightarrow> string \<Rightarrow> string \<Rightarrow> db \<Rightarrow> error option \<times> db" where
  "Delete_wait outcome name i d = waited outcome (coll_Delete name i d)"

definition coll_Update :: "(nat \<Rightarrow> error option) \<Rightarrow> 't codec \<Rightarrow> string \<Rightarrow> string \<Rightarrow>
    ('t \<Rightarrow> (error + 't) option) \<Rightarrow> db \<Rightarrow> (error option \<times> db) option" where
  "coll_Update outcome cd name i fn d = map_option (waited outcome) (coll_update cd name i fn d)"

definition coll_Has :: "string \<Rightarrow> string \<Rightarrow> db \<Rightarrow> bool" where
  "coll_Has name i d = (case DB_read name i d of Inl _ \<Rightarrow> False | Inr _ \<Rightarrow> True)"

definition coll_Count :: "string \<Rightarrow> db \<Rightarrow> nat" where
  "coll_Count name d = (if closed d then 0 else fcard (fmdom (fmget (colls d) name)))"

text \<open>
  \<open>All\<close>: the loop body \<open>yield\<close> threads a state and says whether to go on.  The result is
  the final state and whether a document failed to decode, which is a panic.
\<close>

fun allLoop :: "'t codec \<Rightarrow> docs \<Rightarrow> string list \<Rightarrow> ('s \<Rightarrow> string \<Rightarrow> 't \<Rightarrow> 's \<times> bool) \<Rightarrow> 's \<Rightarrow> 's \<times> bool" where
  "allLoop cd snap [] yield s = (s, False)"
| "allLoop cd snap (i # is) yield s =
     (case fmlookup snap i of
        None \<Rightarrow> allLoop cd snap is yield s
      | Some raw \<Rightarrow>
          (case dec cd raw of
             Inl _ \<Rightarrow> (s, True)
           | Inr v \<Rightarrow> (case yield s i v of (s', go) \<Rightarrow> if \<not> go then (s', False) else allLoop cd snap is yield s')))"

definition coll_All :: "'t codec \<Rightarrow> string \<Rightarrow> db \<Rightarrow> ('s \<Rightarrow> string \<Rightarrow> 't \<Rightarrow> 's \<times> bool) \<Rightarrow> 's \<Rightarrow> 's \<times> bool" where
  "coll_All cd name d yield s =
     (if closed d then (s, False)
      else (let snap = fmget (colls d) name in allLoop cd snap (sortedKeys snap) yield s))"

subsection \<open>Raw documents\<close>

text \<open>The text of the one value in \<open>b\<close>, without the white space around it.\<close>

definition rawText :: "bytes \<Rightarrow> bytes option" where
  "rawText b = (case scanValue (scanFuel b) maxNestingDepth b of
     None \<Rightarrow> None
   | Some (_, r) \<Rightarrow> if skipws r = [] then Some (take (length (skipws b) - length r) (skipws b)) else None)"

text \<open>
  \<open>json.RawMessage\<close>: marshalling compacts it (a nil message is \<open>null\<close>), unmarshalling keeps the
  text of the value.
\<close>

definition rawCodec :: "bytes codec" where
  "rawCodec = \<lparr>enc = (\<lambda>r. if r = [] then Inr ''null'' else case compact r of None \<Rightarrow> Inl ErrJSON | Some b \<Rightarrow> Inr b),
     dec = (\<lambda>b. case rawText b of None \<Rightarrow> Inl ErrJSON | Some t \<Rightarrow> Inr t)\<rparr>"

subsection \<open>Accepted writes\<close>

lemma DB_write_cases:
  obtains e where "DB_write r d = (Inl e, d)"
  | b where "marshalRecord r = Inr b" "\<not> closed d" "DB_write r d = (Inr (fst (enqueue b (applyRec r d))), snd (enqueue b (applyRec r d)))"
  by (cases "marshalRecord r"; cases "closed d") (auto simp: DB_write_def split: prod.splits)

text \<open>The fields a client write leaves alone, and the collections afterwards.\<close>

lemma enqueue_mem: "colls (snd (enqueue b d)) = colls d" "closed (snd (enqueue b d)) = closed d" "opts (snd (enqueue b d)) = opts d"
  by (auto simp: enqueue_def Let_def split: option.split)

lemma DB_write_commit: "DB_write r d = (Inr c, d') \<Longrightarrow> commit d' = Some c"
  by (auto simp: DB_write_def enqueue_def Let_def split: sum.splits if_splits option.splits)

lemma applyRec_closed [simp]: "closed (applyRec r d) = closed d" "opts (applyRec r d) = opts d"
  by (simp_all add: applyRec_def split: option.split)

lemma DB_write_colls:
  assumes "DB_write r d = (Inr c, d')"
  shows "colls d' = colls (applyRec r d)" "\<not> closed d" "\<not> closed d'" "opts d' = opts d"
proof -
  obtain b where "marshalRecord r = Inr b" "\<not> closed d" "c = fst (enqueue b (applyRec r d))" "d' = snd (enqueue b (applyRec r d))"
    using DB_write_cases [of r d] assms by (metis Inl_Inr_False prod.inject sum.inject(2))
  then show "colls d' = colls (applyRec r d)" "\<not> closed d" "\<not> closed d'" "opts d' = opts d" by (simp_all add: enqueue_mem)
qed

lemma DB_write_error: "DB_write r d = (Inl e, d') \<Longrightarrow> d' = d"
  by (auto simp: DB_write_def split: sum.splits if_splits prod.splits)

lemma waited_state: "snd (waited f r) = snd r"
  by (auto simp: waited_def split: prod.split sum.split)

lemma DB_read_cell:
  "DB_read n i d = (if closed d then Inl ErrClosed else case cell (colls d) (n, Some i) of None \<Rightarrow> Inl ErrNotFound | Some raw \<Rightarrow> Inr raw)"
  by (simp add: DB_read_def cell_def)

subsection \<open>The contract of a codec\<close>

locale doc_codec =
  fixes cd :: "'t codec"
    and good :: "'t \<Rightarrow> bool"
  assumes enc_total: "good x \<Longrightarrow> \<exists>b. enc cd x = Inr b"
    and dec_enc: "good x \<Longrightarrow> enc cd x = Inr b \<Longrightarrow> dec cd b = Inr x"
    and enc_canon: "good x \<Longrightarrow> enc cd x = Inr b \<Longrightarrow> canonAt 9999 b"
begin

lemma set_get:
  assumes "good x" "coll_Set cd n i x d = (Inr c, d')"
  shows "coll_Get cd m j d' = (if (m, j) = (n, i) then Inr x else coll_Get cd m j d)"
proof -
  obtain b where b: "enc cd x = Inr b" using enc_total [OF assms(1)] by blast
  have w: "DB_write \<lparr>Op = opSet, Coll = n, ID = i, Doc = b\<rparr> d = (Inr c, d')"
    using assms(2) b by (auto simp: coll_Set_def split: option.splits)
  note W = DB_write_colls [OF w]
  show ?thesis
    using W dec_enc [OF assms(1) b]
    by (auto simp: coll_Get_def DB_read_cell cell_applyRec effect_def split: option.splits)
qed

text \<open>
  \<open>Update\<close>: either nothing changes, or the document existed, the function returned a new value
  and exactly that document now has it.
\<close>

lemma update_get:
  assumes "coll_update cd n i fn d = Some (Inr c, d')" and g: "\<And>v v'. fn v = Some (Inr v') \<Longrightarrow> good v'"
  obtains v v' where "coll_Get cd n i d = Inr v" "fn v = Some (Inr v')"
    "\<And>m j. coll_Get cd m j d' = (if (m, j) = (n, i) then Inr v' else coll_Get cd m j d)"
proof -
  obtain raw v v' out where x: "\<not> closed d" "fmlookup (fmget (colls d) n) i = Some raw" "dec cd raw = Inr v"
    "fn v = Some (Inr v')" "enc cd v' = Inr out" "checkDocSize out d = None"
    "DB_write \<lparr>Op = opSet, Coll = n, ID = i, Doc = out\<rparr> d = (Inr c, d')"
    using assms(1) by (auto simp: coll_update_def Let_def DB_write_def split: if_splits option.splits sum.splits prod.splits)
  have "coll_Set cd n i v' d = (Inr c, d')" using x by (simp add: coll_Set_def)
  then show thesis
    using that [of v v'] x set_get [OF g [OF x(4)]] by (simp add: coll_Get_def DB_read_def)
qed

lemma set_ok:
  assumes "good x" "\<not> closed d" "enc cd x = Inr b" "int (length b) \<le> maxDocSize (opts d)"
  shows "\<exists>c d'. coll_Set cd n i x d = (Inr c, d')"
proof -
  have "compact b = Some b"
    using enc_canon [OF assms(1,3)] canonAt_mono [of 9999 b maxNestingDepth]
    by (simp add: compact_def canonAt_def maxNestingDepth_def)
  then have "\<exists>buf. marshalRecord \<lparr>Op = opSet, Coll = n, ID = i, Doc = b\<rparr> = Inr buf" by (simp add: marshalRecord_def)
  then show ?thesis
    using assms(2-4) by (auto simp: coll_Set_def checkDocSize_def DB_write_def split: prod.split)
qed

end

text \<open>Raw documents in canonical form keep the contract.\<close>

lemma rawText_canon: "canonAt maxNestingDepth b \<Longrightarrow> rawText b = Some b"
  using canon_okStart [of maxNestingDepth b] okStart_skipws [of b "[]"] by (simp add: rawText_def canonAt_def)

interpretation raw: doc_codec rawCodec "canonAt 9999"
proof
  fix x b assume x: "canonAt 9999 x"
  then have m: "canonAt maxNestingDepth x" by (rule canonAt_mono) (simp add: maxNestingDepth_def)
  have e: "enc rawCodec x = Inr x" using canon_nonempty [OF x] canon_compact [OF m] by (simp add: rawCodec_def)
  then show "\<exists>b. enc rawCodec x = Inr b" by simp
  show "dec rawCodec b = Inr x" if "enc rawCodec x = Inr b"
    using that e rawText_canon [OF m] by (simp add: rawCodec_def)
  show "canonAt 9999 b" if "enc rawCodec x = Inr b" using that e x by simp
qed

lemma update_error: "coll_update cd n i fn d = Some (Inl e, d') \<Longrightarrow> d' = d"
  by (auto simp: coll_update_def Let_def split: if_splits option.splits sum.splits prod.splits)

lemma delete_get:
  assumes "coll_Delete n i d = (Inr c, d')"
  shows "coll_Get cd m j d' = (if (m, j) = (n, i) then Inl ErrNotFound else coll_Get cd m j d)"
  using DB_write_colls [OF assms [unfolded coll_Delete_def]]
  by (auto simp: coll_Get_def DB_read_cell cell_applyRec effect_def split: option.splits)

lemma set_error: "coll_Set cd n i x d = (Inl e, d') \<Longrightarrow> d' = d"
  by (auto simp: coll_Set_def dest: DB_write_error split: sum.splits option.splits)

lemma set_other:
  assumes "coll_Set cd n i x d = (Inr c, d')" "(m, j) \<noteq> (n, i)"
  shows "coll_Get cd' m j d' = coll_Get cd' m j d"
proof -
  obtain b where w: "DB_write \<lparr>Op = opSet, Coll = n, ID = i, Doc = b\<rparr> d = (Inr c, d')"
    using assms(1) by (auto simp: coll_Set_def split: option.splits sum.splits)
  show ?thesis
    using DB_write_colls [OF w] assms(2)
    by (auto simp: coll_Get_def DB_read_cell cell_applyRec effect_def split: option.splits)
qed

lemma set_raw:
  assumes "coll_Set rawCodec n i x d = (r, d')" "x \<noteq> []"
  shows "case r of
     Inl e \<Rightarrow> d' = d
   | Inr c \<Rightarrow> (\<exists>b. compact x = Some b \<and> coll_Get rawCodec n i d' = Inr b) \<and>
       (\<forall>m j. (m, j) \<noteq> (n, i) \<longrightarrow> coll_Get rawCodec m j d' = coll_Get rawCodec m j d)"
proof (cases r)
  case (Inl e)
  then show ?thesis using set_error assms(1) by simp
next
  case (Inr c)
  then obtain b where b: "compact x = Some b" "DB_write \<lparr>Op = opSet, Coll = n, ID = i, Doc = b\<rparr> d = (Inr c, d')"
    using assms by (auto simp: coll_Set_def rawCodec_def split: option.splits sum.splits)
  have "rawText b = Some b" by (rule rawText_canon [OF compact_canon [OF b(1)]])
  then show ?thesis
    using Inr b DB_write_colls [OF b(2)]
    by (auto simp: coll_Get_def rawCodec_def DB_read_cell cell_applyRec effect_def split: option.splits)
qed

subsection \<open>Iteration and counting\<close>

lemma allLoop_collect:
  assumes "\<forall>i \<in> set is. \<exists>raw v. fmlookup snap i = Some raw \<and> dec cd raw = Inr v"
  shows "allLoop cd snap is (\<lambda>s i v. (s @ [(i, v)], True)) s =
     (s @ map (\<lambda>i. (i, projr (dec cd (the (fmlookup snap i))))) is, False)"
  using assms
proof (induction "is" arbitrary: s)
  case (Cons i "is")
  obtain raw v where "fmlookup snap i = Some raw" "dec cd raw = Inr v" using Cons.prems by auto
  then show ?case using Cons.IH [of "s @ [(i, v)]"] Cons.prems by simp
qed simp

lemma coll_Has_iff: "coll_Has n i d \<longleftrightarrow> \<not> closed d \<and> i |\<in>| fmdom (fmget (colls d) n)"
  by (auto simp: coll_Has_def DB_read_def fmlookup_dom_iff split: option.splits)

subsection \<open>Properties\<close>

text \<open>
  C30: What \<open>Set\<close> does to memory, with every error.  A document that is not JSON, is too large, or
  comes after \<open>Close\<close> is refused with the error for it, and nothing changes.  Any other document is
  in memory when \<open>Set\<close> returns, whether the wait for its commit reports success or a storage
  error: \<open>Get\<close> returns it in compact form, and no other document of any collection changes.
\<close>

theorem set_then_get:
  assumes "Set_wait outcome rawCodec n i x d = (err, d')" "x \<noteq> []"
  shows "case compact x of
     None \<Rightarrow> err = Some ErrJSON \<and> d' = d
   | Some b \<Rightarrow>
       if maxDocSize (opts d) < int (length b) then err = Some (ErrTooLarge (int (length b)) (maxDocSize (opts d))) \<and> d' = d
       else if closed d then err = Some ErrClosed \<and> d' = d
       else (\<exists>c. commit d' = Some c \<and> err = outcome c) \<and> coll_Get rawCodec n i d' = Inr b \<and>
         (\<forall>m j. (m, j) \<noteq> (n, i) \<longrightarrow> coll_Get rawCodec m j d' = coll_Get rawCodec m j d)"
proof (cases "compact x")
  case (Some b)
  have m: "\<exists>buf. marshalRecord \<lparr>Op = opSet, Coll = n, ID = i, Doc = b\<rparr> = Inr buf"
    using canon_compact [OF compact_canon [OF Some]] by (auto simp: marshalRecord_def)
  have e: "enc rawCodec x = Inr b" using Some assms(2) by (simp add: rawCodec_def)
  show ?thesis
  proof (cases "maxDocSize (opts d) < int (length b) \<or> closed d")
    case True
    then show ?thesis using assms(1) Some e m by (auto simp: Set_wait_def waited_def coll_Set_def checkDocSize_def DB_write_def split: if_splits)
  next
    case False
    then obtain c where w: "coll_Set rawCodec n i x d = (Inr c, d')" "err = outcome c"
      using assms(1) e m by (auto simp: Set_wait_def waited_def coll_Set_def checkDocSize_def DB_write_def split: prod.splits)
    have "commit d' = Some c" using w(1) e False by (auto simp: coll_Set_def checkDocSize_def dest!: DB_write_commit)
    then show ?thesis using set_raw [OF w(1) assms(2)] Some False w(2) by auto
  qed
qed (use assms in \<open>simp add: Set_wait_def waited_def coll_Set_def rawCodec_def\<close>)

text \<open>Witness for C30: the worker reports an I/O error for a document with white space, which reads back without it all the same.\<close>

definition oneDoc :: db where
  "oneDoc = newDB [''db''] defaultOptions 0"

theorem set_then_get_witness:
  "\<exists>d'. Set_wait (\<lambda>_. Some (ErrSys EIO)) rawCodec ''u'' ''a'' ''[ 1 ]'' oneDoc = (Some (ErrSys EIO), d') \<and>
     coll_Get rawCodec ''u'' ''a'' d' = Inr ''[1]''"
proof -
  have "scanValue (scanFuel ''[ 1 ]'') 1 ''[ 1 ]'' = Some (''[1]'', [])" by code_simp
  then have "scanValue (scanFuel ''[ 1 ]'') maxNestingDepth ''[ 1 ]'' = Some (''[1]'', [])"
    by (rule scan_depth [THEN conjunct1, rule_format]) (simp add: maxNestingDepth_def)
  then have k: "compact ''[ 1 ]'' = Some ''[1]''" by (simp add: compact_def)
  obtain err d' where r: "Set_wait (\<lambda>_. Some (ErrSys EIO)) rawCodec ''u'' ''a'' ''[ 1 ]'' oneDoc = (err, d')" by fastforce
  have "\<not> closed oneDoc" "maxDocSize (opts oneDoc) = 16777216" by (simp_all add: oneDoc_def newDB_def defaultOptions_def)
  then show ?thesis using set_then_get [OF r] k r by auto
qed

text \<open>
  C31: \<open>All\<close> yields every document of the collection once, in ascending order of the IDs, if all
  of them decode; on a closed database it yields nothing.
\<close>

theorem All_ascending:
  assumes "\<forall>i raw. fmlookup (fmget (colls d) n) i = Some raw \<longrightarrow> (\<exists>v. dec cd raw = Inr v)"
  shows "coll_All cd n d (\<lambda>s i v. (s @ [(i, v)], True)) [] =
       (if closed d then [] else map (\<lambda>i. (i, projr (coll_Get cd n i d))) (sortedKeys (fmget (colls d) n)), False) \<and>
     sorted (sortedKeys (fmget (colls d) n)) \<and> distinct (sortedKeys (fmget (colls d) n)) \<and>
     (\<forall>i. i \<in> set (sortedKeys (fmget (colls d) n)) \<longleftrightarrow> cell (colls d) (n, Some i) \<noteq> None)"
proof -
  let ?m = "fmget (colls d) n"
  have ex: "\<forall>i \<in> set (sortedKeys ?m). \<exists>raw v. fmlookup ?m i = Some raw \<and> dec cd raw = Inr v"
    using assms by (auto simp: fmlookup_dom'_iff)
  have get: "dec cd (the (fmlookup ?m i)) = coll_Get cd n i d" if "i \<in> set (sortedKeys ?m)" "\<not> closed d" for i
    using that by (auto simp: coll_Get_def DB_read_def fmlookup_dom'_iff)
  have "coll_All cd n d (\<lambda>s i v. (s @ [(i, v)], True)) [] =
       (if closed d then [] else map (\<lambda>i. (i, projr (coll_Get cd n i d))) (sortedKeys ?m), False)"
    using get by (auto simp: coll_All_def Let_def allLoop_collect [OF ex])
  then show ?thesis by (auto simp: fmlookup_dom'_iff cell_def)
qed

text \<open>Witness for C31: two raw documents, stored in the other order.\<close>

definition twoDocs :: db where
  "twoDocs = oneDoc\<lparr>colls := fmupd ''u'' (fmupd ''b'' ''2'' (fmupd ''a'' ''1'' fmempty)) fmempty\<rparr>"

theorem All_ascending_witness:
  "coll_All rawCodec ''u'' twoDocs (\<lambda>s i v. (s @ [(i, v)], True)) [] = ([(''a'', ''1''), (''b'', ''2'')], False)"
proof -
  have c: "canonAt maxNestingDepth ''1''" "canonAt maxNestingDepth ''2''" 
    by (rule canonAt_mono [where d = 0], code_simp, simp)+
  have k: "sortedKeys (fmupd ''b'' ''2'' (fmupd ''a'' ''1'' fmempty)) = [''a'', ''b'']" by code_simp
  have "coll_Get rawCodec ''u'' ''a'' twoDocs = Inr ''1''" "coll_Get rawCodec ''u'' ''b'' twoDocs = Inr ''2''"
    by (simp_all add: coll_Get_def DB_read_def twoDocs_def oneDoc_def newDB_def rawCodec_def rawText_canon c)
  then show ?thesis
    using All_ascending [of twoDocs "''u''" rawCodec]
    by (simp add: twoDocs_def oneDoc_def newDB_def rawCodec_def rawText_canon c k)
qed

text \<open>
  \<open>Count\<close> is the number of IDs \<open>Has\<close> reports, on open and closed databases.
\<close>

lemma Count_Has: "coll_Count n d = card {i. coll_Has n i d}"
  by (auto simp: coll_Count_def coll_Has_iff fcard.rep_eq)

end
