(* ===== verification/Protocol.thy ===== *)
theory Protocol
  imports Collection "HOL-Library.Word"
begin

text \<open>
  The HTTP protocol of the server: \<open>protocol.go\<close>.  Failures and their wire form, the decoding
  of a request body into its fields, the strict checks on Unicode escapes, and the extraction of
  typed fields and targets.

  A request is what \<open>net/http\<close> hands to the handler: \<open>rq_mediaType\<close> is the result of
  \<open>mime.ParseMediaType\<close> on the Content-Type header (\<open>None\<close> for an error) and
  \<open>rq_body\<close> the bytes the connection delivers, followed by an error if \<open>rq_bodyError\<close>.
\<close>

unbundle bit_operations_syntax

subsection \<open>Failures\<close>

record apiFailure =
  f_status :: nat
  f_code :: string
  f_message :: string

definition failure :: "nat \<Rightarrow> string \<Rightarrow> string \<Rightarrow> apiFailure" where
  "failure status code message = \<lparr>f_status = status, f_code = code, f_message = message\<rparr>"

definition failInvalidJSON :: apiFailure where
  "failInvalidJSON = failure 400 ''invalid_json'' ''body must be one valid UTF-8 JSON object''"
definition failInvalidRequest :: apiFailure where
  "failInvalidRequest = failure 400 ''invalid_request'' ''request does not match the endpoint schema''"
definition failInvalidCollection :: apiFailure where
  "failInvalidCollection = failure 400 ''invalid_collection'' ''invalid collection name''"
definition failInvalidID :: apiFailure where
  "failInvalidID = failure 400 ''invalid_id'' ''invalid document ID''"
definition failAuthRequired :: apiFailure where
  "failAuthRequired = failure 401 ''authentication_required'' ''authentication required''"
definition failInvalidToken :: apiFailure where
  "failInvalidToken = failure 401 ''invalid_token'' ''invalid or expired credential''"
definition failForbidden :: apiFailure where
  "failForbidden = failure 403 ''forbidden'' ''insufficient permission''"
definition failReserved :: apiFailure where
  "failReserved = failure 403 ''reserved_collection'' ''collection belongs to the reserved _meta namespace''"
definition failNotFound :: apiFailure where
  "failNotFound = failure 404 ''not_found'' ''document not found''"
definition failRouteNotFound :: apiFailure where
  "failRouteNotFound = failure 404 ''route_not_found'' ''route not found''"
definition failMethod :: apiFailure where
  "failMethod = failure 405 ''method_not_allowed'' ''method not allowed''"
definition failUserDisabled :: apiFailure where
  "failUserDisabled = failure 409 ''user_disabled'' ''target user is disabled''"
definition failDocumentTooLarge :: apiFailure where
  "failDocumentTooLarge = failure 413 ''document_too_large'' ''document exceeds the configured size limit''"
definition failRequestTooLarge :: apiFailure where
  "failRequestTooLarge = failure 413 ''request_too_large'' ''request body exceeds the configured size limit''"
definition failMediaType :: apiFailure where
  "failMediaType = failure 415 ''unsupported_media_type'' ''Content-Type must be application/json without content encoding''"
definition failStorage :: apiFailure where
  "failStorage = failure 500 ''storage_error'' ''database storage operation failed''"
definition failInternal :: apiFailure where
  "failInternal = failure 500 ''internal_error'' ''internal server error''"
definition failUnavailable :: apiFailure where
  "failUnavailable = failure 503 ''unavailable'' ''server is unavailable''"

lemmas fail_defs = failure_def failInvalidJSON_def failInvalidRequest_def failInvalidCollection_def failInvalidID_def
  failAuthRequired_def failInvalidToken_def failForbidden_def failReserved_def failNotFound_def failRouteNotFound_def
  failMethod_def failUserDisabled_def failDocumentTooLarge_def failRequestTooLarge_def failMediaType_def
  failStorage_def failInternal_def failUnavailable_def

subsection \<open>Responses\<close>

record response =
  rs_status :: nat
  rs_header :: "(string \<times> string) list"
  rs_body :: bytes

text \<open>\<open>json.NewEncoder(w).Encode\<close> ends the text with a newline.\<close>

definition writeJSON :: "(string \<times> string) list \<Rightarrow> nat \<Rightarrow> bytes \<Rightarrow> response" where
  "writeJSON hdr status value = \<lparr>rs_status = status,
     rs_header = hdr @ [(''Content-Type'', ''application/json; charset=utf-8'')], rs_body = value @ [nl]\<rparr>"

definition errorEnvelope :: "apiFailure \<Rightarrow> bytes" where
  "errorEnvelope f = renderObject [(''error'', renderObject [(''code'', quote (f_code f)), (''message'', quote (f_message f))])]"

definition challenge :: "apiFailure \<Rightarrow> (string \<times> string) list" where
  "challenge f = (if f_status f = 401
     then [(''WWW-Authenticate'', ''Bearer realm='' @ dq # ''medb'' @ dq #
        (if f_code f = ''invalid_token'' then '', error='' @ dq # ''invalid_token'' @ [dq] else []))]
     else [])"

definition writeFailure :: "apiFailure \<Rightarrow> response" where
  "writeFailure f = writeJSON (challenge f) (f_status f) (errorEnvelope f)"

definition writeNoContent :: response where
  "writeNoContent = \<lparr>rs_status = 204, rs_header = [], rs_body = []\<rparr>"

subsection \<open>Unicode escapes\<close>

definition hexDigitWord :: "char \<Rightarrow> 16 word option" where
  "hexDigitWord c =
     (if CHR ''0'' \<le> c \<and> c \<le> CHR ''9'' then Some (of_nat (byte c - byte (CHR ''0'')))
      else if CHR ''a'' \<le> c \<and> c \<le> CHR ''f'' then Some (of_nat (byte c - byte (CHR ''a'')) + 10)
      else if CHR ''A'' \<le> c \<and> c \<le> CHR ''F'' then Some (of_nat (byte c - byte (CHR ''A'')) + 10)
      else None)"

fun parseHex4_loop :: "16 word \<Rightarrow> bytes \<Rightarrow> 16 word option" where
  "parseHex4_loop value [] = Some value"
| "parseHex4_loop value (c # cs) =
     (case hexDigitWord c of None \<Rightarrow> None | Some v \<Rightarrow> parseHex4_loop (push_bit 4 value OR v) cs)"

definition parseHex4 :: "bytes \<Rightarrow> nat \<Rightarrow> 16 word option" where
  "parseHex4 data start = (if start + 4 > length data then None else parseHex4_loop 0 (take 4 (drop start data)))"

function validJSONUnicode_loop :: "bytes \<Rightarrow> nat \<Rightarrow> bool \<Rightarrow> bool" where
  "validJSONUnicode_loop data i inString =
     (if i \<ge> length data then \<not> inString
      else let c = data ! i in
        if \<not> inString then validJSONUnicode_loop data (i + 1) (c = dq)
        else if c = dq then validJSONUnicode_loop data (i + 1) False
        else if c = bsl then
          (if i + 1 \<ge> length data then False
           else if data ! (i + 1) \<noteq> CHR ''u'' then validJSONUnicode_loop data (i + 2) True
           else case parseHex4 data (i + 2) of
             None \<Rightarrow> False
           | Some value \<Rightarrow>
               if 0xD800 \<le> value \<and> value \<le> 0xDBFF then
                 (if i + 12 > length data \<or> data ! (i + 6) \<noteq> bsl \<or> data ! (i + 7) \<noteq> CHR ''u'' then False
                  else case parseHex4 data (i + 8) of
                    None \<Rightarrow> False
                  | Some low \<Rightarrow>
                      if low < 0xDC00 \<or> low > 0xDFFF then False else validJSONUnicode_loop data (i + 12) True)
               else if 0xDC00 \<le> value \<and> value \<le> 0xDFFF then False
               else validJSONUnicode_loop data (i + 6) True)
        else validJSONUnicode_loop data (i + 1) True)"
  by pat_completeness auto
termination
  by (relation "measure (\<lambda>(data, i, inString). length data - i)") auto

declare validJSONUnicode_loop.simps [simp del]

definition validJSONUnicode :: "bytes \<Rightarrow> bool" where
  "validJSONUnicode data = validJSONUnicode_loop data 0 False"

subsection \<open>Request bodies\<close>

record request =
  rq_method :: string
  rq_path :: string
  rq_rawQuery :: string
  rq_contentLength :: int
  rq_transferEncoding :: "string list"
  rq_authorization :: "string list"
  rq_contentEncoding :: string
  rq_mediaType :: "string option"
  rq_body :: bytes
  rq_bodyError :: bool

text \<open>\<open>bytes.TrimSpace\<close> on ASCII white space; the texts it is applied to are JSON.\<close>

definition isSpace :: "char \<Rightarrow> bool" where
  "isSpace c \<longleftrightarrow> c = CHR '' '' \<or> (9 \<le> byte c \<and> byte c \<le> 13)"

definition trimSpace :: "bytes \<Rightarrow> bytes" where
  "trimSpace s = rev (dropWhile isSpace (rev (dropWhile isSpace s)))"

text \<open>The decoder loop over the members of the object.\<close>

fun collectFields :: "fields \<Rightarrow> (string, bytes) fmap \<Rightarrow> apiFailure + (string, bytes) fmap" where
  "collectFields [] m = Inr m"
| "collectFields ((k, raw) # kvs) m =
     (case unquoteBody k of
        None \<Rightarrow> Inl failInvalidJSON
      | Some name \<Rightarrow>
          if fmlookup m name \<noteq> None then Inl failInvalidRequest
          else collectFields kvs (fmupd name raw m))"

definition readObject :: "request \<Rightarrow> int \<Rightarrow> string list \<Rightarrow> string list \<Rightarrow> apiFailure + (string, bytes) fmap" where
  "readObject r maxBytes allowed required =
     (if rq_contentEncoding r \<noteq> [] then Inl failMediaType
      else if rq_mediaType r \<noteq> Some ''application/json'' then Inl failMediaType
      else if rq_contentLength r > maxBytes then Inl failRequestTooLarge
      else if int (length (rq_body r)) > maxBytes then Inl failRequestTooLarge
      else if rq_bodyError r then Inl failInvalidJSON
      else
        let body = rq_body r in
        if length body = 0 \<or> \<not> validUTF8 body \<or> \<not> validJSONUnicode body \<or> \<not> validJSON body then Inl failInvalidJSON
        else
          let trimmed = trimSpace body in
          if length trimmed = 0 \<or> hd trimmed \<noteq> CHR ''{'' then Inl failInvalidJSON
          else case objectFields trimmed of
            None \<Rightarrow> Inl failInvalidJSON
          | Some kvs \<Rightarrow>
              (case collectFields kvs fmempty of
                 Inl f \<Rightarrow> Inl f
               | Inr flds \<Rightarrow>
                   if \<not> fmdom flds |\<subseteq>| fset_of_list allowed then Inl failInvalidRequest
                   else if list_ex (\<lambda>name. fmlookup flds name = None) required then Inl failInvalidRequest
                   else Inr flds))"

subsection \<open>Fields\<close>

definition isJSONNull :: "bytes \<Rightarrow> bool" where
  "isJSONNull raw \<longleftrightarrow> trimSpace raw = ''null''"

definition stringField :: "(string, bytes) fmap \<Rightarrow> string \<Rightarrow> apiFailure + string" where
  "stringField flds name = (case fmlookup flds name of
     None \<Rightarrow> Inl failInvalidRequest
   | Some raw \<Rightarrow>
       if isJSONNull raw then Inl failInvalidRequest
       else case unquote raw of None \<Rightarrow> Inl failInvalidRequest | Some value \<Rightarrow> Inr value)"

definition optionalStringField :: "(string, bytes) fmap \<Rightarrow> string \<Rightarrow> apiFailure + string option" where
  "optionalStringField flds name = (case fmlookup flds name of
     None \<Rightarrow> Inr None
   | Some raw \<Rightarrow>
       if isJSONNull raw then Inr None
       else (case stringField flds name of Inl f \<Rightarrow> Inl f | Inr value \<Rightarrow> Inr (Some value)))"

text \<open>\<open>json.Unmarshal\<close> into a bool.\<close>

definition unmarshalBool :: "bytes \<Rightarrow> bool option" where
  "unmarshalBool raw = (if raw = ''true'' then Some True else if raw = ''false'' then Some False else None)"

definition optionalBoolField :: "(string, bytes) fmap \<Rightarrow> string \<Rightarrow> apiFailure + bool option" where
  "optionalBoolField flds name = (case fmlookup flds name of
     None \<Rightarrow> Inr None
   | Some raw \<Rightarrow>
       if isJSONNull raw then Inl failInvalidRequest
       else case unmarshalBool raw of None \<Rightarrow> Inl failInvalidRequest | Some value \<Rightarrow> Inr (Some value))"

definition collectionTarget :: "(string, bytes) fmap \<Rightarrow> apiFailure + string" where
  "collectionTarget flds = (case stringField flds ''collection'' of
     Inl f \<Rightarrow> Inl f
   | Inr collection \<Rightarrow>
       if \<not> validCollectionName collection then Inl failInvalidCollection
       else if reservedCollection collection then Inl failReserved
       else Inr collection)"

definition documentTarget :: "(string, bytes) fmap \<Rightarrow> int \<Rightarrow> apiFailure + string \<times> string" where
  "documentTarget flds maxIDBytes = (case stringField flds ''collection'' of
     Inl f \<Rightarrow> Inl f
   | Inr collection \<Rightarrow>
       if \<not> validCollectionName collection then Inl failInvalidCollection
       else if reservedCollection collection then Inl failReserved
       else (case stringField flds ''id'' of
          Inl f \<Rightarrow> Inl f
        | Inr i \<Rightarrow>
            if \<not> validUTF8 i \<or> int (length i) > maxIDBytes then Inl failInvalidID
            else Inr (collection, i)))"

end
