(* ===== verification/Credential.thy ===== *)
theory Credential
  imports Db "HOL-Library.Word"
begin

text \<open>
  Bearer tokens: \<open>newToken\<close>, \<open>validToken\<close>, \<open>tokenID\<close> and \<open>validHexID\<close> of
  \<open>auth.go\<close>, with unpadded URL-safe base64 (\<open>encoding/base64\<close>) and SHA-256
  (\<open>crypto/sha256\<close>, FIPS 180-4) as the code uses them.
\<close>

unbundle bit_operations_syntax

subsection \<open>Base64\<close>

definition b64Char :: "nat \<Rightarrow> char" where
  "b64Char n = (if n < 26 then char_of (65 + n) else if n < 52 then char_of (71 + n)
     else if n < 62 then char_of (n - 4) else if n = 62 then CHR ''-'' else CHR ''_'')"

definition b64Val :: "char \<Rightarrow> nat option" where
  "b64Val c = (let b = byte c in
     if 65 \<le> b \<and> b \<le> 90 then Some (b - 65) else if 97 \<le> b \<and> b \<le> 122 then Some (b - 71)
     else if 48 \<le> b \<and> b \<le> 57 then Some (b + 4) else if c = CHR ''-'' then Some 62
     else if c = CHR ''_'' then Some 63 else None)"

fun b64Encode :: "bytes \<Rightarrow> string" where
  "b64Encode (a # b # c # r) =
     b64Char (byte a div 4) # b64Char (byte a mod 4 * 16 + byte b div 16) #
     b64Char (byte b mod 16 * 4 + byte c div 64) # b64Char (byte c mod 64) # b64Encode r"
| "b64Encode [a, b] = [b64Char (byte a div 4), b64Char (byte a mod 4 * 16 + byte b div 16), b64Char (byte b mod 16 * 4)]"
| "b64Encode [a] = [b64Char (byte a div 4), b64Char (byte a mod 4 * 16)]"
| "b64Encode [] = []"

text \<open>The decoder skips line breaks and ignores the unused low bits of a last partial group.\<close>

fun b64Groups :: "nat list \<Rightarrow> bytes option" where
  "b64Groups (a # b # c # d # r) =
     map_option (\<lambda>t. char_of (a * 4 + b div 16) # char_of (b mod 16 * 16 + c div 4) # char_of (c mod 4 * 64 + d) # t)
       (b64Groups r)"
| "b64Groups [a, b, c] = Some [char_of (a * 4 + b div 16), char_of (b mod 16 * 16 + c div 4)]"
| "b64Groups [a, b] = Some [char_of (a * 4 + b div 16)]"
| "b64Groups [a] = None"
| "b64Groups [] = Some []"

fun b64Values :: "string \<Rightarrow> nat list option" where
  "b64Values [] = Some []"
| "b64Values (c # cs) =
     (if c = CHR 0x0D \<or> c = CHR 0x0A then b64Values cs
      else case b64Val c of None \<Rightarrow> None | Some v \<Rightarrow> map_option ((#) v) (b64Values cs))"

definition b64Decode :: "string \<Rightarrow> bytes option" where
  "b64Decode s = (case b64Values s of None \<Rightarrow> None | Some vs \<Rightarrow> b64Groups vs)"

subsection \<open>SHA-256\<close>

text \<open>
  The constants are the first 32 bits of the fractional parts of the cube roots of the first 64
  primes and of the square roots of the first eight; \<open>rootBits\<close> is the integer part of a
  root, found bit by bit.
\<close>

definition shaPrimes :: "nat list" where
  "shaPrimes = filter (\<lambda>p. list_all (\<lambda>q. p mod q \<noteq> 0) [2..<p]) [2..<312]"

fun rootBits :: "nat \<Rightarrow> nat \<Rightarrow> nat \<Rightarrow> nat \<Rightarrow> nat" where
  "rootBits k 0 n a = a"
| "rootBits k (Suc b) n a = rootBits k b n (if (a + 2 ^ b) ^ k \<le> n then a + 2 ^ b else a)"

definition shaK :: "32 word list" where
  "shaK = map (\<lambda>p. of_nat (rootBits 3 36 (p * 2 ^ 96) 0)) shaPrimes"

type_synonym sha_state = "32 word \<times> 32 word \<times> 32 word \<times> 32 word \<times> 32 word \<times> 32 word \<times> 32 word \<times> 32 word"

definition shaInit :: sha_state where
  "shaInit = (let h = (\<lambda>i. of_nat (rootBits 2 36 (shaPrimes ! i * 2 ^ 64) 0)) in
     (h 0, h 1, h 2, h 3, h 4, h 5, h 6, h 7))"

definition rotr :: "nat \<Rightarrow> 32 word \<Rightarrow> 32 word" where
  "rotr n w = drop_bit n w OR push_bit (32 - n) w"

definition smallSigma0 :: "32 word \<Rightarrow> 32 word" where
  "smallSigma0 w = rotr 7 w XOR rotr 18 w XOR drop_bit 3 w"

definition smallSigma1 :: "32 word \<Rightarrow> 32 word" where
  "smallSigma1 w = rotr 17 w XOR rotr 19 w XOR drop_bit 10 w"

fun schedule :: "nat \<Rightarrow> 32 word list \<Rightarrow> 32 word list" where
  "schedule 0 ws = ws"
| "schedule (Suc n) ws = (let t = length ws in
     schedule n (ws @ [smallSigma1 (ws ! (t - 2)) + ws ! (t - 7) + smallSigma0 (ws ! (t - 15)) + ws ! (t - 16)]))"

fun shaRounds :: "(32 word \<times> 32 word) list \<Rightarrow> sha_state \<Rightarrow> sha_state" where
  "shaRounds [] s = s"
| "shaRounds ((k, w) # kws) (a, b, c, d, e, f, g, h) =
     (let t1 = h + (rotr 6 e XOR rotr 11 e XOR rotr 25 e) + ((e AND f) XOR (NOT e AND g)) + k + w;
          t2 = (rotr 2 a XOR rotr 13 a XOR rotr 22 a) + ((a AND b) XOR (a AND c) XOR (b AND c))
      in shaRounds kws (t1 + t2, a, b, c, d + t1, e, f, g))"

definition shaBlock :: "32 word list \<Rightarrow> sha_state \<Rightarrow> sha_state" where
  "shaBlock ws s = (case (s, shaRounds (zip shaK (schedule 48 ws)) s) of
     ((a, b, c, d, e, f, g, h), (a', b', c', d', e', f', g', h')) \<Rightarrow>
       (a + a', b + b', c + c', d + d', e + e', f + f', g + g', h + h'))"

fun wordsOf :: "bytes \<Rightarrow> 32 word list" where
  "wordsOf (a # b # c # d # r) =
     (push_bit 24 (of_nat (byte a)) OR push_bit 16 (of_nat (byte b)) OR push_bit 8 (of_nat (byte c)) OR of_nat (byte d)) # wordsOf r"
| "wordsOf _ = []"

definition bytesOf :: "32 word \<Rightarrow> bytes" where
  "bytesOf w = map (\<lambda>k. char_of (unat (drop_bit k w AND 255))) [24, 16, 8, 0]"

text \<open>A one bit, zeros up to 56 modulo 64 bytes, and the length in bits as 64-bit big endian.\<close>

definition shaPad :: "bytes \<Rightarrow> bytes" where
  "shaPad m = m @ CHR 0x80 # replicate ((119 - length m mod 64) mod 64) CHR 0x00 @
     map (\<lambda>k. char_of (8 * length m div 256 ^ k mod 256)) [7, 6, 5, 4, 3, 2, 1, 0]"

function shaBlocks :: "32 word list \<Rightarrow> sha_state \<Rightarrow> sha_state" where
  "shaBlocks ws s = (if ws = [] then s else shaBlocks (drop 16 ws) (shaBlock (take 16 ws) s))"
  by pat_completeness auto
termination
  by (relation "measure (\<lambda>(ws, s). length ws)") auto

declare shaBlocks.simps [simp del]

definition sha256 :: "bytes \<Rightarrow> bytes" where
  "sha256 m = (case shaBlocks (wordsOf (shaPad m)) shaInit of
     (a, b, c, d, e, f, g, h) \<Rightarrow> concat (map bytesOf [a, b, c, d, e, f, g, h]))"

subsection \<open>Tokens\<close>

definition tokenPrefix :: string where
  "tokenPrefix = ''medb_''"

text \<open>\<open>newToken\<close> on the 32 bytes \<open>crypto/rand\<close> delivers.\<close>

definition newToken :: "bytes \<Rightarrow> string" where
  "newToken secret = tokenPrefix @ b64Encode secret"

definition validToken :: "string \<Rightarrow> bool" where
  "validToken token \<longleftrightarrow> length token = 48 \<and> prefix tokenPrefix token \<and>
     (case b64Decode (drop (length tokenPrefix) token) of None \<Rightarrow> False | Some decoded \<Rightarrow> length decoded = 32)"

definition tokenID :: "string \<Rightarrow> string" where
  "tokenID token = hexEncode (sha256 token)"

fun validHexID_loop :: "string \<Rightarrow> bool" where
  "validHexID_loop [] = True"
| "validHexID_loop (c # cs) =
     (if \<not> (CHR ''0'' \<le> c \<and> c \<le> CHR ''9'') \<and> \<not> (CHR ''a'' \<le> c \<and> c \<le> CHR ''f'') then False else validHexID_loop cs)"

definition validHexID :: "string \<Rightarrow> nat \<Rightarrow> bool" where
  "validHexID value sz = (if length value \<noteq> sz then False else validHexID_loop value)"

subsection \<open>Facts\<close>

lemma length_sha256 [simp]: "length (sha256 m) = 32"
  by (auto simp: sha256_def bytesOf_def split: prod.split)

lemma hexDigit_ok: "n < 16 \<Longrightarrow> CHR ''0'' \<le> hexDigit n \<and> hexDigit n \<le> CHR ''9'' \<or> CHR ''a'' \<le> hexDigit n \<and> hexDigit n \<le> CHR ''f''"
  by (auto simp: hexDigit_def less_eq_char_def)

lemma validHexID_loop_iff:
  "validHexID_loop s \<longleftrightarrow> (\<forall>c \<in> set s. CHR ''0'' \<le> c \<and> c \<le> CHR ''9'' \<or> CHR ''a'' \<le> c \<and> c \<le> CHR ''f'')"
  by (induction s) auto

lemma hexEncode_valid: "validHexID (hexEncode bs) (2 * length bs)"
proof -
  have "length (hexEncode bs) = 2 * length bs" by (induction bs) (simp_all add: hexEncode_def)
  moreover have "validHexID_loop (hexEncode bs)"
    using hexDigit_ok by (auto simp: validHexID_loop_iff hexEncode_def)
  ultimately show ?thesis by (simp add: validHexID_def)
qed

lemma tokenID_valid: "validHexID (tokenID token) 64"
  using hexEncode_valid [of "sha256 token"] by (simp add: tokenID_def)

lemma NewID_valid: "length rnd \<ge> 16 \<Longrightarrow> validHexID (NewID rnd) 32"
  using hexEncode_valid [of "take 16 rnd"] by (simp add: NewID_def)

lemma b64Val_Char [simp]: "n < 64 \<Longrightarrow> b64Val (b64Char n) = Some n"
  by (auto simp: b64Val_def b64Char_def Let_def)

lemma b64Char_no_break [simp]: "n < 64 \<Longrightarrow> b64Char n \<noteq> CHR 0x0D \<and> b64Char n \<noteq> CHR 0x0A"
  by (auto simp: b64Char_def char_of_eq_iff)

lemma b64Values_Char [simp]:
  "n < 64 \<Longrightarrow> b64Values (b64Char n # cs) = map_option ((#) n) (b64Values cs)"
  by (simp del: b64Char_no_break add: b64Char_no_break [of n])

lemma sixBits [simp]: "byte a div 4 < 64" "byte a mod 4 * 16 + byte b div 16 < 64" "byte b mod 16 * 4 + byte c div 64 < 64"
  "byte c mod 64 < 64" "byte b mod 16 * 4 < 64" "byte a mod 4 * 16 < 64"
proof -
  have "byte a div 4 < 64" "byte b div 16 < 16" "byte c div 64 < 4" "byte a mod 4 < 4" "byte b mod 16 < 16"
    by (simp_all add: less_mult_imp_div_less)
  then show "byte a div 4 < 64" "byte a mod 4 * 16 + byte b div 16 < 64" "byte b mod 16 * 4 + byte c div 64 < 64"
    "byte c mod 64 < 64" "byte b mod 16 * 4 < 64" "byte a mod 4 * 16 < 64" by linarith+
qed

lemma regroup:
  fixes x y z :: nat
  assumes "x < 256" "y < 256" "z < 256"
  shows "x div 4 * 4 + (x mod 4 * 16 + y div 16) div 16 = x"
    "(x mod 4 * 16 + y div 16) mod 16 * 16 + (y mod 16 * 4 + z div 64) div 4 = y"
    "(y mod 16 * 4 + z div 64) mod 4 * 64 + z mod 64 = z"
proof -
  have s: "y div 16 < 16" "z div 64 < 4" using assms by (simp_all add: less_mult_imp_div_less)
  have "(k * 16 + y div 16) div 16 = k" "(k * 16 + y div 16) mod 16 = y div 16" for k using s by simp_all
  moreover have "(k * 4 + z div 64) div 4 = k" "(k * 4 + z div 64) mod 4 = z div 64" for k using s by simp_all
  ultimately show "x div 4 * 4 + (x mod 4 * 16 + y div 16) div 16 = x"
    "(x mod 4 * 16 + y div 16) mod 16 * 16 + (y mod 16 * 4 + z div 64) div 4 = y"
    "(y mod 16 * 4 + z div 64) mod 4 * 64 + z mod 64 = z" by simp_all
qed

lemma regroup_chars [simp]:
  "char_of (byte a div 4 * 4 + (byte a mod 4 * 16 + byte b div 16) div 16) = a"
  "char_of ((byte a mod 4 * 16 + byte b div 16) mod 16 * 16 + (byte b mod 16 * 4 + byte c div 64) div 4) = b"
  "char_of ((byte b mod 16 * 4 + byte c div 64) mod 4 * 64 + byte c mod 64) = c"
  "char_of ((byte a mod 4 * 16 + byte b div 16) mod 16 * 16 + (byte b mod 16 * 4) div 4) = b"
  "char_of (byte a div 4 * 4 + (byte a mod 4 * 16) div 16) = a"
  using regroup [of "byte a" "byte b" "byte c"] regroup [of "byte a" "byte b" 0] regroup [of "byte a" 0 0] by simp_all

lemma b64_roundtrip: "b64Decode (b64Encode bs) = Some bs"
proof (induction bs rule: b64Encode.induct)
  case (1 a b c r)
  then obtain vs where vs: "b64Values (b64Encode r) = Some vs" "b64Groups vs = Some r"
    by (auto simp: b64Decode_def split: option.splits)
  have "byte c div 64 < 4" by (simp add: less_mult_imp_div_less)
  then show ?case using vs by (simp add: b64Decode_def)
next
  case (2 a b)
  show ?case by (simp add: b64Decode_def)
next
  case (3 a)
  show ?case by (simp add: b64Decode_def)
next
  case 4
  show ?case by (simp add: b64Decode_def)
qed

lemma length_b64Encode: "length (b64Encode bs) = (4 * length bs + 2) div 3"
  by (induction bs rule: b64Encode.induct) auto

lemma length_b64Groups: "b64Groups vs = Some bs \<Longrightarrow> length bs = 3 * length vs div 4"
  by (induction vs arbitrary: bs rule: b64Groups.induct) auto

lemma b64Groups_total: "length vs mod 4 \<noteq> 1 \<Longrightarrow> b64Groups vs \<noteq> None"
  by (induction vs rule: b64Groups.induct) (auto simp: mod_Suc split: if_splits)

lemma b64Values_length: "b64Values s = Some vs \<Longrightarrow> length vs \<le> length s"
  by (induction s arbitrary: vs) (auto split: if_splits option.splits intro: le_SucI)

lemma b64Val_breaks [simp]: "b64Val CHR 0x0D = None" "b64Val CHR 0x0A = None"
  by (simp_all add: b64Val_def)

lemma b64Values_full:
  "(\<exists>vs. b64Values s = Some vs \<and> length vs = length s) \<longleftrightarrow> list_all (\<lambda>c. b64Val c \<noteq> None) s"
proof (induction s)
  case (Cons c cs)
  have "length vs \<noteq> Suc (length cs)" if "b64Values cs = Some vs" for vs using b64Values_length [OF that] by simp
  then show ?case using Cons by (auto split: option.splits)
qed simp

lemma newToken_valid: "length secret = 32 \<Longrightarrow> validToken (newToken secret) \<and> b64Decode (drop 5 (newToken secret)) = Some secret"
  using b64_roundtrip [of secret] length_b64Encode [of secret]
  by (simp add: validToken_def newToken_def tokenPrefix_def)

subsection \<open>Properties\<close>

text \<open>
  C37: \<open>validToken\<close> accepts exactly the prefix followed by 43 characters of the URL-safe base64
  alphabet; a token with a line break, which the base64 decoder would skip, is refused.
\<close>

theorem validToken_spec:
  "validToken token \<longleftrightarrow> (\<exists>payload. token = ''medb_'' @ payload \<and> length payload = 43 \<and>
     list_all (\<lambda>c. b64Val c \<noteq> None) payload)"
proof -
  have key: "(case b64Decode s of None \<Rightarrow> False | Some dcd \<Rightarrow> length dcd = 32) \<longleftrightarrow> list_all (\<lambda>c. b64Val c \<noteq> None) s"
    if s: "length s = 43" for s
  proof
    assume "case b64Decode s of None \<Rightarrow> False | Some dcd \<Rightarrow> length dcd = 32"
    then obtain vs dcd where v: "b64Values s = Some vs" "b64Groups vs = Some dcd" "length dcd = 32"
      by (auto simp: b64Decode_def split: option.splits)
    have "3 * length vs div 4 = 32" using length_b64Groups [OF v(2)] v(3) by simp
    then have "length vs = length s" using b64Values_length [OF v(1)] s by linarith
    then show "list_all (\<lambda>c. b64Val c \<noteq> None) s" using b64Values_full v(1) by blast
  next
    assume "list_all (\<lambda>c. b64Val c \<noteq> None) s"
    then obtain vs where v: "b64Values s = Some vs" "length vs = 43" using b64Values_full s by metis
    then obtain dcd where d: "b64Groups vs = Some dcd" using b64Groups_total [of vs] by auto
    then show "case b64Decode s of None \<Rightarrow> False | Some dcd \<Rightarrow> length dcd = 32"
      using v length_b64Groups [OF d] by (simp add: b64Decode_def)
  qed
  show ?thesis
    unfolding validToken_def tokenPrefix_def prefix_def using key by auto
qed

text \<open>
  C36: A generated token is valid, and its 32 secret bytes can be recovered from it, so different
  secrets give different tokens.
\<close>

theorem newToken_roundtrip:
  assumes "length secret = 32"
  shows "validToken (newToken secret) \<and> b64Decode (drop 5 (newToken secret)) = Some secret"
  by (rule newToken_valid [OF assms])

text \<open>Witness for C36: the secret of 32 zero bytes.\<close>

theorem newToken_roundtrip_witness:
  "validToken (newToken (replicate 32 CHR 0x00)) \<and> b64Decode (drop 5 (newToken (replicate 32 CHR 0x00))) = Some (replicate 32 CHR 0x00)"
  by (rule newToken_roundtrip) simp

end
