(* ===== verification/Timestamp.thy ===== *)
theory Timestamp
  imports Prelude
begin

text \<open>
  Timestamps of the authentication records: \<open>parseUTCTimestamp\<close> and \<open>nowTimestamp\<close> of
  \<open>auth.go\<close>, with the part of \<open>time.Parse\<close> and \<open>Time.Format\<close> they use for the
  layout \<open>RFC3339Nano\<close>.  An instant is its date and time of day in UTC, down to nanoseconds.

  \<open>time.Parse\<close> accepts a little more than RFC 3339: the hour may have one digit, the fraction may
  follow a comma and may have more than nine digits (the rest is dropped).
\<close>

record utc =
  t_year :: nat
  t_month :: nat
  t_day :: nat
  t_hour :: nat
  t_min :: nat
  t_sec :: nat
  t_nsec :: nat

definition isLeap :: "nat \<Rightarrow> bool" where
  "isLeap y \<longleftrightarrow> y mod 4 = 0 \<and> (y mod 100 \<noteq> 0 \<or> y mod 400 = 0)"

definition daysIn :: "nat \<Rightarrow> nat \<Rightarrow> nat" where
  "daysIn m y = (if m = 2 then (if isLeap y then 29 else 28) else if m \<in> {4, 6, 9, 11} then 30 else 31)"

definition validTime :: "utc \<Rightarrow> bool" where
  "validTime t \<longleftrightarrow> t_year t \<le> 9999 \<and> 1 \<le> t_month t \<and> t_month t \<le> 12 \<and> 1 \<le> t_day t \<and>
     t_day t \<le> daysIn (t_month t) (t_year t) \<and> t_hour t < 24 \<and> t_min t < 60 \<and> t_sec t < 60 \<and> t_nsec t < 10 ^ 9"

text \<open>\<open>Time.Before\<close>: components in order of weight.\<close>

definition timeKey :: "utc \<Rightarrow> nat list" where
  "timeKey t = [t_year t, t_month t, t_day t, t_hour t, t_min t, t_sec t, t_nsec t]"

definition Before :: "utc \<Rightarrow> utc \<Rightarrow> bool" where
  "Before a b \<longleftrightarrow> timeKey a < timeKey b"

subsection \<open>Parsing\<close>

definition digitVal :: "char \<Rightarrow> nat option" where
  "digitVal c = (if 48 \<le> byte c \<and> byte c \<le> 57 then Some (byte c - 48) else None)"

text \<open>Exactly \<open>n\<close> digits at the front.\<close>

fun digits :: "nat \<Rightarrow> nat \<Rightarrow> string \<Rightarrow> (nat \<times> string) option" where
  "digits 0 acc s = Some (acc, s)"
| "digits (Suc n) acc [] = None"
| "digits (Suc n) acc (c # cs) = (case digitVal c of None \<Rightarrow> None | Some v \<Rightarrow> digits n (acc * 10 + v) cs)"

text \<open>\<open>getnum(value, false)\<close>: two digits, or one.\<close>

definition getnum :: "string \<Rightarrow> (nat \<times> string) option" where
  "getnum s = (case digits 2 0 s of Some x \<Rightarrow> Some x | None \<Rightarrow> digits 1 0 s)"

definition skipChar :: "char \<Rightarrow> string \<Rightarrow> string option" where
  "skipChar c s = (case s of [] \<Rightarrow> None | x # xs \<Rightarrow> if x = c then Some xs else None)"

text \<open>The fraction of a second in nanoseconds: the first nine digits, padded with zeros.\<close>

definition fracValue :: "string \<Rightarrow> nat" where
  "fracValue ds = foldl (\<lambda>n c. n * 10 + (byte c - 48)) 0 (take 9 (ds @ replicate 9 CHR ''0''))"

definition isDig :: "char \<Rightarrow> bool" where
  "isDig c \<longleftrightarrow> digitVal c \<noteq> None"

definition parseFrac :: "string \<Rightarrow> nat \<times> string" where
  "parseFrac s = (case s of
     c # d # r \<Rightarrow> if (c = CHR ''.'' \<or> c = CHR '','') \<and> isDig d
                   then (fracValue (takeWhile isDig (d # r)), dropWhile isDig (d # r)) else (0, s)
   | _ \<Rightarrow> (0, s))"

text \<open>\<open>time.Parse(time.RFC3339Nano, value)\<close> for a value that ends in \<open>Z\<close>.\<close>

definition parseDate :: "string \<Rightarrow> (nat \<times> nat \<times> nat \<times> string) option" where
  "parseDate s =
     (case digits 4 0 s of None \<Rightarrow> None | Some (y, s1) \<Rightarrow>
      case skipChar (CHR ''-'') s1 of None \<Rightarrow> None | Some s2 \<Rightarrow>
      case digits 2 0 s2 of None \<Rightarrow> None | Some (m, s3) \<Rightarrow>
      case skipChar (CHR ''-'') s3 of None \<Rightarrow> None | Some s4 \<Rightarrow>
      case digits 2 0 s4 of None \<Rightarrow> None | Some (d, s5) \<Rightarrow>
      if 1 \<le> m \<and> m \<le> 12 then Some (y, m, d, s5) else None)"

definition parseClock :: "string \<Rightarrow> (nat \<times> nat \<times> nat \<times> string) option" where
  "parseClock s =
     (case getnum s of None \<Rightarrow> None | Some (h, s1) \<Rightarrow>
      case skipChar (CHR '':'') s1 of None \<Rightarrow> None | Some s2 \<Rightarrow>
      case digits 2 0 s2 of None \<Rightarrow> None | Some (mi, s3) \<Rightarrow>
      case skipChar (CHR '':'') s3 of None \<Rightarrow> None | Some s4 \<Rightarrow>
      case digits 2 0 s4 of None \<Rightarrow> None | Some (sec, s5) \<Rightarrow>
      if h < 24 \<and> mi < 60 \<and> sec < 60 then Some (h, mi, sec, s5) else None)"

definition timeParse :: "string \<Rightarrow> utc option" where
  "timeParse value =
     (case parseDate value of None \<Rightarrow> None | Some (y, m, d, s1) \<Rightarrow>
      case skipChar (CHR ''T'') s1 of None \<Rightarrow> None | Some s2 \<Rightarrow>
      case parseClock s2 of None \<Rightarrow> None | Some (h, mi, sec, s3) \<Rightarrow>
      (case parseFrac s3 of (ns, s4) \<Rightarrow>
        if s4 = ''Z'' \<and> 1 \<le> d \<and> d \<le> daysIn m y
        then Some \<lparr>t_year = y, t_month = m, t_day = d, t_hour = h, t_min = mi, t_sec = sec, t_nsec = ns\<rparr>
        else None))"

definition parseUTCTimestamp :: "string \<Rightarrow> utc option" where
  "parseUTCTimestamp value = (if \<not> suffix ''Z'' value then None else timeParse value)"

subsection \<open>Formatting\<close>

fun padded :: "nat \<Rightarrow> nat \<Rightarrow> string" where
  "padded 0 n = []"
| "padded (Suc w) n = padded w (n div 10) @ [char_of (48 + n mod 10)]"

text \<open>Trailing zeros of the fraction are dropped, and the point with the last of them.\<close>

definition formatFrac :: "nat \<Rightarrow> string" where
  "formatFrac ns = (let ds = rev (dropWhile (\<lambda>c. c = CHR ''0'') (rev (padded 9 ns))) in
     if ds = [] then [] else CHR ''.'' # ds)"

definition timeFormat :: "utc \<Rightarrow> string" where
  "timeFormat t = padded 4 (t_year t) @ ''-'' @ padded 2 (t_month t) @ ''-'' @ padded 2 (t_day t) @ ''T'' @
     padded 2 (t_hour t) @ '':'' @ padded 2 (t_min t) @ '':'' @ padded 2 (t_sec t) @ formatFrac (t_nsec t) @ ''Z''"

subsection \<open>Facts\<close>

lemma Before_irrefl [simp]: "\<not> Before a a"
  by (simp add: Before_def)

lemma Before_trans: "Before a b \<Longrightarrow> Before b c \<Longrightarrow> Before a c"
  unfolding Before_def by (rule less_trans)

lemma Before_total: "Before a b \<or> a = b \<or> Before b a"
proof -
  have "timeKey a = timeKey b \<Longrightarrow> a = b" by (simp add: timeKey_def)
  then show ?thesis unfolding Before_def using less_linear [of "timeKey a" "timeKey b"] by blast
qed

lemma digitVal_char [simp]: "digitVal (char_of (48 + n mod 10)) = Some (n mod 10)"
proof -
  have "48 + n mod 10 < 256" by linarith
  moreover have "n mod 10 < 10" by simp
  ultimately show ?thesis by (simp add: digitVal_def)
qed

lemma digits_append:
  "digits n acc s = Some (v, r) \<Longrightarrow> digits (n + m) acc s = digits m v r"
  by (induction n acc s rule: digits.induct) (auto split: option.splits)

lemma digits_padded: "digits w acc (padded w n @ r) = Some (acc * 10 ^ w + n mod 10 ^ w, r)"
proof (induction w arbitrary: n r acc)
  case (Suc w)
  have "digits (w + 1) acc (padded w (n div 10) @ char_of (48 + n mod 10) # r) =
      digits 1 (acc * 10 ^ w + (n div 10) mod 10 ^ w) (char_of (48 + n mod 10) # r)"
    by (rule digits_append [OF Suc])
  also have "\<dots> = Some ((acc * 10 ^ w + (n div 10) mod 10 ^ w) * 10 + n mod 10, r)" by simp
  also have "(acc * 10 ^ w + (n div 10) mod 10 ^ w) * 10 + n mod 10 = acc * 10 ^ Suc w + n mod 10 ^ Suc w"
    by (simp add: algebra_simps mod_mult2_eq)
  finally show ?case by simp
qed simp

lemma padded_numeral:
  "padded (numeral k) n = padded (pred_numeral k) (n div 10) @ [char_of (48 + n mod 10)]"
  by (simp only: numeral_eq_Suc [of k] padded.simps)

lemma length_padded [simp]: "length (padded w n) = w"
  by (induction w arbitrary: n) auto

lemma padded_dig: "c \<in> set (padded w n) \<Longrightarrow> isDig c"
  by (induction w arbitrary: n) (auto simp: isDig_def)

lemma byte_digit: "byte (char_of (48 + n mod 10)) - 48 = n mod (10::nat)"
proof -
  have "48 + n mod 10 < 256" by linarith
  then show ?thesis by simp
qed

lemma foldl_padded:
  "foldl (\<lambda>n c. n * 10 + (byte c - 48)) acc (padded w n) = acc * 10 ^ w + n mod 10 ^ w"
proof (induction w arbitrary: n)
  case (Suc w)
  have "foldl (\<lambda>n c. n * 10 + (byte c - 48)) acc (padded (Suc w) n) = (acc * 10 ^ w + (n div 10) mod 10 ^ w) * 10 + n mod 10"
    by (simp only: padded.simps foldl_append Suc foldl.simps byte_digit)
  also have "\<dots> = acc * 10 ^ Suc w + n mod 10 ^ Suc w" by (simp add: algebra_simps mod_mult2_eq)
  finally show ?case .
qed simp

text \<open>Dropping trailing zeros and padding with zeros gives the same nine digits.\<close>

lemma strip_zeros:
  fixes p :: string
  defines "ds \<equiv> rev (dropWhile (\<lambda>c. c = CHR ''0'') (rev p))"
  shows "take (length p) (ds @ replicate (length p) CHR ''0'') = p"
proof -
  let ?z = "takeWhile (\<lambda>c. c = CHR ''0'') (rev p)"
  have z: "?z = replicate (length ?z) CHR ''0''"
    by (rule replicate_eqI [OF refl]) (auto dest: set_takeWhileD)
  have "rev p = ?z @ dropWhile (\<lambda>c. c = CHR ''0'') (rev p)" by simp
  from arg_cong [OF this, of rev] have "rev (rev p) = ds @ rev ?z" unfolding ds_def by (simp only: rev_append)
  then have "p = ds @ rev ?z" by simp
  moreover have "rev ?z = replicate (length ?z) CHR ''0''" by (subst z) (simp only: rev_replicate)
  ultimately have p: "p = ds @ replicate (length ?z) CHR ''0''" by simp
  have l: "length p = length ds + length ?z" by (subst p) simp
  have "take (length p) (ds @ replicate (length p) CHR ''0'') = ds @ replicate (length ?z) CHR ''0''"
    using l by (simp add: take_replicate min_def)
  then show ?thesis using p by simp
qed

lemma fracValue_Nil: "fracValue [] = 0"
  by code_simp

lemma parseFrac_format:
  assumes "ns < 10 ^ 9"
  shows "parseFrac (formatFrac ns @ ''Z'') = (ns, ''Z'')"
proof -
  define ds where "ds = rev (dropWhile (\<lambda>c. c = CHR ''0'') (rev (padded 9 ns)))"
  have v: "fracValue ds = ns"
    using strip_zeros [of "padded 9 ns"] foldl_padded [of 0 9 ns] assms by (simp add: fracValue_def ds_def)
  have dig: "isDig c" if "c \<in> set ds" for c
    using that padded_dig [of c 9 ns] by (auto simp: ds_def dest: set_dropWhileD)
  have z: "\<not> isDig CHR ''Z''" by (simp add: isDig_def digitVal_def)
  show ?thesis
  proof (cases ds)
    case Nil
    then have "ns = 0" using v fracValue_Nil by simp
    then show ?thesis using Nil by (simp add: formatFrac_def Let_def ds_def parseFrac_def)
  next
    case (Cons a r)
    have f: "formatFrac ns = CHR ''.'' # ds" using Cons by (simp add: formatFrac_def ds_def [symmetric] Let_def)
    have "takeWhile isDig (ds @ ''Z'') = ds" "dropWhile isDig (ds @ ''Z'') = ''Z''"
      using dig z by (simp_all add: takeWhile_append dropWhile_append)
    then show ?thesis using f v Cons dig [of a] by (simp add: parseFrac_def)
  qed
qed

lemma digits_padded_lt: "n < 10 ^ w \<Longrightarrow> digits w 0 (padded w n @ r) = Some (n, r)"
  by (simp add: digits_padded)

lemma daysIn_le: "daysIn m y \<le> 31"
  by (simp add: daysIn_def)

lemma parse_format:
  assumes "validTime t"
  shows "parseUTCTimestamp (timeFormat t) = Some t"
proof -
  have b: "t_year t < 10 ^ 4" "t_month t < 10 ^ 2" "t_day t < 10 ^ 2" "t_hour t < 10 ^ 2" "t_min t < 10 ^ 2" "t_sec t < 10 ^ 2" "t_nsec t < 10 ^ 9"
    using assms daysIn_le [of "t_month t" "t_year t"] by (auto simp: validTime_def)
  have c: "parseClock (padded 2 (t_hour t) @ '':'' @ padded 2 (t_min t) @ '':'' @ padded 2 (t_sec t) @ r) =
      Some (t_hour t, t_min t, t_sec t, r)" for r
    using assms by (simp add: parseClock_def getnum_def digits_padded_lt [OF b(4)] digits_padded_lt [OF b(5)]
        digits_padded_lt [OF b(6)] skipChar_def validTime_def)
  have d: "parseDate (padded 4 (t_year t) @ ''-'' @ padded 2 (t_month t) @ ''-'' @ padded 2 (t_day t) @ r) =
      Some (t_year t, t_month t, t_day t, r)" for r
    using assms by (simp add: parseDate_def digits_padded_lt [OF b(1)] digits_padded_lt [OF b(2)]
        digits_padded_lt [OF b(3)] skipChar_def validTime_def)
  have "timeParse (timeFormat t) = Some t"
    unfolding timeParse_def timeFormat_def
    using assms parseFrac_format [OF b(7)] by (simp add: c [simplified] d [simplified] skipChar_def validTime_def)
  moreover have "suffix ''Z'' (timeFormat t)"
  proof -
    have "suffix ''Z'' (x @ ''Z'')" for x by (simp add: suffix_def)
    then show ?thesis unfolding timeFormat_def by (metis append.assoc)
  qed
  ultimately show ?thesis by (simp add: parseUTCTimestamp_def)
qed

lemma digits_less: "digits n acc s = Some (v, r) \<Longrightarrow> v < (acc + 1) * 10 ^ n"
proof (induction n acc s rule: digits.induct)
  case (3 n acc c cs)
  then obtain d where d: "digitVal c = Some d" "digits n (acc * 10 + d) cs = Some (v, r)" by (auto split: option.splits)
  have "acc * 10 + d + 1 \<le> (acc + 1) * 10" using d(1) by (auto simp: digitVal_def split: if_splits)
  then have "(acc * 10 + d + 1) * 10 ^ n \<le> (acc + 1) * 10 * 10 ^ n" by (rule mult_right_mono) simp
  then show ?case using less_le_trans [OF 3(1) [OF d]] by (simp only: power_Suc mult.assoc)
qed simp_all

lemma foldl_digits_less:
  "\<forall>c \<in> set ds. isDig c \<Longrightarrow> foldl (\<lambda>n c. n * 10 + (byte c - 48)) a ds < (a + 1) * 10 ^ length ds"
proof (induction ds arbitrary: a)
  case (Cons c ds)
  have "a * 10 + (byte c - 48) + 1 \<le> (a + 1) * 10" using Cons.prems by (auto simp: isDig_def digitVal_def split: if_splits)
  then have "(a * 10 + (byte c - 48) + 1) * 10 ^ length ds \<le> (a + 1) * 10 * 10 ^ length ds" by (rule mult_right_mono) simp
  moreover have "foldl (\<lambda>n c. n * 10 + (byte c - 48)) (a * 10 + (byte c - 48)) ds < (a * 10 + (byte c - 48) + 1) * 10 ^ length ds"
    using Cons.prems by (intro Cons.IH) simp
  ultimately show ?case by (simp only: foldl_Cons list.size add_0_right add_Suc_right power_Suc mult.assoc less_le_trans)
qed simp

lemma parseFrac_less: "parseFrac s = (n, r) \<Longrightarrow> n < 10 ^ 9"
proof -
  have "fracValue (takeWhile isDig x) < 10 ^ 9" for x
  proof -
    let ?ds = "take 9 (takeWhile isDig x @ replicate 9 CHR ''0'')"
    have "isDig CHR ''0''" by (simp add: isDig_def digitVal_def)
    then have "\<forall>c \<in> set ?ds. isDig c" by (auto dest!: in_set_takeD dest: set_takeWhileD)
    moreover have "length ?ds = 9" by simp
    ultimately show ?thesis using foldl_digits_less [of ?ds 0] unfolding fracValue_def by simp
  qed
  then show "parseFrac s = (n, r) \<Longrightarrow> n < 10 ^ 9"
    by (auto simp: parseFrac_def simp del: takeWhile.simps dropWhile.simps split: list.splits if_splits)
qed

text \<open>Only real instants are accepted.\<close>

lemma parse_valid: "parseUTCTimestamp s = Some t \<Longrightarrow> validTime t"
  using parseFrac_less
  by (fastforce simp: parseUTCTimestamp_def timeParse_def parseDate_def parseClock_def validTime_def
      dest!: digits_less [of 4] split: option.splits if_splits prod.splits)

text \<open>
  C35: A timestamp the server writes is read back as the same instant, to the nanosecond, and
  every text the parser accepts denotes a real instant (month lengths and leap years included).
\<close>

theorem timestamp_roundtrip:
  assumes "validTime t"
  shows "parseUTCTimestamp (timeFormat t) = Some t \<and> (\<forall>s t'. parseUTCTimestamp s = Some t' \<longrightarrow> validTime t')"
  using parse_format [OF assms] parse_valid by blast

text \<open>Witness for C35: the last leap day of a century, with a short fraction.\<close>

theorem timestamp_roundtrip_witness:
  "timeFormat \<lparr>t_year = 2000, t_month = 2, t_day = 29, t_hour = 5, t_min = 4, t_sec = 3, t_nsec = 120000000\<rparr> =
     ''2000-02-29T05:04:03.12Z'' \<and>
   parseUTCTimestamp ''2000-02-29T05:04:03.12Z'' =
     Some \<lparr>t_year = 2000, t_month = 2, t_day = 29, t_hour = 5, t_min = 4, t_sec = 3, t_nsec = 120000000\<rparr>"
proof -
  let ?t = "\<lparr>t_year = 2000, t_month = 2, t_day = 29, t_hour = 5, t_min = 4, t_sec = 3, t_nsec = 120000000\<rparr>"
  have "validTime ?t" by (simp add: validTime_def daysIn_def isLeap_def)
  moreover have "timeFormat ?t = ''2000-02-29T05:04:03.12Z''"
    by (simp add: timeFormat_def formatFrac_def Let_def padded_numeral char_of_eq_iff)
  ultimately show ?thesis using timestamp_roundtrip [of ?t] by simp
qed

end
