(* ===== verification/Strconv.thy ===== *)
theory Strconv
  imports Prelude
begin

text \<open>
  The parts of Go's \<open>strconv\<close> the server uses: decimal text of an integer, \<open>ParseInt\<close>
  in base ten and \<open>ParseBool\<close>.
\<close>

fun natText :: "nat \<Rightarrow> string" where
  "natText n = (if n < 10 then [char_of (48 + n)] else natText (n div 10) @ [char_of (48 + n mod 10)])"

declare natText.simps [simp del]

definition intText :: "int \<Rightarrow> string" where
  "intText i = (if i < 0 then CHR ''-'' # natText (nat (- i)) else natText (nat i))"

definition decDigit :: "char \<Rightarrow> nat option" where
  "decDigit c = (if 48 \<le> byte c \<and> byte c \<le> 57 then Some (byte c - 48) else None)"

fun parseDigits :: "nat \<Rightarrow> string \<Rightarrow> nat option" where
  "parseDigits acc [] = Some acc"
| "parseDigits acc (c # cs) = (case decDigit c of None \<Rightarrow> None | Some v \<Rightarrow> parseDigits (acc * 10 + v) cs)"

definition parseUint :: "string \<Rightarrow> nat option" where
  "parseUint s = (if s = [] then None else parseDigits 0 s)"

text \<open>\<open>strconv.ParseInt(s, 10, 64)\<close>: an optional sign, digits, and the range of an int64.\<close>

definition ParseInt :: "string \<Rightarrow> int option" where
  "ParseInt s =
     (let neg = (s \<noteq> [] \<and> hd s = CHR ''-'');
          t = (if s \<noteq> [] \<and> (hd s = CHR ''-'' \<or> hd s = CHR ''+'') then tl s else s) in
      case parseUint t of None \<Rightarrow> None
      | Some n \<Rightarrow> if neg then (if n \<le> 2 ^ 63 then Some (- int n) else None)
                  else (if n < 2 ^ 63 then Some (int n) else None))"

definition ParseBool :: "string \<Rightarrow> bool option" where
  "ParseBool s =
     (if s \<in> {''1'', ''t'', ''T'', ''TRUE'', ''true'', ''True''} then Some True
      else if s \<in> {''0'', ''f'', ''F'', ''FALSE'', ''false'', ''False''} then Some False
      else None)"

definition FormatBool :: "bool \<Rightarrow> string" where
  "FormatBool b = (if b then ''true'' else ''false'')"

lemma decDigit_char [simp]: "decDigit (char_of (48 + n mod 10)) = Some (n mod 10)"
proof -
  have "48 + n mod 10 < 256" "n mod 10 < 10" by (linarith, simp)
  then show ?thesis by (simp add: decDigit_def)
qed

lemma parseDigits_append: "parseDigits acc (s @ t) = (case parseDigits acc s of None \<Rightarrow> None | Some a \<Rightarrow> parseDigits a t)"
  by (induction s arbitrary: acc) (auto split: option.split)

lemma parseDigits_natText: "parseDigits 0 (natText n) = Some n"
proof (induction n rule: natText.induct)
  case (1 n)
  show ?case
  proof (cases "n < 10")
    case True
    then have "n mod 10 = n" by simp
    then show ?thesis using True decDigit_char [of n] by (simp add: natText.simps)
  next
    case False
    then show ?thesis using 1 by (subst natText.simps) (simp add: parseDigits_append)
  qed
qed

lemma natText_nonempty [simp]: "natText n \<noteq> []"
  by (subst natText.simps) simp

lemma digit_range: "48 \<le> byte (char_of (48 + m mod (10::nat))) \<and> byte (char_of (48 + m mod 10)) \<le> 57"
proof -
  have "48 + m mod 10 < 256" by linarith
  then have "byte (char_of (48 + m mod 10)) = 48 + m mod 10" by (rule byte_char_of)
  moreover have "m mod 10 \<le> 9" using mod_less_divisor [of 10 m] by linarith
  ultimately show ?thesis by linarith
qed

lemma natText_digits: "c \<in> set (natText n) \<Longrightarrow> 48 \<le> byte c \<and> byte c \<le> 57"
proof (induction n rule: natText.induct)
  case (1 n)
  show ?case
  proof (cases "n < 10")
    case True
    then have "natText n = [char_of (48 + n mod 10)]" by (simp add: natText.simps)
    then show ?thesis using 1(2) digit_range [of n] by (auto simp del: byte_char_of)
  next
    case False
    then have "natText n = natText (n div 10) @ [char_of (48 + n mod 10)]" by (simp add: natText.simps)
    then show ?thesis using 1(2) 1(1) [OF False] digit_range [of n] by (auto simp del: byte_char_of)
  qed
qed

text \<open>Printing and parsing an int64.\<close>

lemma ParseInt_intText:
  assumes "- (2 ^ 63) \<le> i" "i < 2 ^ 63"
  shows "ParseInt (intText i) = Some i"
proof -
  have h: "hd (natText n) \<noteq> CHR ''-'' \<and> hd (natText n) \<noteq> CHR ''+''" for n
    using natText_digits [OF hd_in_set [OF natText_nonempty], of n] by auto
  show ?thesis
    using assms h by (auto simp: intText_def ParseInt_def Let_def parseUint_def parseDigits_natText)
qed

end
