(* ===== verification/Auth.thy ===== *)
theory Auth
  imports Collection Credential Timestamp Strconv
begin

text \<open>
  Users, tokens and the authentication state: \<open>auth.go\<close>.  The records live in three reserved
  collections of the database itself, encoded as JSON objects.

  What a call reads from outside is an argument: \<open>clock i\<close> is its \<open>i\<close>-th reading of
  the clock, \<open>rndID\<close> and \<open>rndToken\<close> the random bytes of successive draws
  (\<open>None\<close> for an error of the generator), \<open>outcome c\<close> what the worker reports for
  commit \<open>c\<close>.  A validation that returns an error is \<open>False\<close>.
\<close>

definition stateCollection :: string where
  "stateCollection = ''_meta/state''"
definition userCollection :: string where
  "userCollection = ''_meta/users''"
definition tokenCollection :: string where
  "tokenCollection = ''_meta/tokens''"
definition stateID :: string where
  "stateID = ''server''"

lemmas meta_defs = stateCollection_def userCollection_def tokenCollection_def

type_synonym role = string

definition roleReader :: role where
  "roleReader = ''reader''"
definition roleWriter :: role where
  "roleWriter = ''writer''"
definition roleAdmin :: role where
  "roleAdmin = ''admin''"

record stateRecord =
  s_Version :: int
  s_AuthInitialized :: bool

record userRecord =
  u_Name :: string
  u_Role :: role
  u_Disabled :: bool
  u_CreatedAt :: string
  u_UpdatedAt :: string

record tokenRecord =
  k_UserID :: string
  k_Label :: string
  k_CreatedAt :: string
  k_ExpiresAt :: "string option"

subsection \<open>JSON of the records\<close>

text \<open>A value stored into a bool, an int and a pointer to a string.\<close>

definition storeBool :: "bytes \<Rightarrow> bool \<Rightarrow> error + bool" where
  "storeBool raw old = (if raw = ''null'' then Inr old else if raw = ''true'' then Inr True
     else if raw = ''false'' then Inr False else Inl ErrJSON)"

definition storeInt :: "bytes \<Rightarrow> int \<Rightarrow> error + int" where
  "storeInt raw old = (if raw = ''null'' then Inr old
     else case ParseInt raw of None \<Rightarrow> Inl ErrJSON | Some i \<Rightarrow> Inr i)"

definition storeStringPtr :: "bytes \<Rightarrow> string option \<Rightarrow> error + string option" where
  "storeStringPtr raw old = (if raw = ''null'' then Inr None
     else case unquote raw of None \<Rightarrow> Inl ErrJSON | Some s \<Rightarrow> Inr (Some s))"

text \<open>Decoding into a struct: every member goes to the field its name matches.\<close>

fun storeMembers :: "(string \<Rightarrow> bytes \<Rightarrow> 'r \<Rightarrow> error + 'r) \<Rightarrow> fields \<Rightarrow> 'r \<Rightarrow> error + 'r" where
  "storeMembers store [] r = Inr r"
| "storeMembers store ((k, raw) # kvs) r =
     (case unquoteBody k of None \<Rightarrow> Inl ErrJSON
      | Some key \<Rightarrow> (case store key raw r of Inl e \<Rightarrow> Inl e | Inr r' \<Rightarrow> storeMembers store kvs r'))"

definition unmarshalStruct :: "(string \<Rightarrow> bytes \<Rightarrow> 'r \<Rightarrow> error + 'r) \<Rightarrow> 'r \<Rightarrow> bytes \<Rightarrow> error + 'r" where
  "unmarshalStruct store zero data =
     (case compact data of None \<Rightarrow> Inl ErrJSON
      | Some v \<Rightarrow> if v = ''null'' then Inr zero
                  else case objectFields data of None \<Rightarrow> Inl ErrJSON | Some fs \<Rightarrow> storeMembers store fs zero)"

definition storeState :: "string \<Rightarrow> bytes \<Rightarrow> stateRecord \<Rightarrow> error + stateRecord" where
  "storeState key raw r =
     (if fieldIs key ''version'' then map_sum id (\<lambda>v. r\<lparr>s_Version := v\<rparr>) (storeInt raw (s_Version r))
      else if fieldIs key ''auth_initialized'' then map_sum id (\<lambda>v. r\<lparr>s_AuthInitialized := v\<rparr>) (storeBool raw (s_AuthInitialized r))
      else Inr r)"

definition storeUser :: "string \<Rightarrow> bytes \<Rightarrow> userRecord \<Rightarrow> error + userRecord" where
  "storeUser key raw r =
     (if fieldIs key ''name'' then map_sum id (\<lambda>v. r\<lparr>u_Name := v\<rparr>) (storeString raw (u_Name r))
      else if fieldIs key ''role'' then map_sum id (\<lambda>v. r\<lparr>u_Role := v\<rparr>) (storeString raw (u_Role r))
      else if fieldIs key ''disabled'' then map_sum id (\<lambda>v. r\<lparr>u_Disabled := v\<rparr>) (storeBool raw (u_Disabled r))
      else if fieldIs key ''created_at'' then map_sum id (\<lambda>v. r\<lparr>u_CreatedAt := v\<rparr>) (storeString raw (u_CreatedAt r))
      else if fieldIs key ''updated_at'' then map_sum id (\<lambda>v. r\<lparr>u_UpdatedAt := v\<rparr>) (storeString raw (u_UpdatedAt r))
      else Inr r)"

definition storeToken :: "string \<Rightarrow> bytes \<Rightarrow> tokenRecord \<Rightarrow> error + tokenRecord" where
  "storeToken key raw r =
     (if fieldIs key ''user_id'' then map_sum id (\<lambda>v. r\<lparr>k_UserID := v\<rparr>) (storeString raw (k_UserID r))
      else if fieldIs key ''label'' then map_sum id (\<lambda>v. r\<lparr>k_Label := v\<rparr>) (storeString raw (k_Label r))
      else if fieldIs key ''created_at'' then map_sum id (\<lambda>v. r\<lparr>k_CreatedAt := v\<rparr>) (storeString raw (k_CreatedAt r))
      else if fieldIs key ''expires_at'' then map_sum id (\<lambda>v. r\<lparr>k_ExpiresAt := v\<rparr>) (storeStringPtr raw (k_ExpiresAt r))
      else Inr r)"

definition strPtrText :: "string option \<Rightarrow> bytes" where
  "strPtrText x = (case x of None \<Rightarrow> ''null'' | Some s \<Rightarrow> quote s)"

definition stateText :: "stateRecord \<Rightarrow> bytes" where
  "stateText r = renderObject [(''version'', intText (s_Version r)), (''auth_initialized'', FormatBool (s_AuthInitialized r))]"

definition userText :: "userRecord \<Rightarrow> bytes" where
  "userText r = renderObject [(''name'', quote (u_Name r)), (''role'', quote (u_Role r)), (''disabled'', FormatBool (u_Disabled r)),
     (''created_at'', quote (u_CreatedAt r)), (''updated_at'', quote (u_UpdatedAt r))]"

definition tokenText :: "tokenRecord \<Rightarrow> bytes" where
  "tokenText r = renderObject [(''user_id'', quote (k_UserID r)), (''label'', quote (k_Label r)),
     (''created_at'', quote (k_CreatedAt r)), (''expires_at'', strPtrText (k_ExpiresAt r))]"

definition stateCodec :: "stateRecord codec" where
  "stateCodec = \<lparr>enc = (\<lambda>r. Inr (stateText r)), dec = unmarshalStruct storeState \<lparr>s_Version = 0, s_AuthInitialized = False\<rparr>\<rparr>"

definition userCodec :: "userRecord codec" where
  "userCodec = \<lparr>enc = (\<lambda>r. Inr (userText r)),
     dec = unmarshalStruct storeUser \<lparr>u_Name = [], u_Role = [], u_Disabled = False, u_CreatedAt = [], u_UpdatedAt = []\<rparr>\<rparr>"

definition tokenCodec :: "tokenRecord codec" where
  "tokenCodec = \<lparr>enc = (\<lambda>r. Inr (tokenText r)),
     dec = unmarshalStruct storeToken \<lparr>k_UserID = [], k_Label = [], k_CreatedAt = [], k_ExpiresAt = None\<rparr>\<rparr>"

subsection \<open>Validation\<close>

definition validateLabel :: "string \<Rightarrow> bool" where
  "validateLabel value \<longleftrightarrow> validUTF8 value \<and> \<not> (length value = 0 \<or> length value > 256)"

definition validRole :: "role \<Rightarrow> bool" where
  "validRole value \<longleftrightarrow> value = roleReader \<or> value = roleWriter \<or> value = roleAdmin"

definition rank :: "role \<Rightarrow> nat" where
  "rank r = (if r = roleReader then 1 else if r = roleWriter then 2 else if r = roleAdmin then 3 else 0)"

definition roleAllows :: "role \<Rightarrow> role \<Rightarrow> bool" where
  "roleAllows actual required \<longleftrightarrow> rank actual \<ge> rank required"

definition validateUserRecord :: "string \<Rightarrow> userRecord \<Rightarrow> bool" where
  "validateUserRecord i user \<longleftrightarrow> validHexID i 32 \<and> validateLabel (u_Name user) \<and> validRole (u_Role user) \<and>
     (case parseUTCTimestamp (u_CreatedAt user) of None \<Rightarrow> False
      | Some created \<Rightarrow> (case parseUTCTimestamp (u_UpdatedAt user) of None \<Rightarrow> False
          | Some updated \<Rightarrow> \<not> Before updated created))"

definition validateTokenRecord :: "string \<Rightarrow> tokenRecord \<Rightarrow> bool" where
  "validateTokenRecord i token \<longleftrightarrow> validHexID i 64 \<and> validHexID (k_UserID token) 32 \<and> validateLabel (k_Label token) \<and>
     (case parseUTCTimestamp (k_CreatedAt token) of None \<Rightarrow> False
      | Some created \<Rightarrow> (case k_ExpiresAt token of None \<Rightarrow> True
          | Some x \<Rightarrow> (case parseUTCTimestamp x of None \<Rightarrow> False | Some expires \<Rightarrow> Before created expires)))"

definition validateStateRecord :: "stateRecord \<Rightarrow> bool" where
  "validateStateRecord st \<longleftrightarrow> \<not> (s_Version st \<noteq> 1 \<or> \<not> s_AuthInitialized st)"

subsection \<open>Authentication\<close>

text \<open>Not expired at \<open>now\<close>.\<close>

definition active :: "tokenRecord \<Rightarrow> utc \<Rightarrow> bool" where
  "active record now \<longleftrightarrow> (case k_ExpiresAt record of None \<Rightarrow> True
     | Some x \<Rightarrow> (case parseUTCTimestamp x of None \<Rightarrow> False | Some expires \<Rightarrow> Before now expires))"

definition authenticate :: "string \<Rightarrow> utc \<Rightarrow> db \<Rightarrow> role option" where
  "authenticate token now d =
     (if \<not> validToken token then None
      else let tid = tokenID token in
        case coll_Get tokenCodec tokenCollection tid d of
          Inl _ \<Rightarrow> None
        | Inr record \<Rightarrow>
            if \<not> validateTokenRecord tid record then None
            else if \<not> active record now then None
            else case coll_Get userCodec userCollection (k_UserID record) d of
              Inl _ \<Rightarrow> None
            | Inr user \<Rightarrow>
                if \<not> validateUserRecord (k_UserID record) user \<or> u_Disabled user then None
                else Some (u_Role user))"

text \<open>The body of the loop of \<open>hasActiveAdmin\<close>: is this token an active administrator's?\<close>

definition adminToken :: "utc \<Rightarrow> db \<Rightarrow> string \<Rightarrow> tokenRecord \<Rightarrow> bool" where
  "adminToken now d tid record \<longleftrightarrow> validateTokenRecord tid record \<and> active record now \<and>
     (case coll_Get userCodec userCollection (k_UserID record) d of
        Inl _ \<Rightarrow> False
      | Inr user \<Rightarrow> validateUserRecord (k_UserID record) user \<and> \<not> u_Disabled user \<and> u_Role user = roleAdmin)"

definition hasActiveAdmin :: "utc \<Rightarrow> db \<Rightarrow> error + bool" where
  "hasActiveAdmin now d =
     (case coll_All tokenCodec tokenCollection d
        (\<lambda>found tid record. if adminToken now d tid record then (True, False) else (found, True)) False of
        (_, True) \<Rightarrow> Inl (ErrUser ''invalid authentication records'')
      | (found, False) \<Rightarrow> Inr found)"

subsection \<open>Initialization\<close>

type_synonym envLookup = "string \<Rightarrow> string option"

definition envString :: "envLookup \<Rightarrow> string \<Rightarrow> string \<Rightarrow> string" where
  "envString getenv name fallback = (case getenv name of
     Some value \<Rightarrow> if value \<noteq> [] then value else fallback | None \<Rightarrow> fallback)"

definition initEnvironmentPresent :: "envLookup \<Rightarrow> bool" where
  "initEnvironmentPresent getenv = list_ex (\<lambda>name. case getenv name of Some value \<Rightarrow> value \<noteq> [] | None \<Rightarrow> False)
     [''MEDB_INIT_ADMIN_NAME'', ''MEDB_INIT_ADMIN_TOKEN'', ''MEDB_INIT_ADMIN_TOKEN_FILE'']"

definition trimOneLineEnding :: "bytes \<Rightarrow> bytes" where
  "trimOneLineEnding data =
     (if length data > 0 \<and> last data = CHR 0x0A then
        let data1 = butlast data in
        if length data1 > 0 \<and> last data1 = CHR 0x0D then butlast data1 else data1
      else data)"

text \<open>Errors the server's start-up reports: its own messages, and errors of the database wrapped in one.\<close>

datatype srv_error = Msg string | Wrap string error

definition initialToken :: "envLookup \<Rightarrow> (string \<Rightarrow> bytes option) \<Rightarrow> srv_error + string" where
  "initialToken getenv readFile =
     (let direct = (case getenv ''MEDB_INIT_ADMIN_TOKEN'' of None \<Rightarrow> [] | Some v \<Rightarrow> v);
          directOK = (direct \<noteq> []);
          path = (case getenv ''MEDB_INIT_ADMIN_TOKEN_FILE'' of None \<Rightarrow> [] | Some v \<Rightarrow> v);
          fileOK = (path \<noteq> [])
      in if directOK = fileOK then Inl (Msg ''uninitialized authentication requires exactly one initial token'')
         else case (if fileOK then map_option trimOneLineEnding (readFile path) else Some direct) of
           None \<Rightarrow> Inl (Msg ''read MEDB_INIT_ADMIN_TOKEN_FILE'')
         | Some value \<Rightarrow>
             if \<not> validToken value then Inl (Msg ''initial administrator token has invalid format'') else Inr value)"

text \<open>The loops that draw until an unused identifier comes up; they may run forever.\<close>

partial_function (option) uniqueUserID :: "(nat \<Rightarrow> bytes) \<Rightarrow> nat \<Rightarrow> db \<Rightarrow> string option" where
  "uniqueUserID rndID n d =
     (let i = NewID (rndID n) in
      if \<not> coll_Has userCollection i d then Some i else uniqueUserID rndID (Suc n) d)"

partial_function (option) uniqueToken :: "(nat \<Rightarrow> bytes option) \<Rightarrow> nat \<Rightarrow> db \<Rightarrow> (error + string \<times> string) option" where
  "uniqueToken rndToken n d =
     (case rndToken n of
        None \<Rightarrow> Some (Inl (ErrUser ''generate token''))
      | Some secret \<Rightarrow>
          (let token = newToken secret; i = tokenID token in
           if \<not> coll_Has tokenCollection i d then Some (Inr (token, i)) else uniqueToken rndToken (Suc n) d))"

text \<open>The first step for a database without the state marker: the token record.\<close>

definition initTokenRecord :: "(nat \<Rightarrow> error option) \<Rightarrow> (nat \<Rightarrow> utc) \<Rightarrow> (nat \<Rightarrow> bytes) \<Rightarrow> string \<Rightarrow> db \<Rightarrow>
    (srv_error + tokenRecord) option \<times> db" where
  "initTokenRecord outcome clock rndID tid d =
     (case coll_Get tokenCodec tokenCollection tid d of
        Inl e \<Rightarrow>
          if e = ErrNotFound then
            (if coll_Count tokenCollection d \<noteq> 0 \<or> coll_Count userCollection d \<noteq> 0
             then (Some (Inl (Msg ''authentication marker is missing but unrelated authentication records exist'')), d)
             else case uniqueUserID rndID 0 d of
               None \<Rightarrow> (None, d)
             | Some uid \<Rightarrow>
                 (let record = \<lparr>k_UserID = uid, k_Label = ''initial'', k_CreatedAt = timeFormat (clock 0), k_ExpiresAt = None\<rparr> in
                  case waited outcome (coll_Set tokenCodec tokenCollection tid record d) of
                    (Some err, d') \<Rightarrow> (Some (Inl (Wrap ''write initial token'' err)), d')
                  | (None, d') \<Rightarrow> (Some (Inr record), d')))
          else (Some (Inl (Wrap ''read partial initial token'' e)), d)
      | Inr record \<Rightarrow>
          if coll_Count tokenCollection d \<noteq> 1 \<or> \<not> validateTokenRecord tid record \<or> k_Label record \<noteq> ''initial'' \<or> k_ExpiresAt record \<noteq> None
          then (Some (Inl (Msg ''conflicting partial authentication token'')), d)
          else (Some (Inr record), d))"

definition initUserRecord :: "(nat \<Rightarrow> error option) \<Rightarrow> (nat \<Rightarrow> utc) \<Rightarrow> string \<Rightarrow> string \<Rightarrow> db \<Rightarrow> (srv_error + userRecord) \<times> db" where
  "initUserRecord outcome clock name uid d =
     (case coll_Get userCodec userCollection uid d of
        Inl e \<Rightarrow>
          if e = ErrNotFound then
            (if coll_Count userCollection d \<noteq> 0 then (Inl (Msg ''conflicting partial administrator records''), d)
             else
               let now = timeFormat (clock 1);
                   user = \<lparr>u_Name = name, u_Role = roleAdmin, u_Disabled = False, u_CreatedAt = now, u_UpdatedAt = now\<rparr> in
               case waited outcome (coll_Set userCodec userCollection uid user d) of
                 (Some err, d') \<Rightarrow> (Inl (Wrap ''write initial administrator'' err), d')
               | (None, d') \<Rightarrow> (Inr user, d'))
          else (Inl (Wrap ''read partial administrator'' e), d)
      | Inr user \<Rightarrow>
          if coll_Count userCollection d \<noteq> 1 \<or> \<not> validateUserRecord uid user \<or> u_Name user \<noteq> name \<or>
             u_Role user \<noteq> roleAdmin \<or> u_Disabled user
          then (Inl (Msg ''conflicting partial administrator record''), d)
          else (Inr user, d))"

definition metaCollections :: "string list" where
  "metaCollections = [stateCollection, userCollection, tokenCollection]"

definition initializeAuth :: "(nat \<Rightarrow> error option) \<Rightarrow> (nat \<Rightarrow> utc) \<Rightarrow> (nat \<Rightarrow> bytes) \<Rightarrow> envLookup \<Rightarrow>
    (string \<Rightarrow> bytes option) \<Rightarrow> db \<Rightarrow> srv_error option option \<times> db" where
  "initializeAuth outcome clock rndID getenv readFile d =
     (case coll_Get stateCodec stateCollection stateID d of
        Inr st \<Rightarrow>
          if \<not> validateStateRecord st then (Some (Some (Msg ''invalid authentication state'')), d)
          else (case hasActiveAdmin (clock 0) d of
             Inl e \<Rightarrow> (Some (Some (Wrap ''validate administrators'' e)), d)
           | Inr True \<Rightarrow> (Some None, d)
           | Inr False \<Rightarrow> (Some (Some (Msg ''no enabled administrator has an active token'')), d))
      | Inl e \<Rightarrow>
          if e \<noteq> ErrNotFound then (Some (Some (Wrap ''read authentication state'' e)), d)
          else if coll_Count stateCollection d \<noteq> 0
            then (Some (Some (Msg ''authentication state marker is missing but _meta/state is not empty'')), d)
          else if list_ex (\<lambda>n. reservedCollection n \<and> n \<notin> set metaCollections) (Collections d)
            then (Some (Some (Msg ''reserved collection conflicts with server metadata'')), d)
          else
            let name = envString getenv ''MEDB_INIT_ADMIN_NAME'' ''admin'' in
            if \<not> validateLabel name then (Some (Some (Msg ''invalid MEDB_INIT_ADMIN_NAME'')), d)
            else case initialToken getenv readFile of
              Inl err \<Rightarrow> (Some (Some err), d)
            | Inr token \<Rightarrow>
                let tid = tokenID token in
                case initTokenRecord outcome clock rndID tid d of
                  (None, d1) \<Rightarrow> (None, d1)
                | (Some (Inl err), d1) \<Rightarrow> (Some (Some err), d1)
                | (Some (Inr record), d1) \<Rightarrow>
                    (case initUserRecord outcome clock name (k_UserID record) d1 of
                       (Inl err, d2) \<Rightarrow> (Some (Some err), d2)
                     | (Inr user, d2) \<Rightarrow>
                         if \<not> validateTokenRecord tid record \<or> \<not> validateUserRecord (k_UserID record) user \<or> u_Disabled user \<or>
                            u_Role user \<noteq> roleAdmin
                         then (Some (Some (Msg ''initial administrator credential did not validate'')), d2)
                         else case waited outcome (coll_Set stateCodec stateCollection stateID
                                 \<lparr>s_Version = 1, s_AuthInitialized = True\<rparr> d2) of
                           (Some err, d3) \<Rightarrow> (Some (Some (Wrap ''write authentication state'' err)), d3)
                         | (None, d3) \<Rightarrow> (Some None, d3)))"

subsection \<open>Offline recovery\<close>

text \<open>
  \<open>medb auth recover\<close> is the only client of its database: after each write the worker handles
  its wake-up and the writer gets the answer.
\<close>

definition setSync :: "'t codec \<Rightarrow> string \<Rightarrow> string \<Rightarrow> 't \<Rightarrow> db \<Rightarrow> (error option \<times> db) io" where
  "setSync cd name i x d = (case coll_Set cd name i x d of
     (Inl e, d1) \<Rightarrow> ret (Some e, d1)
   | (Inr c, d1) \<Rightarrow> do {
       d2 \<leftarrow> runNotify d1;
       ret (case commit_wait c d2 of None \<Rightarrow> None | Some e \<Rightarrow> e, d2)
     })"

text \<open>The deferred close on an error path: the first error wins.\<close>

definition closeAfter :: "srv_error \<Rightarrow> db \<Rightarrow> (srv_error option \<times> string) io" where
  "closeAfter err d = do { _ \<leftarrow> Close d; ret (Some err, []) }"

definition recoverWrites :: "string \<Rightarrow> string \<Rightarrow> string \<Rightarrow> string \<Rightarrow> db \<Rightarrow> (srv_error option \<times> db) io" where
  "recoverWrites uid tid name now d = do {
     r1 \<leftarrow> setSync tokenCodec tokenCollection tid
       \<lparr>k_UserID = uid, k_Label = ''recovery'', k_CreatedAt = now, k_ExpiresAt = None\<rparr> d;
     (case r1 of
        (Some e, d1) \<Rightarrow> ret (Some (Wrap ''write recovery token'' e), d1)
      | (None, d1) \<Rightarrow> do {
          r2 \<leftarrow> setSync userCodec userCollection uid
            \<lparr>u_Name = name, u_Role = roleAdmin, u_Disabled = False, u_CreatedAt = now, u_UpdatedAt = now\<rparr> d1;
          (case r2 of
             (Some e, d2) \<Rightarrow> ret (Some (Wrap ''write recovery administrator'' e), d2)
           | (None, d2) \<Rightarrow> do {
               r3 \<leftarrow> setSync stateCodec stateCollection stateID \<lparr>s_Version = 1, s_AuthInitialized = True\<rparr> d2;
               (case r3 of
                  (Some e, d3) \<Rightarrow> ret (Some (Wrap ''write authentication state'' e), d3)
                | (None, d3) \<Rightarrow> ret (None, d3))
             })
        })
   }"

text \<open>
  \<open>None\<close> in the result: an identifier is never found.  The text is what is printed; \<open>stdout\<close> maps
  a text to the part of it that is written and the error of the write.
\<close>

definition recoverAuth :: "(string \<Rightarrow> string \<times> error option) \<Rightarrow> (nat \<Rightarrow> utc) \<Rightarrow> (nat \<Rightarrow> bytes) \<Rightarrow> (nat \<Rightarrow> bytes option) \<Rightarrow>
    error + path \<Rightarrow> string \<Rightarrow> (srv_error option \<times> string) option io" where
  "recoverAuth stdout clock rndID rndToken absDir name = do {
     o' \<leftarrow> OpenDir absDir [];
     (case o' of
        Inl e \<Rightarrow> ret (Some (Some (Wrap [] e), []))
      | Inr d \<Rightarrow>
          (case uniqueUserID rndID 0 d of
             None \<Rightarrow> ret None
           | Some uid \<Rightarrow>
               (case uniqueToken rndToken 0 d of
                  None \<Rightarrow> ret None
                | Some (Inl e) \<Rightarrow> do { r \<leftarrow> closeAfter (Wrap [] e) d; ret (Some r) }
                | Some (Inr (token, tid)) \<Rightarrow> do {
                    w \<leftarrow> recoverWrites uid tid name (timeFormat (clock 0)) d;
                    (case w of
                       (Some err, d1) \<Rightarrow> do { r \<leftarrow> closeAfter err d1; ret (Some r) }
                     | (None, d1) \<Rightarrow> do {
                         c \<leftarrow> Close d1;
                         (case fst c of
                            Some e \<Rightarrow> ret (Some (Some (Wrap [] e), []))
                          | None \<Rightarrow>
                              (case stdout (''user_id='' @ uid @ [nl] @ ''token_id='' @ tid @ [nl] @ ''token='' @ token @ [nl]) of
                                 (printed, err) \<Rightarrow> ret (Some (map_option (Wrap []) err, printed))))
                       })
                  })))
   }"

end
