(* ===== verification/Config.thy ===== *)
theory Config
  imports Auth
begin

text \<open>
  Command-line and environment configuration: \<open>config.go\<close>, with the parser of Go's
  \<open>flag\<close> package.  \<open>time.ParseDuration\<close> is the argument \<open>parseDuration\<close>
  (nanoseconds, \<open>None\<close> for an error): its float arithmetic on fractions is not modelled.
\<close>

record serveConfig =
  c_dir :: string
  c_listen :: string
  c_noAuth :: bool
  c_maxDocSize :: int
  c_flushBytes :: int
  c_flushInterval :: int
  c_maxIDSize :: int
  c_maxRequestSize :: int
  c_shutdownTimeout :: int

record recoverConfig =
  rc_dir :: string
  rc_name :: string

definition defaultListen :: string where
  "defaultListen = ''127.0.0.1:6332''"
definition defaultMaxDocSize :: int where
  "defaultMaxDocSize = 16 * 2 ^ 20"
definition defaultFlushBytes :: int where
  "defaultFlushBytes = 64 * 2 ^ 20"
definition defaultMaxIDSize :: int where
  "defaultMaxIDSize = 64 * 2 ^ 10"
definition defaultMaxRequestSize :: int where
  "defaultMaxRequestSize = 17 * 2 ^ 20"

subsection \<open>Flags\<close>

datatype flag_error = ErrHelp | BadFlag string

text \<open>
  The values of the flags: name, current text, and whether it is a boolean flag.  \<open>Set\<close> on the
  boolean flag (\<open>boolFlagValue\<close>) parses its text and stores it in normal form.
\<close>

record flagVar =
  fv_value :: string
  fv_bool :: bool

type_synonym flagSet = "(string, flagVar) fmap"

definition boolFlagValue_Set :: "string \<Rightarrow> flagVar \<Rightarrow> flagVar option" where
  "boolFlagValue_Set value v = map_option (\<lambda>b. v\<lparr>fv_value := FormatBool b\<rparr>) (ParseBool value)"

definition setFlag :: "flagSet \<Rightarrow> string \<Rightarrow> flagVar \<Rightarrow> string \<Rightarrow> flag_error + flagSet" where
  "setFlag fs name v value =
     (if fv_bool v then
        (case boolFlagValue_Set value v of None \<Rightarrow> Inl (BadFlag name) | Some v' \<Rightarrow> Inr (fmupd name v' fs))
      else Inr (fmupd name (v\<lparr>fv_value := value\<rparr>) fs))"

text \<open>A flag token \<open>-name\<close>, \<open>--name\<close> or either with \<open>=value\<close>; \<open>None\<close> is bad syntax.\<close>

definition splitFlag :: "string \<Rightarrow> (string \<times> string option) option" where
  "splitFlag s =
     (let name = (if prefix ''--'' s then drop 2 s else drop 1 s) in
      if name = [] \<or> hd name = CHR ''-'' \<or> hd name = CHR ''='' then None
      else if CHR ''='' \<in> set (tl name)
        then Some (takeWhile (\<lambda>c. c \<noteq> CHR ''='') name, Some (tl (dropWhile (\<lambda>c. c \<noteq> CHR ''='') name)))
        else Some (name, None))"

text \<open>\<open>FlagSet.Parse\<close>: the flags set and the remaining arguments.\<close>

fun flagParse :: "string list \<Rightarrow> flagSet \<Rightarrow> flag_error + flagSet \<times> string list" where
  "flagParse [] fs = Inr (fs, [])"
| "flagParse (s # args) fs =
     (if length s < 2 \<or> hd s \<noteq> CHR ''-'' then Inr (fs, s # args)
      else if s = ''--'' then Inr (fs, args)
      else case splitFlag s of
        None \<Rightarrow> Inl (BadFlag s)
      | Some (name, given) \<Rightarrow>
          (case fmlookup fs name of
             None \<Rightarrow> if name = ''help'' \<or> name = ''h'' then Inl ErrHelp else Inl (BadFlag name)
           | Some v \<Rightarrow>
               if fv_bool v then
                 (case setFlag fs name v (case given of Some x \<Rightarrow> x | None \<Rightarrow> ''true'') of
                    Inl e \<Rightarrow> Inl e | Inr fs' \<Rightarrow> flagParse args fs')
               else (case given of
                 Some x \<Rightarrow> (case setFlag fs name v x of Inl e \<Rightarrow> Inl e | Inr fs' \<Rightarrow> flagParse args fs')
               | None \<Rightarrow>
                   (case args of
                      [] \<Rightarrow> Inl (BadFlag name)
                    | x # rest \<Rightarrow> (case setFlag fs name v x of Inl e \<Rightarrow> Inl e | Inr fs' \<Rightarrow> flagParse rest fs')))))"

definition flagValue :: "flagSet \<Rightarrow> string \<Rightarrow> string" where
  "flagValue fs name = (case fmlookup fs name of None \<Rightarrow> [] | Some v \<Rightarrow> fv_value v)"

subsection \<open>Values\<close>

datatype config_error =
    FlagError flag_error
  | UnexpectedArguments "string list"
  | MissingDir
  | EmptyListen
  | BadValue string string
  | RequestTooSmall int int
  | BadAdminName

text \<open>\<open>int\<close> and \<open>int64\<close> are both 64 bits wide.\<close>

definition parsePositiveInt :: "string \<Rightarrow> string \<Rightarrow> config_error + int" where
  "parsePositiveInt name value = (case ParseInt value of
     None \<Rightarrow> Inl (BadValue name value)
   | Some n \<Rightarrow> if n \<le> 0 then Inl (BadValue name value) else Inr n)"

definition parsePositiveInt64 :: "string \<Rightarrow> string \<Rightarrow> config_error + int" where
  "parsePositiveInt64 name value = (case ParseInt value of
     None \<Rightarrow> Inl (BadValue name value)
   | Some n \<Rightarrow> if n \<le> 0 then Inl (BadValue name value) else Inr n)"

definition parsePositiveDuration :: "(string \<Rightarrow> int option) \<Rightarrow> string \<Rightarrow> string \<Rightarrow> config_error + int" where
  "parsePositiveDuration parseDuration name value = (case parseDuration value of
     None \<Rightarrow> Inl (BadValue name value)
   | Some n \<Rightarrow> if n \<le> 0 then Inl (BadValue name value) else Inr n)"

definition parseBool :: "string \<Rightarrow> string \<Rightarrow> config_error + bool" where
  "parseBool name value = (case ParseBool value of None \<Rightarrow> Inl (BadValue name value) | Some b \<Rightarrow> Inr b)"

definition serveFlags :: "envLookup \<Rightarrow> flagSet" where
  "serveFlags getenv =
     (let str = (\<lambda>name value. fmupd name \<lparr>fv_value = value, fv_bool = False\<rparr>) in
      str ''dir'' (envString getenv ''MEDB_DIR'' []) (
      str ''listen'' (envString getenv ''MEDB_LISTEN'' defaultListen) (
      fmupd ''no-auth'' \<lparr>fv_value = envString getenv ''MEDB_NO_AUTH'' ''false'', fv_bool = True\<rparr> (
      str ''max-doc-size'' (envString getenv ''MEDB_MAX_DOC_SIZE'' (intText defaultMaxDocSize)) (
      str ''flush-bytes'' (envString getenv ''MEDB_FLUSH_BYTES'' (intText defaultFlushBytes)) (
      str ''flush-interval'' (envString getenv ''MEDB_FLUSH_INTERVAL'' ''5s'') (
      str ''max-id-size'' (envString getenv ''MEDB_MAX_ID_SIZE'' (intText defaultMaxIDSize)) (
      str ''max-request-size'' (envString getenv ''MEDB_MAX_REQUEST_SIZE'' (intText defaultMaxRequestSize)) (
      str ''shutdown-timeout'' (envString getenv ''MEDB_SHUTDOWN_TIMEOUT'' ''10s'') fmempty)))))))))"

text \<open>The typed values of the flags, in the order in which the code checks them.\<close>

definition serveValues :: "(string \<Rightarrow> int option) \<Rightarrow> flagSet \<Rightarrow> config_error + serveConfig" where
  "serveValues parseDuration fs =
     (case parseBool ''no auth'' (flagValue fs ''no-auth'') of Inl e \<Rightarrow> Inl e | Inr noAuth \<Rightarrow>
      case parsePositiveInt ''max document size'' (flagValue fs ''max-doc-size'') of Inl e \<Rightarrow> Inl e | Inr maxDoc \<Rightarrow>
      case parsePositiveInt64 ''flush bytes'' (flagValue fs ''flush-bytes'') of Inl e \<Rightarrow> Inl e | Inr flush \<Rightarrow>
      case parsePositiveDuration parseDuration ''flush interval'' (flagValue fs ''flush-interval'') of Inl e \<Rightarrow> Inl e | Inr interval \<Rightarrow>
      case parsePositiveInt ''max ID size'' (flagValue fs ''max-id-size'') of Inl e \<Rightarrow> Inl e | Inr maxID \<Rightarrow>
      case parsePositiveInt64 ''max request size'' (flagValue fs ''max-request-size'') of Inl e \<Rightarrow> Inl e | Inr maxRequest \<Rightarrow>
      case parsePositiveDuration parseDuration ''shutdown timeout'' (flagValue fs ''shutdown-timeout'') of Inl e \<Rightarrow> Inl e | Inr shutdown \<Rightarrow>
      if maxRequest \<le> maxDoc then Inl (RequestTooSmall maxRequest maxDoc)
      else Inr \<lparr>c_dir = flagValue fs ''dir'', c_listen = flagValue fs ''listen'', c_noAuth = noAuth, c_maxDocSize = maxDoc,
        c_flushBytes = flush, c_flushInterval = interval, c_maxIDSize = maxID, c_maxRequestSize = maxRequest,
        c_shutdownTimeout = shutdown\<rparr>)"

definition parseServeConfig :: "(string \<Rightarrow> int option) \<Rightarrow> string list \<Rightarrow> envLookup \<Rightarrow> config_error + serveConfig" where
  "parseServeConfig parseDuration args getenv =
     (case flagParse args (serveFlags getenv) of
        Inl e \<Rightarrow> Inl (FlagError e)
      | Inr (fs, rest) \<Rightarrow>
          if length rest \<noteq> 0 then Inl (UnexpectedArguments rest)
          else if flagValue fs ''dir'' = [] then Inl MissingDir
          else if flagValue fs ''listen'' = [] then Inl EmptyListen
          else serveValues parseDuration fs)"

definition recoverFlags :: flagSet where
  "recoverFlags = fmupd ''dir'' \<lparr>fv_value = [], fv_bool = False\<rparr> (fmupd ''name'' \<lparr>fv_value = [], fv_bool = False\<rparr> fmempty)"

definition parseRecoverConfig :: "string list \<Rightarrow> config_error + recoverConfig" where
  "parseRecoverConfig args =
     (case flagParse args recoverFlags of
        Inl e \<Rightarrow> Inl (FlagError e)
      | Inr (fs, rest) \<Rightarrow>
          if length rest \<noteq> 0 then Inl (UnexpectedArguments rest)
          else if flagValue fs ''dir'' = [] then Inl MissingDir
          else if \<not> validateLabel (flagValue fs ''name'') then Inl BadAdminName
          else Inr \<lparr>rc_dir = flagValue fs ''dir'', rc_name = flagValue fs ''name''\<rparr>)"

subsection \<open>Properties\<close>

lemma positive_values:
  "parsePositiveInt n v = Inr x \<Longrightarrow> 0 < x \<and> x < 2 ^ 63"
  "parsePositiveInt64 n v = Inr x \<Longrightarrow> 0 < x \<and> x < 2 ^ 63"
  "parsePositiveDuration f n v = Inr x \<Longrightarrow> 0 < x"
  by (auto simp: parsePositiveInt_def parsePositiveInt64_def parsePositiveDuration_def ParseInt_def Let_def
      split: option.splits if_splits)

text \<open>
  C34: A configuration the command line parser accepts has a directory and an address, positive
  limits that fit in 64 bits, room for the envelope around a document of maximal size, and options
  that \<open>medb.Open\<close> does not refuse.
\<close>

theorem parseServeConfig_ok:
  assumes "parseServeConfig parseDuration args getenv = Inr cfg"
  shows "c_dir cfg \<noteq> [] \<and> c_listen cfg \<noteq> [] \<and> c_maxDocSize cfg < c_maxRequestSize cfg \<and>
     0 < c_maxIDSize cfg \<and> c_maxRequestSize cfg < 2 ^ 63 \<and> 0 < c_shutdownTimeout cfg \<and>
     validate (fold (\<lambda>f x. f x) [WithMaxDocSize (c_maxDocSize cfg), WithFlushBytes (c_flushBytes cfg),
       WithFlushInterval (c_flushInterval cfg)] defaultOptions) = None"
proof -
  obtain fs where fs: "flagValue fs ''dir'' \<noteq> []" "flagValue fs ''listen'' \<noteq> []" "serveValues parseDuration fs = Inr cfg"
    using assms by (auto simp: parseServeConfig_def split: sum.splits prod.splits if_splits)
  then show ?thesis
    by (auto simp: serveValues_def validate_def WithMaxDocSize_def WithFlushBytes_def WithFlushInterval_def
        dest!: positive_values split: sum.splits if_splits)
qed

text \<open>Witness for C34: only the directory given, everything else at its default.\<close>

definition demoDuration :: "string \<Rightarrow> int option" where
  "demoDuration s = (if s = ''5s'' then Some 5000000000 else if s = ''10s'' then Some 10000000000 else None)"

theorem parseServeConfig_ok_witness:
  "\<exists>cfg. parseServeConfig demoDuration [''--dir'', ''data''] (\<lambda>_. None) = Inr cfg \<and> c_dir cfg = ''data'' \<and>
     c_maxDocSize cfg < c_maxRequestSize cfg"
proof -
  have p: "ParseInt (intText defaultMaxDocSize) = Some defaultMaxDocSize" "ParseInt (intText defaultFlushBytes) = Some defaultFlushBytes"
    "ParseInt (intText defaultMaxIDSize) = Some defaultMaxIDSize" "ParseInt (intText defaultMaxRequestSize) = Some defaultMaxRequestSize"
    by (rule ParseInt_intText; simp add: defaultMaxDocSize_def defaultFlushBytes_def defaultMaxIDSize_def defaultMaxRequestSize_def)+
  let ?fs = "fmupd ''dir'' \<lparr>fv_value = ''data'', fv_bool = False\<rparr> (serveFlags (\<lambda>_. None))"
  have f: "flagParse [''--dir'', ''data''] (serveFlags (\<lambda>_. None)) = Inr (?fs, [])"
    by (simp add: splitFlag_def setFlag_def serveFlags_def envString_def Let_def)
  have v: "flagValue ?fs ''dir'' = ''data''" "flagValue ?fs ''listen'' = defaultListen" "flagValue ?fs ''no-auth'' = ''false''"
    "flagValue ?fs ''max-doc-size'' = intText defaultMaxDocSize" "flagValue ?fs ''flush-bytes'' = intText defaultFlushBytes"
    "flagValue ?fs ''flush-interval'' = ''5s''" "flagValue ?fs ''max-id-size'' = intText defaultMaxIDSize"
    "flagValue ?fs ''max-request-size'' = intText defaultMaxRequestSize" "flagValue ?fs ''shutdown-timeout'' = ''10s''"
    by (simp_all add: flagValue_def serveFlags_def envString_def Let_def)
  have "\<exists>cfg. parseServeConfig demoDuration [''--dir'', ''data''] (\<lambda>_. None) = Inr cfg \<and> c_dir cfg = ''data''"
    unfolding parseServeConfig_def f serveValues_def sum.case prod.case v
    by (simp add: parseBool_def ParseBool_def parsePositiveInt_def parsePositiveInt64_def parsePositiveDuration_def p
        demoDuration_def defaultListen_def)
       (simp add: defaultMaxDocSize_def defaultFlushBytes_def defaultMaxIDSize_def defaultMaxRequestSize_def)
  then show ?thesis using parseServeConfig_ok by blast
qed

end
