(* ===== verification/Handlers.thy ===== *)
theory Handlers
  imports Protocol Config
begin

text \<open>
  The endpoints of the server: \<open>handlers.go\<close>, with the server's state and error reporting of
  \<open>server.go\<close>.  A handler takes the request and the state and replies, panics (with what it
  has sent so far), or hangs in a loop that draws identifiers.  Several requests run at the same
  time; a handler here runs between the database steps of the others, so what it reads is one
  state of the database.
\<close>

record apiServer =
  srv_db :: db
  srv_cfg :: serveConfig
  srv_shuttingDown :: bool
  srv_unavailable :: bool
  srv_failureOnce :: bool
  srv_failureCh :: "error option"

text \<open>
  What a call reads from outside: the clock, random bytes, the outcome of commits, and when the
  client of a scan goes away.
\<close>

record callEnv =
  ce_clock :: "nat \<Rightarrow> utc"
  ce_rndID :: "nat \<Rightarrow> bytes"
  ce_rndToken :: "nat \<Rightarrow> bytes option"
  ce_outcome :: "nat \<Rightarrow> error option"
  ce_gone :: "nat \<Rightarrow> bool"

datatype handled =
    Reply response apiServer
  | Panic "response option" apiServer
  | Hang

type_synonym handler = "callEnv \<Rightarrow> request \<Rightarrow> apiServer \<Rightarrow> handled"

subsection \<open>Errors\<close>

definition markStorageFailure :: "error \<Rightarrow> apiServer \<Rightarrow> apiServer" where
  "markStorageFailure err s = (if srv_failureOnce s then s
     else s\<lparr>srv_failureOnce := True, srv_unavailable := True,
       srv_failureCh := (case srv_failureCh s of None \<Rightarrow> Some err | Some e \<Rightarrow> Some e)\<rparr>)"

definition internalError :: "apiServer \<Rightarrow> handled" where
  "internalError s = Reply (writeFailure failInternal) s"

definition mutationError :: "error \<Rightarrow> apiServer \<Rightarrow> handled" where
  "mutationError err s = (case err of
     ErrTooLarge _ _ \<Rightarrow> Reply (writeFailure failDocumentTooLarge) s
   | ErrClosed \<Rightarrow> Reply (writeFailure failUnavailable) (s\<lparr>srv_unavailable := True\<rparr>)
   | _ \<Rightarrow> Reply (writeFailure failStorage) (markStorageFailure err s))"

definition fails :: "apiFailure \<Rightarrow> apiServer \<Rightarrow> handled" where
  "fails f s = Reply (writeFailure f) s"

subsection \<open>JSON of the replies\<close>

fun joinComma :: "bytes list \<Rightarrow> bytes" where
  "joinComma [] = []"
| "joinComma [x] = x"
| "joinComma (x # y # ys) = x @ CHR '','' # joinComma (y # ys)"

definition renderArray :: "bytes list \<Rightarrow> bytes" where
  "renderArray xs = CHR ''['' # joinComma xs @ '']''"

text \<open>Encoding fails only on a raw document that is not JSON; then nothing follows the header.\<close>

definition replyValue :: "nat \<Rightarrow> bytes option \<Rightarrow> apiServer \<Rightarrow> handled" where
  "replyValue status value s = (case value of
     Some v \<Rightarrow> Reply (writeJSON [] status v) s
   | None \<Rightarrow> Reply (writeJSON [] status []\<lparr>rs_body := []\<rparr>) s)"

definition documentResponse :: "bytes \<Rightarrow> bytes option" where
  "documentResponse doc = map_option (\<lambda>t. renderObject [(''document'', t)]) (compact doc)"

definition scanRecord :: "string \<Rightarrow> bytes \<Rightarrow> bytes option" where
  "scanRecord i doc = map_option (\<lambda>t. renderObject [(''id'', quote i), (''document'', t)]) (compact doc)"

definition viewUser :: "string \<Rightarrow> userRecord \<Rightarrow> bytes" where
  "viewUser i user = renderObject [(''id'', quote i), (''name'', quote (u_Name user)), (''role'', quote (u_Role user)),
     (''disabled'', FormatBool (u_Disabled user)), (''created_at'', quote (u_CreatedAt user)), (''updated_at'', quote (u_UpdatedAt user))]"

definition viewToken :: "string \<Rightarrow> tokenRecord \<Rightarrow> bytes" where
  "viewToken i token = renderObject [(''token_id'', quote i), (''user_id'', quote (k_UserID token)), (''label'', quote (k_Label token)),
     (''created_at'', quote (k_CreatedAt token)), (''expires_at'', strPtrText (k_ExpiresAt token))]"

subsection \<open>Documents\<close>

definition handleCollections :: handler where
  "handleCollections ce r s =
     replyValue 200 (Some (renderObject [(''collections'',
       renderArray (map quote (filter (\<lambda>name. \<not> reservedCollection name) (Collections (srv_db s)))))])) s"

text \<open>\<open>readObject\<close> and \<open>documentTarget\<close> at the start of a document endpoint.\<close>

definition withDocument :: "string list \<Rightarrow> (string \<Rightarrow> string \<Rightarrow> (string, bytes) fmap \<Rightarrow> handled) \<Rightarrow> request \<Rightarrow> apiServer \<Rightarrow> handled" where
  "withDocument names k r s =
     (case readObject r (c_maxRequestSize (srv_cfg s)) names names of
        Inl f \<Rightarrow> fails f s
      | Inr flds \<Rightarrow>
          (case documentTarget flds (c_maxIDSize (srv_cfg s)) of
             Inl f \<Rightarrow> fails f s
           | Inr (collection, i) \<Rightarrow> k collection i flds))"

definition withCollection :: "(string \<Rightarrow> handled) \<Rightarrow> request \<Rightarrow> apiServer \<Rightarrow> handled" where
  "withCollection k r s =
     (case readObject r (c_maxRequestSize (srv_cfg s)) [''collection''] [''collection''] of
        Inl f \<Rightarrow> fails f s
      | Inr flds \<Rightarrow> (case collectionTarget flds of Inl f \<Rightarrow> fails f s | Inr collection \<Rightarrow> k collection))"

text \<open>\<open>medb.C\<close> on the target: it panics on an invalid name.\<close>

definition onCollection :: "string \<Rightarrow> apiServer \<Rightarrow> (string \<Rightarrow> handled) \<Rightarrow> handled" where
  "onCollection name s k = (case C name of None \<Rightarrow> Panic None s | Some n \<Rightarrow> k n)"

definition finish :: "apiServer \<Rightarrow> error option \<times> db \<Rightarrow> handled" where
  "finish s r = (case r of
     (Some err, d) \<Rightarrow> mutationError err (s\<lparr>srv_db := d\<rparr>)
   | (None, d) \<Rightarrow> Reply writeNoContent (s\<lparr>srv_db := d\<rparr>))"

definition handleGet :: handler where
  "handleGet ce r s = withDocument [''collection'', ''id''] (\<lambda>collection i flds. onCollection collection s (\<lambda>n.
     case coll_Get rawCodec n i (srv_db s) of
       Inl e \<Rightarrow> if e = ErrNotFound then fails failNotFound s
                else if e = ErrClosed then fails failUnavailable s else internalError s
     | Inr document \<Rightarrow> replyValue 200 (documentResponse document) s)) r s"

definition handleSet :: handler where
  "handleSet ce r s = withDocument [''collection'', ''id'', ''document''] (\<lambda>collection i flds. onCollection collection s (\<lambda>n.
     finish s (waited (ce_outcome ce) (coll_Set rawCodec n i
       (case fmlookup flds ''document'' of None \<Rightarrow> [] | Some doc \<Rightarrow> doc) (srv_db s))))) r s"

definition handleDelete :: handler where
  "handleDelete ce r s = withDocument [''collection'', ''id''] (\<lambda>collection i flds. onCollection collection s (\<lambda>n.
     finish s (waited (ce_outcome ce) (coll_Delete n i (srv_db s))))) r s"

definition handleHas :: handler where
  "handleHas ce r s = withDocument [''collection'', ''id''] (\<lambda>collection i flds. onCollection collection s (\<lambda>n.
     replyValue 200 (Some (renderObject [(''exists'', FormatBool (coll_Has n i (srv_db s)))])) s)) r s"

definition handleCount :: handler where
  "handleCount ce r s = withCollection (\<lambda>collection. onCollection collection s (\<lambda>n.
     replyValue 200 (Some (renderObject [(''count'', natText (coll_Count n (srv_db s)))])) s)) r s"

text \<open>One document of a scan: stop if the client is gone or the record cannot be written.\<close>

definition scanStep :: "callEnv \<Rightarrow> nat \<times> bytes \<Rightarrow> string \<Rightarrow> bytes \<Rightarrow> (nat \<times> bytes) \<times> bool" where
  "scanStep ce st i doc = (case st of (n, out) \<Rightarrow>
     if ce_gone ce n then ((n, out), False)
     else case scanRecord i doc of None \<Rightarrow> ((n, out), False) | Some t \<Rightarrow> ((Suc n, out @ t @ [nl]), True))"

definition handleScan :: handler where
  "handleScan ce r s = withCollection (\<lambda>collection. onCollection collection s (\<lambda>n.
     case coll_All rawCodec n (srv_db s) (scanStep ce) (0, []) of
       ((_, out), panicked) \<Rightarrow>
         (let resp = \<lparr>rs_status = 200, rs_header = [(''Content-Type'', ''application/x-ndjson; charset=utf-8'')], rs_body = out\<rparr> in
          if panicked then Panic (Some resp) s else Reply resp s))) r s"

definition handleDrop :: handler where
  "handleDrop ce r s = withCollection (\<lambda>collection.
     case Drop collection (srv_db s) of
       None \<Rightarrow> Panic None s
     | Some res \<Rightarrow> finish s (waited (ce_outcome ce) res)) r s"

subsection \<open>Users\<close>

definition usersStep :: "bytes list \<times> bool \<Rightarrow> string \<Rightarrow> userRecord \<Rightarrow> (bytes list \<times> bool) \<times> bool" where
  "usersStep st i user = (case st of (views, bad) \<Rightarrow>
     if \<not> validateUserRecord i user then ((views, True), False) else ((views @ [viewUser i user], bad), True))"

definition handleUsers :: handler where
  "handleUsers ce r s =
     (case coll_All userCodec userCollection (srv_db s) usersStep ([], False) of
        (_, True) \<Rightarrow> Panic None s
      | ((views, bad), False) \<Rightarrow>
          if bad then internalError s
          else replyValue 200 (Some (renderObject [(''users'', renderArray views)])) s)"

definition handleUserCreate :: handler where
  "handleUserCreate ce r s =
     (case readObject r (c_maxRequestSize (srv_cfg s)) [''name'', ''role''] [''name'', ''role''] of
        Inl f \<Rightarrow> fails f s
      | Inr flds \<Rightarrow>
          (case stringField flds ''name'' of
             Inl _ \<Rightarrow> fails failInvalidRequest s
           | Inr name \<Rightarrow>
               if \<not> validateLabel name then fails failInvalidRequest s
               else case stringField flds ''role'' of
                 Inl _ \<Rightarrow> fails failInvalidRequest s
               | Inr userRole \<Rightarrow>
                   if \<not> validRole userRole then fails failInvalidRequest s
                   else case uniqueUserID (ce_rndID ce) 0 (srv_db s) of
                     None \<Rightarrow> Hang
                   | Some i \<Rightarrow>
                       let now = timeFormat (ce_clock ce 0);
                           user = \<lparr>u_Name = name, u_Role = userRole, u_Disabled = False, u_CreatedAt = now, u_UpdatedAt = now\<rparr> in
                       case waited (ce_outcome ce) (coll_Set userCodec userCollection i user (srv_db s)) of
                         (Some err, d) \<Rightarrow> mutationError err (s\<lparr>srv_db := d\<rparr>)
                       | (None, d) \<Rightarrow> replyValue 201 (Some (renderObject [(''user'', viewUser i user)])) (s\<lparr>srv_db := d\<rparr>)))"

text \<open>The function \<open>handleUserUpdate\<close> passes to \<open>Update\<close>; \<open>errMalformedAuthRecord\<close> is its error.\<close>

definition errMalformedAuthRecord :: error where
  "errMalformedAuthRecord = ErrUser ''malformed authentication record''"

definition changeUser :: "string \<Rightarrow> role option \<Rightarrow> bool option \<Rightarrow> string \<Rightarrow> userRecord \<Rightarrow> (error + userRecord) option" where
  "changeUser uid newRole dis now user =
     (if \<not> validateUserRecord uid user then Some (Inl errMalformedAuthRecord)
      else
        let user1 = (case newRole of None \<Rightarrow> user | Some x \<Rightarrow> user\<lparr>u_Role := x\<rparr>);
            user2 = (case dis of None \<Rightarrow> user1 | Some b \<Rightarrow> user1\<lparr>u_Disabled := b\<rparr>) in
        Some (Inr (user2\<lparr>u_UpdatedAt := now\<rparr>)))"

definition newRoleField :: "(string, bytes) fmap \<Rightarrow> apiFailure + role option" where
  "newRoleField flds = (case fmlookup flds ''role'' of
     None \<Rightarrow> Inr None
   | Some _ \<Rightarrow>
       (case stringField flds ''role'' of
          Inl _ \<Rightarrow> Inl failInvalidRequest
        | Inr parsed \<Rightarrow> if \<not> validRole parsed then Inl failInvalidRequest else Inr (Some parsed)))"

definition userUpdateReply :: "string \<Rightarrow> apiServer \<Rightarrow> error option \<Rightarrow> handled" where
  "userUpdateReply uid s err = (case err of
     Some e \<Rightarrow>
       if e = ErrNotFound then fails failNotFound s
       else if e = errMalformedAuthRecord then internalError s
       else mutationError e s
   | None \<Rightarrow>
       (case coll_Get userCodec userCollection uid (srv_db s) of
          Inl _ \<Rightarrow> internalError s
        | Inr user \<Rightarrow> replyValue 200 (Some (renderObject [(''user'', viewUser uid user)])) s))"

definition handleUserUpdate :: handler where
  "handleUserUpdate ce r s =
     (case readObject r (c_maxRequestSize (srv_cfg s)) [''user_id'', ''role'', ''disabled''] [''user_id''] of
        Inl f \<Rightarrow> fails f s
      | Inr flds \<Rightarrow>
          (case stringField flds ''user_id'' of
             Inl _ \<Rightarrow> fails failInvalidRequest s
           | Inr uid \<Rightarrow>
               if \<not> validHexID uid 32 then fails failInvalidRequest s
               else case newRoleField flds of
                 Inl f \<Rightarrow> fails f s
               | Inr newRole \<Rightarrow>
                   (case optionalBoolField flds ''disabled'' of
                      Inl _ \<Rightarrow> fails failInvalidRequest s
                    | Inr dis \<Rightarrow>
                        if newRole = None \<and> dis = None then fails failInvalidRequest s
                        else case coll_Update (ce_outcome ce) userCodec userCollection uid
                               (changeUser uid newRole dis (timeFormat (ce_clock ce 0))) (srv_db s) of
                          None \<Rightarrow> Panic None s
                        | Some (err, d) \<Rightarrow> userUpdateReply uid (s\<lparr>srv_db := d\<rparr>) err)))"

subsection \<open>Tokens\<close>

definition handleTokens :: handler where
  "handleTokens ce r s =
     (case readObject r (c_maxRequestSize (srv_cfg s)) [''user_id''] [''user_id''] of
        Inl f \<Rightarrow> fails f s
      | Inr flds \<Rightarrow>
          (case stringField flds ''user_id'' of
             Inl _ \<Rightarrow> fails failInvalidRequest s
           | Inr uid \<Rightarrow>
               if \<not> validHexID uid 32 then fails failInvalidRequest s
               else case coll_Get userCodec userCollection uid (srv_db s) of
                 Inl e \<Rightarrow> if e = ErrNotFound then fails failNotFound s else internalError s
               | Inr user \<Rightarrow>
                   if \<not> validateUserRecord uid user then internalError s
                   else case coll_All tokenCodec tokenCollection (srv_db s)
                       (\<lambda>st tid token. case st of (views, bad) \<Rightarrow>
                          if \<not> validateTokenRecord tid token then ((views, True), False)
                          else ((if k_UserID token = uid then views @ [viewToken tid token] else views, bad), True)) ([], False) of
                     (_, True) \<Rightarrow> Panic None s
                   | ((views, bad), False) \<Rightarrow>
                       if bad then internalError s
                       else replyValue 200 (Some (renderObject [(''tokens'', renderArray views)])) s))"

definition handleTokenRevoke :: handler where
  "handleTokenRevoke ce r s =
     (case readObject r (c_maxRequestSize (srv_cfg s)) [''token_id''] [''token_id''] of
        Inl f \<Rightarrow> fails f s
      | Inr flds \<Rightarrow>
          (case stringField flds ''token_id'' of
             Inl _ \<Rightarrow> fails failInvalidRequest s
           | Inr tid \<Rightarrow>
               if \<not> validHexID tid 64 then fails failInvalidRequest s
               else finish s (waited (ce_outcome ce) (coll_Delete tokenCollection tid (srv_db s)))))"

text \<open>The expiry of a new token: a later instant than its creation, in normal form.\<close>

definition expiryField :: "(string, bytes) fmap \<Rightarrow> utc \<Rightarrow> apiFailure + string option" where
  "expiryField flds created = (case optionalStringField flds ''expires_at'' of
     Inl _ \<Rightarrow> Inl failInvalidRequest
   | Inr None \<Rightarrow> Inr None
   | Inr (Some x) \<Rightarrow>
       (case parseUTCTimestamp x of
          None \<Rightarrow> Inl failInvalidRequest
        | Some expires \<Rightarrow> if \<not> Before created expires then Inl failInvalidRequest else Inr (Some (timeFormat expires))))"

definition tokenReply :: "string \<Rightarrow> string \<Rightarrow> tokenRecord \<Rightarrow> bytes" where
  "tokenReply tid token record = renderObject [(''token_id'', quote tid), (''token'', quote token), (''user_id'', quote (k_UserID record)),
     (''label'', quote (k_Label record)), (''created_at'', quote (k_CreatedAt record)), (''expires_at'', strPtrText (k_ExpiresAt record))]"

text \<open>From the point where the target user is known to be valid and enabled.\<close>

definition issueToken :: "callEnv \<Rightarrow> (string, bytes) fmap \<Rightarrow> string \<Rightarrow> string \<Rightarrow> apiServer \<Rightarrow> handled" where
  "issueToken ce flds uid label s =
     (let created = ce_clock ce 0 in
      case expiryField flds created of
        Inl f \<Rightarrow> fails f s
      | Inr expiresAt \<Rightarrow>
          (case uniqueToken (ce_rndToken ce) 0 (srv_db s) of
             None \<Rightarrow> Hang
           | Some (Inl _) \<Rightarrow> internalError s
           | Some (Inr (token, tid)) \<Rightarrow>
               let record = \<lparr>k_UserID = uid, k_Label = label, k_CreatedAt = timeFormat created, k_ExpiresAt = expiresAt\<rparr> in
               case waited (ce_outcome ce) (coll_Set tokenCodec tokenCollection tid record (srv_db s)) of
                 (Some err, d) \<Rightarrow> mutationError err (s\<lparr>srv_db := d\<rparr>)
               | (None, d) \<Rightarrow> replyValue 201 (Some (tokenReply tid token record)) (s\<lparr>srv_db := d\<rparr>)))"

definition handleTokenCreate :: handler where
  "handleTokenCreate ce r s =
     (case readObject r (c_maxRequestSize (srv_cfg s)) [''user_id'', ''label'', ''expires_at''] [''user_id'', ''label''] of
        Inl f \<Rightarrow> fails f s
      | Inr flds \<Rightarrow>
          (case stringField flds ''user_id'' of
             Inl _ \<Rightarrow> fails failInvalidRequest s
           | Inr uid \<Rightarrow>
               if \<not> validHexID uid 32 then fails failInvalidRequest s
               else case stringField flds ''label'' of
                 Inl _ \<Rightarrow> fails failInvalidRequest s
               | Inr label \<Rightarrow>
                   if \<not> validateLabel label then fails failInvalidRequest s
                   else case coll_Get userCodec userCollection uid (srv_db s) of
                     Inl e \<Rightarrow> if e = ErrNotFound then fails failNotFound s else internalError s
                   | Inr user \<Rightarrow>
                       if \<not> validateUserRecord uid user then internalError s
                       else if u_Disabled user then fails failUserDisabled s
                       else issueToken ce flds uid label s))"

end
