(* ===== verification/Server.thy ===== *)
theory Server
  imports Handlers
begin

text \<open>
  Routing, authentication of requests, the tracked response writer and the life of the server
  process: \<open>server.go\<close> and the command line of \<open>main.go\<close>.

  \<open>net/http\<close> calls \<open>ServeHTTP\<close> once per request.  The events of a run are a list:
  requests, and the iterations of the database worker between them.  What the environment decides
  (the clock, random bytes, the outcome of \<open>net.Listen\<close> and of the graceful shutdown, which
  \<open>select\<close> branch fires) is in the records \<open>callEnv\<close> and \<open>serveEnv\<close>.
\<close>

subsection \<open>Routes\<close>

record route =
  rt_method :: string
  rt_role :: role
  rt_handler :: handler

definition mkRoute :: "string \<Rightarrow> role \<Rightarrow> handler \<Rightarrow> route" where
  "mkRoute m r h = \<lparr>rt_method = m, rt_role = r, rt_handler = h\<rparr>"

definition dataRoutes :: "(string \<times> route) list" where
  "dataRoutes =
    [(''/v1/collections'', mkRoute ''GET'' roleReader handleCollections),
     (''/v1/get'', mkRoute ''POST'' roleReader handleGet),
     (''/v1/set'', mkRoute ''POST'' roleWriter handleSet),
     (''/v1/delete'', mkRoute ''POST'' roleWriter handleDelete),
     (''/v1/has'', mkRoute ''POST'' roleReader handleHas),
     (''/v1/count'', mkRoute ''POST'' roleReader handleCount),
     (''/v1/scan'', mkRoute ''POST'' roleReader handleScan),
     (''/v1/drop'', mkRoute ''POST'' roleAdmin handleDrop)]"

definition authRoutes :: "(string \<times> route) list" where
  "authRoutes =
    [(''/v1/auth/users'', mkRoute ''GET'' roleAdmin handleUsers),
     (''/v1/auth/users/create'', mkRoute ''POST'' roleAdmin handleUserCreate),
     (''/v1/auth/users/update'', mkRoute ''POST'' roleAdmin handleUserUpdate),
     (''/v1/auth/tokens/create'', mkRoute ''POST'' roleAdmin handleTokenCreate),
     (''/v1/auth/tokens/list'', mkRoute ''POST'' roleAdmin handleTokens),
     (''/v1/auth/tokens/revoke'', mkRoute ''POST'' roleAdmin handleTokenRevoke)]"

definition buildRoutes :: "serveConfig \<Rightarrow> string \<Rightarrow> route option" where
  "buildRoutes cfg = (if c_noAuth cfg then map_of dataRoutes else map_of (dataRoutes @ authRoutes))"

definition newAPIServer :: "db \<Rightarrow> serveConfig \<Rightarrow> apiServer" where
  "newAPIServer d cfg = \<lparr>srv_db = d, srv_cfg = cfg, srv_shuttingDown = False, srv_unavailable = False,
     srv_failureOnce = False, srv_failureCh = None\<rparr>"

subsection \<open>Authentication of a request\<close>

text \<open>\<open>unicode.IsSpace\<close> and \<open>strings.Fields\<close>.\<close>

definition spaceRune :: "nat \<Rightarrow> bool" where
  "spaceRune r \<longleftrightarrow> 9 \<le> r \<and> r \<le> 13 \<or> r \<in> {0x20, 0x85, 0xA0, 0x1680, 0x2028, 0x2029, 0x202F, 0x205F, 0x3000} \<or>
     0x2000 \<le> r \<and> r \<le> 0x200A"

function Fields_loop :: "bytes \<Rightarrow> bytes \<Rightarrow> string list" where
  "Fields_loop word [] = (if word = [] then [] else [word])"
| "Fields_loop word (c # cs) =
     (case decodeRune (c # cs) of (r, n) \<Rightarrow>
        if spaceRune r then (if word = [] then [] else [word]) @ Fields_loop [] (drop n (c # cs))
        else Fields_loop (word @ take n (c # cs)) (drop n (c # cs)))"
  by pat_completeness auto
termination
  by (relation "measure (\<lambda>(w, s). length s)") (auto dest!: sym [THEN decodeRune_width(1)] simp: less_Suc_eq_le)

declare Fields_loop.simps(2) [simp del]

definition Fields :: "string \<Rightarrow> string list" where
  "Fields s = Fields_loop [] s"

text \<open>
  \<open>strings.EqualFold(s, "Bearer")\<close>: none of its letters has a folding outside ASCII.
\<close>

definition lowerASCII :: "char \<Rightarrow> char" where
  "lowerASCII c = (if CHR ''A'' \<le> c \<and> c \<le> CHR ''Z'' then char_of (byte c + 32) else c)"

definition isBearer :: "string \<Rightarrow> bool" where
  "isBearer s \<longleftrightarrow> map lowerASCII s = ''bearer''"

definition authenticateRequest :: "utc \<Rightarrow> request \<Rightarrow> apiServer \<Rightarrow> apiFailure + role" where
  "authenticateRequest now r s =
     (let values = rq_authorization r in
      if length values = 0 then Inl failAuthRequired
      else if length values \<noteq> 1 then Inl failInvalidToken
      else let parts = Fields (values ! 0) in
        if length parts \<noteq> 2 \<or> \<not> isBearer (parts ! 0) then Inl failInvalidToken
        else case authenticate (parts ! 1) now (srv_db s) of
          None \<Rightarrow> Inl failInvalidToken
        | Some actor \<Rightarrow> Inr actor)"

subsection \<open>Dispatch\<close>

definition allowFailure :: "string \<Rightarrow> apiFailure \<Rightarrow> response" where
  "allowFailure m f = (let resp = writeFailure f in resp\<lparr>rs_header := (''Allow'', m) # rs_header resp\<rparr>)"

definition handleHealth :: handler where
  "handleHealth ce r s =
     (if rq_method r \<noteq> ''GET'' then Reply (allowFailure ''GET'' failMethod) s
      else if rq_rawQuery r \<noteq> [] \<or> rq_contentLength r \<noteq> 0 \<or> length (rq_transferEncoding r) \<noteq> 0 then fails failInvalidRequest s
      else if srv_shuttingDown s \<or> srv_unavailable s then fails failUnavailable s
      else replyValue 200 (Some (renderObject [(''status'', quote ''ok'')])) s)"

text \<open>The checks between authentication and the handler; \<open>actor\<close> is the caller's role.\<close>

definition dispatchRoute :: "role \<Rightarrow> handler" where
  "dispatchRoute actor ce r s =
     (case buildRoutes (srv_cfg s) (rq_path r) of
        None \<Rightarrow> fails failRouteNotFound s
      | Some selected \<Rightarrow>
          if rq_method r \<noteq> rt_method selected then Reply (allowFailure (rt_method selected) failMethod) s
          else if rq_rawQuery r \<noteq> [] then fails failInvalidRequest s
          else if rq_method r = ''GET'' \<and> (rq_contentLength r \<noteq> 0 \<or> length (rq_transferEncoding r) \<noteq> 0)
            then fails failInvalidRequest s
          else if \<not> roleAllows actor (rt_role selected) then fails failForbidden s
          else rt_handler selected ce r s)"

text \<open>\<open>ServeHTTP\<close> without its deferred function.\<close>

definition routeRequest :: "utc \<Rightarrow> handler" where
  "routeRequest now ce r s =
     (if rq_path r = ''/healthz'' then handleHealth ce r s
      else if rq_path r \<noteq> ''/v1'' \<and> \<not> prefix ''/v1/'' (rq_path r) then fails failRouteNotFound s
      else if srv_shuttingDown s \<or> srv_unavailable s then fails failUnavailable s
      else if c_noAuth (srv_cfg s) then dispatchRoute roleAdmin ce r s
      else case authenticateRequest now r s of
        Inl f \<Rightarrow> fails f s
      | Inr actor \<Rightarrow> dispatchRoute actor ce r s)"

definition noStore :: "response \<Rightarrow> response" where
  "noStore resp = resp\<lparr>rs_header := (''Cache-Control'', ''no-store'') # rs_header resp\<rparr>"

text \<open>
  The whole \<open>ServeHTTP\<close>: a panic becomes an internal error unless the header is already
  written.  The result is the response with the next state; \<open>None\<close> is a handler that never
  returns.
\<close>

definition ServeHTTP :: "utc \<Rightarrow> callEnv \<Rightarrow> request \<Rightarrow> apiServer \<Rightarrow> (response \<times> apiServer) option" where
  "ServeHTTP now ce r s = (case routeRequest now ce r s of
     Reply resp s' \<Rightarrow> Some (noStore resp, s')
   | Panic None s' \<Rightarrow> Some (noStore (writeFailure failInternal), s')
   | Panic (Some resp) s' \<Rightarrow> Some (noStore resp, s')
   | Hang \<Rightarrow> None)"

subsection \<open>The tracked response writer\<close>

datatype baseCall = BaseHeader nat | BaseWrite bytes | BaseFlush

record trackedResponseWriter =
  tw_calls :: "baseCall list"
  tw_wroteHeader :: bool

definition tw_WriteHeader :: "nat \<Rightarrow> trackedResponseWriter \<Rightarrow> trackedResponseWriter" where
  "tw_WriteHeader status w = (if tw_wroteHeader w then w
     else w\<lparr>tw_wroteHeader := True, tw_calls := tw_calls w @ [BaseHeader status]\<rparr>)"

definition tw_Write :: "bytes \<Rightarrow> trackedResponseWriter \<Rightarrow> trackedResponseWriter" where
  "tw_Write data w =
     (let w1 = (if \<not> tw_wroteHeader w then tw_WriteHeader 200 w else w) in
      w1\<lparr>tw_calls := tw_calls w1 @ [BaseWrite data]\<rparr>)"

text \<open>\<open>canFlush\<close>: the underlying writer is a \<open>http.Flusher\<close>.\<close>

definition tw_Flush :: "bool \<Rightarrow> trackedResponseWriter \<Rightarrow> trackedResponseWriter" where
  "tw_Flush canFlush w =
     (let w1 = (if \<not> tw_wroteHeader w then tw_WriteHeader 200 w else w) in
      if canFlush then w1\<lparr>tw_calls := tw_calls w1 @ [BaseFlush]\<rparr> else w1)"

subsection \<open>The life of the server\<close>

definition prepareAuthentication :: "(nat \<Rightarrow> error option) \<Rightarrow> (nat \<Rightarrow> utc) \<Rightarrow> (nat \<Rightarrow> bytes) \<Rightarrow> serveConfig \<Rightarrow> envLookup \<Rightarrow>
    (string \<Rightarrow> bytes option) \<Rightarrow> db \<Rightarrow> srv_error option option \<times> db" where
  "prepareAuthentication outcome clock rndID cfg getenv readFile d =
     (if c_noAuth cfg then (Some None, d) else initializeAuth outcome clock rndID getenv readFile d)"

text \<open>
  What happens while the server runs: a request, an iteration of the worker for a wake-up or a tick,
  or the first half of an iteration for a wake-up, after which other events come before its
  snapshot, itself a tick then (a wake-up only happens if one is pending).  A request whose handler
  never returns changes nothing.
\<close>

datatype event = Request utc callEnv request | Notify | Log bool | Tick

definition handleEvent :: "event \<Rightarrow> apiServer \<Rightarrow> apiServer io" where
  "handleEvent ev s = (case ev of
     Request now ce r \<Rightarrow> ret (case ServeHTTP now ce r s of None \<Rightarrow> s | Some (_, s') \<Rightarrow> s')
   | Notify \<Rightarrow> if notify (srv_db s) then do { d \<leftarrow> runNotify (srv_db s); ret (s\<lparr>srv_db := d\<rparr>) } else ret s
   | Log b \<Rightarrow> if notify (srv_db s) then do { d \<leftarrow> runLog ((srv_db s)\<lparr>notify := b\<rparr>); ret (s\<lparr>srv_db := d\<rparr>) } else ret s
   | Tick \<Rightarrow> do { d \<leftarrow> runTick (srv_db s); ret (s\<lparr>srv_db := d\<rparr>) })"

fun session :: "event list \<Rightarrow> apiServer \<Rightarrow> apiServer io" where
  "session [] s = ret s"
| "session (ev # evs) s = do { s' \<leftarrow> handleEvent ev s; session evs s' }"

text \<open>
  The branches of the \<open>select\<close>: the context is cancelled, a handler reported a storage failure,
  or \<open>httpServer.Serve\<close> returned (\<open>None\<close> is \<open>http.ErrServerClosed\<close>).
\<close>

datatype stopCause = CtxDone | FailureReceived | ServeReturned "string option"

datatype terminal = Storage error | ServeFailed string

definition awaitStop :: "stopCause \<Rightarrow> apiServer \<Rightarrow> terminal option option" where
  "awaitStop cause s = (case cause of
     CtxDone \<Rightarrow> Some None
   | FailureReceived \<Rightarrow> (case srv_failureCh s of None \<Rightarrow> None | Some e \<Rightarrow> Some (Some (Storage e)))
   | ServeReturned e \<Rightarrow> Some (map_option ServeFailed e))"

record serveEnv =
  sv_outcome :: "nat \<Rightarrow> error option"
  sv_clock :: "nat \<Rightarrow> utc"
  sv_rndID :: "nat \<Rightarrow> bytes"
  sv_readFile :: "string \<Rightarrow> bytes option"
  sv_absPath :: "string \<Rightarrow> error + path"
  sv_listenErr :: "string option"
  sv_events :: "event list"
  sv_cause :: stopCause
  sv_draining :: "event list"
  sv_shutdownErr :: "string option"

datatype serveError =
    StartError srv_error
  | ListenError string string
  | ServerStopped terminal
  | GracefulShutdown string

text \<open>The deferred close of an error return: its own error is dropped.\<close>

definition closeWith :: "serveError \<Rightarrow> db \<Rightarrow> serveError option option io" where
  "closeWith err d = do { _ \<leftarrow> Close d; ret (Some (Some err)) }"

definition stopServer :: "serveEnv \<Rightarrow> terminal option \<Rightarrow> apiServer \<Rightarrow> serveError option option io" where
  "stopServer sv terminalErr s = do {
     s1 \<leftarrow> session (sv_draining sv) (s\<lparr>srv_shuttingDown := True\<rparr>);
     c \<leftarrow> Close (srv_db s1);
     (let terminalErr' = (case (fst c, terminalErr) of (Some e, None) \<Rightarrow> Some (Storage e) | _ \<Rightarrow> terminalErr) in
      ret (Some (case terminalErr' of
        Some t \<Rightarrow> Some (ServerStopped t)
      | None \<Rightarrow> map_option GracefulShutdown (sv_shutdownErr sv))))
   }"

text \<open>
  \<open>serve\<close>: the result \<open>None\<close> is a server that is still running, or that draws user
  identifiers forever.
\<close>

definition serveOptions :: "serveConfig \<Rightarrow> (options \<Rightarrow> options) list" where
  "serveOptions cfg = [WithMaxDocSize (c_maxDocSize cfg), WithFlushBytes (c_flushBytes cfg), WithFlushInterval (c_flushInterval cfg)]"

definition serveOpened :: "serveEnv \<Rightarrow> serveConfig \<Rightarrow> envLookup \<Rightarrow> db \<Rightarrow> serveError option option io" where
  "serveOpened sv cfg getenv d =
     (case prepareAuthentication (sv_outcome sv) (sv_clock sv) (sv_rndID sv) cfg getenv (sv_readFile sv) d of
        (None, d1) \<Rightarrow> ret None
      | (Some (Some err), d1) \<Rightarrow> closeWith (StartError err) d1
      | (Some None, d1) \<Rightarrow>
          (case sv_listenErr sv of
             Some e \<Rightarrow> closeWith (ListenError (c_listen cfg) e) d1
           | None \<Rightarrow> do {
               s \<leftarrow> session (sv_events sv) (newAPIServer d1 cfg);
               (case awaitStop (sv_cause sv) s of
                  None \<Rightarrow> ret None
                | Some terminalErr \<Rightarrow> stopServer sv terminalErr s)
             }))"

definition serve :: "serveEnv \<Rightarrow> serveConfig \<Rightarrow> envLookup \<Rightarrow> serveError option option io" where
  "serve sv cfg getenv = do {
     o' \<leftarrow> OpenDir (sv_absPath sv (c_dir cfg)) (serveOptions cfg);
     (case o' of
        Inl e \<Rightarrow> ret (Some (Some (StartError (Wrap [] e))))
      | Inr d \<Rightarrow> serveOpened sv cfg getenv d)
   }"

subsection \<open>The command line\<close>

definition usage :: string where
  "usage = ''Usage:'' @ [nl] @ ''  medb serve [options]'' @ [nl] @ ''  medb token generate'' @ [nl] @
     ''  medb auth recover --dir PATH --name NAME'' @ [nl]"

datatype run_error =
    CommandRequired
  | UsageToken
  | UsageAuth
  | UnknownCommand string
  | ConfigError config_error
  | ServeErr serveError
  | RecoverErr srv_error
  | TokenErr
  | OutputErr error

text \<open>What a command wrote to the standard output and the usage on the error output, and its error.\<close>

record run_result =
  rr_stdout :: string
  rr_stderr :: string
  rr_err :: "run_error option"

definition usageError :: "run_error \<Rightarrow> run_result" where
  "usageError e = \<lparr>rr_stdout = [], rr_stderr = usage, rr_err = Some e\<rparr>"

definition ended :: "string \<Rightarrow> run_error option \<Rightarrow> run_result" where
  "ended out e = \<lparr>rr_stdout = out, rr_stderr = [], rr_err = e\<rparr>"

record runEnv =
  re_serve :: serveEnv
  re_getenv :: envLookup
  re_parseDuration :: "string \<Rightarrow> int option"
  re_rndToken :: "nat \<Rightarrow> bytes option"
  re_stdout :: "string \<Rightarrow> string \<times> error option"

definition runServe :: "runEnv \<Rightarrow> string list \<Rightarrow> run_result option io" where
  "runServe re args =
     (case parseServeConfig (re_parseDuration re) args (re_getenv re) of
        Inl e \<Rightarrow> ret (Some (ended [] (Some (ConfigError e))))
      | Inr cfg \<Rightarrow> do {
          r \<leftarrow> serve (re_serve re) cfg (re_getenv re);
          ret (map_option (\<lambda>e. ended [] (map_option ServeErr e)) r)
        })"

definition runRecover :: "runEnv \<Rightarrow> string list \<Rightarrow> run_result option io" where
  "runRecover re args =
     (case parseRecoverConfig args of
        Inl e \<Rightarrow> ret (Some (ended [] (Some (ConfigError e))))
      | Inr cfg \<Rightarrow> do {
          r \<leftarrow> recoverAuth (re_stdout re) (sv_clock (re_serve re)) (sv_rndID (re_serve re)) (re_rndToken re)
            (sv_absPath (re_serve re) (rc_dir cfg)) (rc_name cfg);
          ret (map_option (\<lambda>(err, out). ended out (map_option RecoverErr err)) r)
        })"

definition run :: "runEnv \<Rightarrow> string list \<Rightarrow> run_result option io" where
  "run re args =
     (case args of
        [] \<Rightarrow> ret (Some (usageError CommandRequired))
      | cmd # rest \<Rightarrow>
          if cmd = ''serve'' then runServe re rest
          else if cmd = ''token'' then
            (if rest = [''generate''] then
               (case re_rndToken re 0 of
                  None \<Rightarrow> ret (Some (ended [] (Some TokenErr)))
                | Some secret \<Rightarrow> (case re_stdout re (newToken secret @ [nl]) of
                    (printed, err) \<Rightarrow> ret (Some (ended printed (map_option OutputErr err)))))
             else ret (Some (usageError UsageToken)))
          else if cmd = ''auth'' then
            (case rest of
               sub # args1 \<Rightarrow> if sub = ''recover'' then runRecover re args1 else ret (Some (usageError UsageAuth))
             | [] \<Rightarrow> ret (Some (usageError UsageAuth)))
          else ret (Some (usageError (UnknownCommand cmd))))"

text \<open>The exit status of \<open>main\<close>: asking for help is not an error.\<close>

definition exitStatus :: "run_result \<Rightarrow> nat" where
  "exitStatus r = (case rr_err r of
     None \<Rightarrow> 0
   | Some e \<Rightarrow> if e = ConfigError (FlagError ErrHelp) then 0 else 1)"

end
