(* ===== verification/Unquote.thy ===== *)
theory Unquote
  imports Json_Facts
begin

text \<open>
  Whatever a JSON string literal holds, decoding it yields valid UTF-8: escapes are encoded rune
  by rune, and bytes that are not UTF-8 become U+FFFD.
\<close>

lemma validUTF8_step:
  assumes "snd (decodeRune (c # cs @ s)) = Suc (length cs)" "cs \<noteq> []"
  shows "validUTF8 ((c # cs) @ s) = validUTF8 s"
  using assms by (cases "decodeRune (c # cs @ s)") (simp add: validUTF8.simps(2) badRune_def)

lemma valid_encode2:
  assumes "0x80 \<le> r" "r < 0x800"
  shows "validUTF8 (encodeRune r @ s) = validUTF8 s"
proof -
  obtain a b where ab: "r div 64 = a" "r mod 64 = b" by simp
  then have "2 \<le> a" "a < 32" "b < 64" using assms by auto
  then have "snd (decodeRune (char_of (0xC0 + a) # [char_of (0x80 + b)] @ s)) = 2"
    by (simp add: decodeRune.simps decode2_def cont_def)
  then have "validUTF8 ((char_of (0xC0 + a) # [char_of (0x80 + b)]) @ s) = validUTF8 s"
    by (intro validUTF8_step) simp_all
  then show ?thesis using encodeRune2 [OF assms] ab by simp
qed

lemma valid_encode3:
  assumes "0x800 \<le> r" "r < 0x10000" "r < 0xD800 \<or> 0xDFFF < r"
  shows "validUTF8 (encodeRune r @ s) = validUTF8 s"
proof -
  obtain a b c where abc: "r div 64 div 64 = a" "r div 64 mod 64 = b" "r mod 64 = c" by simp
  have r: "r div 64 = a * 64 + b" using abc div_mult_mod_eq [of "r div 64" 64] by simp
  have l: "a < 16" "b < 64" "c < 64" using assms(2) abc by (auto simp: div_mult2_eq [symmetric])
  have q: "32 \<le> a * 64 + b" "a * 64 + b < 0xD800 div 64 \<or> 0xDFFF div 64 < a * 64 + b"
    using assms r by auto
  have "a = 0 \<Longrightarrow> 0x20 \<le> b" "a = 13 \<Longrightarrow> b \<le> 0x1F" using q l by auto
  then have "snd (decodeRune (char_of (0xE0 + a) # [char_of (0x80 + b), char_of (0x80 + c)] @ s)) = 3"
    using l by (auto simp: decodeRune.simps decode3_def cont_def)
  then have "validUTF8 ((char_of (0xE0 + a) # [char_of (0x80 + b), char_of (0x80 + c)]) @ s) = validUTF8 s"
    by (intro validUTF8_step) simp_all
  then show ?thesis using encodeRune3 [OF assms] abc by simp
qed

lemma valid_encode4:
  assumes "0x10000 \<le> r" "r \<le> 0x10FFFF"
  shows "validUTF8 (encodeRune r @ s) = validUTF8 s"
proof -
  obtain a b c d where abcd: "r div 64 div 64 div 64 = a" "r div 64 div 64 mod 64 = b" "r div 64 mod 64 = c" "r mod 64 = d" by simp
  have r: "r div 64 div 64 = a * 64 + b" using abcd div_mult_mod_eq [of "r div 64 div 64" 64] by simp
  have l: "b < 64" "c < 64" "d < 64" using abcd by auto
  have q: "16 \<le> a * 64 + b" "a * 64 + b \<le> 0x10F" using assms r by (auto simp: div_mult2_eq [symmetric] dest: div_le_mono)
  then have "a \<le> 4" "a = 0 \<Longrightarrow> 0x10 \<le> b" "a = 4 \<Longrightarrow> b \<le> 0xF" using l by auto
  then have "snd (decodeRune (char_of (0xF0 + a) # [char_of (0x80 + b), char_of (0x80 + c), char_of (0x80 + d)] @ s)) = 4"
    using l by (auto simp: decodeRune.simps decode4_def cont_def)
  then have "validUTF8 ((char_of (0xF0 + a) # [char_of (0x80 + b), char_of (0x80 + c), char_of (0x80 + d)]) @ s) = validUTF8 s"
    by (intro validUTF8_step) simp_all
  then show ?thesis using encodeRune4 [OF assms] abcd by simp
qed

lemma encodeRune_bad: "0x10FFFF < r \<or> 0xD800 \<le> r \<and> r \<le> 0xDFFF \<Longrightarrow> encodeRune r = encodeRune runeError"
  by (auto simp: encodeRune_def runeError_def char_of_eq_iff)

lemma validUTF8_encodeRune [simp]: "validUTF8 (encodeRune r @ s) = validUTF8 s"
proof -
  consider "r < 0x80" | "0x80 \<le> r \<and> r < 0x800" | "0x800 \<le> r \<and> r < 0x10000 \<and> (r < 0xD800 \<or> 0xDFFF < r)"
    | "0x10000 \<le> r \<and> r \<le> 0x10FFFF" | "0x10FFFF < r \<or> 0xD800 \<le> r \<and> r \<le> 0xDFFF" by linarith
  then show ?thesis
  proof cases
    case 1
    then show ?thesis by (simp add: encodeRune_def validUTF8.simps(2) badRune_def runeError_def)
  next
    case 5
    have "validUTF8 (encodeRune runeError @ s) = validUTF8 s" by (rule valid_encode3) (simp_all add: runeError_def)
    then show ?thesis using encodeRune_bad [OF 5] by simp
  qed (use valid_encode2 valid_encode3 valid_encode4 in blast)+
qed

lemma validUTF8_ascii [simp]: "byte c < 128 \<Longrightarrow> validUTF8 (c # s) = validUTF8 s"
  using validUTF8_encodeRune [of "byte c" s] by simp

lemma unescape_valid: "unescape s = Some (out, r) \<Longrightarrow> validUTF8 (out @ t) = validUTF8 t"
  by (auto simp: unescape_def split: list.splits if_splits option.splits)

lemma unquoteBody_valid: "unquoteBody s = Some t \<Longrightarrow> validUTF8 t"
proof (induction s arbitrary: t rule: unquoteBody.induct)
  case (2 c cs)
  show ?case
  proof (cases "c = bsl")
    case True
    then show ?thesis using 2 by (auto simp: unquoteBody.simps(2) unescape_valid split: option.splits)
  next
    case False
    then show ?thesis using 2 by (auto simp: unquoteBody.simps(2) split: if_splits)
  qed
qed simp

lemma unquote_valid: "unquote s = Some t \<Longrightarrow> validUTF8 t"
  by (auto simp: unquote_def dest: unquoteBody_valid split: list.splits if_splits)

end
