(* ===== verification/Auth_Facts.thy ===== *)
theory Auth_Facts
  imports Auth Unquote
begin

text \<open>
  Facts about the authentication store: the records survive their JSON encoding, so the contract
  of a typed collection holds for all three; what the store writes validates; the loops that draw
  identifiers end as soon as an unused one comes up.
\<close>

subsection \<open>JSON of the records\<close>

lemma plainText_members [simp]:
  "plainText ''name''" "plainText ''role''" "plainText ''disabled''" "plainText ''created_at''" "plainText ''updated_at''"
  "plainText ''user_id''" "plainText ''label''" "plainText ''expires_at''" "plainText ''version''" "plainText ''auth_initialized''"
  by code_simp+

lemma escapeASCII_plain:
  assumes "c \<notin> set (dq # bsl # ''<>&'')" "32 \<le> byte c"
  shows "escapeASCII c = [c]"
proof -
  have "c \<noteq> k" if "byte k < 32" for k using that assms(2) by auto
  then show ?thesis using assms by (simp add: escapeASCII_def)
qed

lemma quote_plain: "plainText s \<Longrightarrow> quote s = dq # s @ [dq]"
proof -
  assume "plainText s"
  then have "quoteBody s = s"
    unfolding plainText_def
  proof (induction s)
    case (Cons c s)
    then have "escapeASCII c = [c]" by (intro escapeASCII_plain) auto
    then show ?case using Cons by (simp add: quoteBody.simps)
  qed simp
  then show ?thesis by (simp add: quote_def)
qed

lemma canon_literals [simp]: "canonAt d ''true''" "canonAt d ''false''" "canonAt d ''null''" "canonAt d ''1''"
  by (rule canonAt_mono [where d = 0], code_simp, simp)+

lemma canon_FormatBool [simp]: "canonAt d (FormatBool b)"
  by (simp add: FormatBool_def)

lemma canon_strPtrText [simp]: "canonAt d (strPtrText x)"
  by (simp add: strPtrText_def canon_quote split: option.split)

lemma storeBool_FormatBool [simp]: "storeBool (FormatBool b) old = Inr b"
  by (simp add: storeBool_def FormatBool_def)

lemma quote_not_null: "quote s \<noteq> ''null''"
  by (simp add: quote_def)

lemma storeStringPtr_text: "(case x of None \<Rightarrow> True | Some s \<Rightarrow> validUTF8 s) \<Longrightarrow> storeStringPtr (strPtrText x) old = Inr x"
  by (cases x) (simp_all add: storeStringPtr_def strPtrText_def unquote_quote_valid quote_not_null)

lemma renderable_canon: "renderable d kvs \<Longrightarrow> d < 9999 \<Longrightarrow> canonAt 9999 (renderObject kvs)"
  using canonAt_mono [of "Suc d" "renderObject kvs" 9999] scanValue_render [of d kvs "scanFuel (renderObject kvs)"]
  by (simp add: canonAt_def)

lemma renderable_members:
  "renderable d [] = True"
  "plainText k \<Longrightarrow> renderable d ((k, v) # kvs) \<longleftrightarrow> canonAt d v \<and> renderable d kvs"
  by (auto simp: renderable_def plainText_body)

lemma unmarshal_render:
  assumes "renderable d kvs" "d < 9999"
  shows "unmarshalStruct store zero (renderObject kvs) = storeMembers store kvs zero"
proof -
  have r: "renderable 9999 kvs"
    using assms canonAt_mono [of d _ 9999] by (fastforce simp: renderable_def)
  show ?thesis
    by (simp add: unmarshalStruct_def compact_render [OF r] objectFields_render [OF r] renderObject_not_null)
qed

lemma storeMembers_plain:
  "plainText k \<Longrightarrow> storeMembers store ((k, raw) # kvs) r =
     (case store k raw r of Inl e \<Rightarrow> Inl e | Inr r' \<Rightarrow> storeMembers store kvs r')"
  by (simp add: plainText_body)

lemma fieldIs_user [simp]:
  "fieldIs ''name'' ''name''" "fieldIs ''role'' ''role''" "fieldIs ''disabled'' ''disabled''"
  "fieldIs ''created_at'' ''created_at''" "fieldIs ''updated_at'' ''updated_at''"
  "\<not> fieldIs ''role'' ''name''" "\<not> fieldIs ''disabled'' ''name''" "\<not> fieldIs ''created_at'' ''name''" "\<not> fieldIs ''updated_at'' ''name''"
  "\<not> fieldIs ''disabled'' ''role''" "\<not> fieldIs ''created_at'' ''role''" "\<not> fieldIs ''updated_at'' ''role''"
  "\<not> fieldIs ''created_at'' ''disabled''" "\<not> fieldIs ''updated_at'' ''disabled''" "\<not> fieldIs ''updated_at'' ''created_at''"
  by (simp_all add: fieldIs_def char_of_eq_iff)

lemma fieldIs_token [simp]:
  "fieldIs ''user_id'' ''user_id''" "fieldIs ''label'' ''label''" "fieldIs ''expires_at'' ''expires_at''"
  "\<not> fieldIs ''label'' ''user_id''" "\<not> fieldIs ''created_at'' ''user_id''" "\<not> fieldIs ''expires_at'' ''user_id''"
  "\<not> fieldIs ''created_at'' ''label''" "\<not> fieldIs ''expires_at'' ''label''" "\<not> fieldIs ''expires_at'' ''created_at''"
  "fieldIs ''version'' ''version''" "fieldIs ''auth_initialized'' ''auth_initialized''" "\<not> fieldIs ''auth_initialized'' ''version''"
  by (simp_all add: fieldIs_def char_of_eq_iff)

text \<open>Records whose strings are valid UTF-8.\<close>

definition userUTF8 :: "userRecord \<Rightarrow> bool" where
  "userUTF8 u \<longleftrightarrow> validUTF8 (u_Name u) \<and> validUTF8 (u_Role u) \<and> validUTF8 (u_CreatedAt u) \<and> validUTF8 (u_UpdatedAt u)"

definition tokenUTF8 :: "tokenRecord \<Rightarrow> bool" where
  "tokenUTF8 k \<longleftrightarrow> validUTF8 (k_UserID k) \<and> validUTF8 (k_Label k) \<and> validUTF8 (k_CreatedAt k) \<and>
     (case k_ExpiresAt k of None \<Rightarrow> True | Some x \<Rightarrow> validUTF8 x)"

lemma storeUser_members:
  "validUTF8 s \<Longrightarrow> storeUser ''name'' (quote s) r = Inr (r\<lparr>u_Name := s\<rparr>)"
  "validUTF8 s \<Longrightarrow> storeUser ''role'' (quote s) r = Inr (r\<lparr>u_Role := s\<rparr>)"
  "storeUser ''disabled'' (FormatBool b) r = Inr (r\<lparr>u_Disabled := b\<rparr>)"
  "validUTF8 s \<Longrightarrow> storeUser ''created_at'' (quote s) r = Inr (r\<lparr>u_CreatedAt := s\<rparr>)"
  "validUTF8 s \<Longrightarrow> storeUser ''updated_at'' (quote s) r = Inr (r\<lparr>u_UpdatedAt := s\<rparr>)"
  by (simp_all add: storeUser_def storeString_quote)

lemma storeToken_members:
  "validUTF8 s \<Longrightarrow> storeToken ''user_id'' (quote s) r = Inr (r\<lparr>k_UserID := s\<rparr>)"
  "validUTF8 s \<Longrightarrow> storeToken ''label'' (quote s) r = Inr (r\<lparr>k_Label := s\<rparr>)"
  "validUTF8 s \<Longrightarrow> storeToken ''created_at'' (quote s) r = Inr (r\<lparr>k_CreatedAt := s\<rparr>)"
  "(case x of None \<Rightarrow> True | Some s \<Rightarrow> validUTF8 s) \<Longrightarrow> storeToken ''expires_at'' (strPtrText x) r = Inr (r\<lparr>k_ExpiresAt := x\<rparr>)"
  by (simp_all add: storeToken_def storeString_quote storeStringPtr_text)

lemma intText_one: "intText 1 = ''1''"
  by code_simp

lemma storeState_members:
  "storeState ''version'' ''1'' r = Inr (r\<lparr>s_Version := 1\<rparr>)"
  "storeState ''auth_initialized'' (FormatBool b) r = Inr (r\<lparr>s_AuthInitialized := b\<rparr>)"
  by (simp_all add: storeState_def storeInt_def ParseInt_def parseUint_def decDigit_def)

declare storeMembers.simps(2) [simp del]

lemma userText_render:
  "\<exists>kvs. userText u = renderObject kvs \<and> renderable 0 kvs \<and> (userUTF8 u \<longrightarrow> (\<forall>z. storeMembers storeUser kvs z = Inr u))"
  by (intro exI conjI, rule userText_def)
     (simp_all add: renderable_members canon_quote storeMembers_plain storeUser_members userUTF8_def)

lemma tokenText_render:
  "\<exists>kvs. tokenText k = renderObject kvs \<and> renderable 0 kvs \<and> (tokenUTF8 k \<longrightarrow> (\<forall>z. storeMembers storeToken kvs z = Inr k))"
  by (intro exI conjI, rule tokenText_def)
     (simp_all add: renderable_members canon_quote storeMembers_plain storeToken_members tokenUTF8_def)

lemma stateText_one: "s_Version st = 1 \<Longrightarrow>
  \<exists>kvs. stateText st = renderObject kvs \<and> renderable 0 kvs \<and> (\<forall>z. storeMembers storeState kvs z = Inr st)"
  by (intro exI conjI, rule stateText_def)
     (simp_all add: renderable_members storeMembers_plain storeState_members intText_one)

interpretation users: doc_codec userCodec userUTF8
proof
  fix x b assume x: "userUTF8 x"
  obtain kvs where k: "userText x = renderObject kvs" "renderable 0 kvs" "\<And>z. storeMembers storeUser kvs z = Inr x"
    using userText_render [of x] x by blast
  show "\<exists>b. enc userCodec x = Inr b" by (simp add: userCodec_def)
  show "dec userCodec b = Inr x" if "enc userCodec x = Inr b"
    using that k by (auto simp: userCodec_def unmarshal_render [OF k(2)])
  show "canonAt 9999 b" if "enc userCodec x = Inr b"
    using that k renderable_canon [OF k(2)] by (simp add: userCodec_def)
qed

interpretation tokens: doc_codec tokenCodec tokenUTF8
proof
  fix x b assume x: "tokenUTF8 x"
  obtain kvs where k: "tokenText x = renderObject kvs" "renderable 0 kvs" "\<And>z. storeMembers storeToken kvs z = Inr x"
    using tokenText_render [of x] x by blast
  show "\<exists>b. enc tokenCodec x = Inr b" by (simp add: tokenCodec_def)
  show "dec tokenCodec b = Inr x" if "enc tokenCodec x = Inr b"
    using that k by (auto simp: tokenCodec_def unmarshal_render [OF k(2)])
  show "canonAt 9999 b" if "enc tokenCodec x = Inr b"
    using that k renderable_canon [OF k(2)] by (simp add: tokenCodec_def)
qed

interpretation state: doc_codec stateCodec "\<lambda>st. s_Version st = 1"
proof
  fix x :: stateRecord and b assume x: "s_Version x = 1"
  obtain kvs where k: "stateText x = renderObject kvs" "renderable 0 kvs" "\<And>z. storeMembers storeState kvs z = Inr x"
    using stateText_one [OF x] by blast
  show "\<exists>b. enc stateCodec x = Inr b" by (simp add: stateCodec_def)
  show "dec stateCodec b = Inr x" if "enc stateCodec x = Inr b"
    using that k by (auto simp: stateCodec_def unmarshal_render [OF k(2)])
  show "canonAt 9999 b" if "enc stateCodec x = Inr b"
    using that k renderable_canon [OF k(2)] by (simp add: stateCodec_def)
qed

subsection \<open>Decoded records\<close>

lemma storeMembers_inv:
  assumes step: "\<And>k raw r r'. P r \<Longrightarrow> store k raw r = Inr r' \<Longrightarrow> P r'"
  shows "P r \<Longrightarrow> storeMembers store kvs r = Inr r' \<Longrightarrow> P r'"
proof (induction kvs arbitrary: r)
  case (Cons kv kvs)
  then show ?case by (cases kv) (auto simp: storeMembers.simps(2) dest: step split: option.splits sum.splits)
qed simp

lemma unmarshalStruct_inv:
  assumes "P zero" "\<And>k raw r r'. P r \<Longrightarrow> store k raw r = Inr r' \<Longrightarrow> P r'" "unmarshalStruct store zero data = Inr r"
  shows "P r"
proof -
  have "r = zero \<or> (\<exists>fs. storeMembers store fs zero = Inr r)"
    using assms(3) by (auto simp: unmarshalStruct_def split: option.splits if_splits)
  then show ?thesis
  proof
    assume "\<exists>fs. storeMembers store fs zero = Inr r"
    then obtain fs where "storeMembers store fs zero = Inr r" by blast
    with assms(1) show ?thesis by (rule storeMembers_inv [where store = store, rotated]) (fact assms(2))
  qed (simp add: assms(1))
qed

lemma storeString_valid: "storeString raw old = Inr s \<Longrightarrow> validUTF8 old \<Longrightarrow> validUTF8 s"
  by (auto simp: storeString_def dest: unquote_valid split: if_splits option.splits)

lemma map_sum_Inr: "map_sum id f x = Inr y \<longleftrightarrow> (\<exists>z. x = Inr z \<and> y = f z)"
  by (cases x) auto

lemma storeUser_valid: "storeUser k raw r = Inr r' \<Longrightarrow> userUTF8 r \<Longrightarrow> userUTF8 r'"
  unfolding storeUser_def
  by (auto simp: userUTF8_def map_sum_Inr dest: storeString_valid split: if_split_asm)

lemma decoded_user: "dec userCodec raw = Inr u \<Longrightarrow> userUTF8 u"
  unfolding userCodec_def codec.simps
  by (erule unmarshalStruct_inv [of userUTF8, rotated 2]) (auto simp: userUTF8_def dest: storeUser_valid)

lemma storeStringPtr_valid:
  "storeStringPtr raw old = Inr x \<Longrightarrow> case x of None \<Rightarrow> True | Some s \<Rightarrow> validUTF8 s"
  unfolding storeStringPtr_def by (cases "raw = ''null''"; cases "unquote raw") (auto dest: unquote_valid)

lemma storeToken_valid: "storeToken k raw r = Inr r' \<Longrightarrow> tokenUTF8 r \<Longrightarrow> tokenUTF8 r'"
  unfolding storeToken_def map_sum_Inr
  by (auto simp: tokenUTF8_def map_sum_Inr dest: storeString_valid storeStringPtr_valid split: if_split_asm)

lemma decoded_token: "dec tokenCodec raw = Inr k \<Longrightarrow> tokenUTF8 k"
  unfolding tokenCodec_def codec.simps
  by (erule unmarshalStruct_inv [of tokenUTF8, rotated 2]) (auto simp: tokenUTF8_def dest: storeToken_valid)

lemma got_user: "coll_Get userCodec n i d = Inr u \<Longrightarrow> userUTF8 u"
  and got_token: "coll_Get tokenCodec n i d = Inr k \<Longrightarrow> tokenUTF8 k"
  by (auto simp: coll_Get_def dest: decoded_user decoded_token split: sum.splits)

subsection \<open>Written records\<close>

lemma validUTF8_plainI: "list_all (\<lambda>c. byte c < 128) s \<Longrightarrow> validUTF8 s"
  by (induction s) simp_all

lemma padded_ascii: "list_all (\<lambda>c. byte c < 128) (padded w n)"
  using padded_dig [of _ w n] by (force simp: list_all_iff isDig_def digitVal_def split: if_splits)

lemma formatFrac_ascii: "list_all (\<lambda>c. byte c < 128) (formatFrac n)"
  using padded_ascii [of 9 n]
  by (auto simp: formatFrac_def Let_def list_all_iff dest!: set_dropWhileD)

lemma timeFormat_valid [simp]: "validUTF8 (timeFormat t)"
  by (rule validUTF8_plainI) (simp add: timeFormat_def padded_ascii formatFrac_ascii)

lemma hexID_valid: "validHexID i n \<Longrightarrow> validUTF8 i"
  by (rule validUTF8_plainI) (auto simp: validHexID_def validHexID_loop_iff list_all_iff less_eq_char_def split: if_split_asm)

lemma validRole_valid: "validRole r \<Longrightarrow> validUTF8 r"
  by (auto simp: validRole_def roleReader_def roleWriter_def roleAdmin_def)

lemma validLabel_valid: "validateLabel s \<Longrightarrow> validUTF8 s"
  by (simp add: validateLabel_def)

lemmas text_valid = hexID_valid validRole_valid validLabel_valid

text \<open>A user record as \<open>handleUserCreate\<close>, the initialization and the recovery write it.\<close>

definition newUser :: "string \<Rightarrow> role \<Rightarrow> utc \<Rightarrow> userRecord" where
  "newUser name r now = \<lparr>u_Name = name, u_Role = r, u_Disabled = False, u_CreatedAt = timeFormat now, u_UpdatedAt = timeFormat now\<rparr>"

lemma newUser_ok:
  assumes "validTime now" "validateLabel name" "validRole r" "validHexID i 32"
  shows "validateUserRecord i (newUser name r now)" "userUTF8 (newUser name r now)"
  using assms by (simp_all add: validateUserRecord_def newUser_def parse_format userUTF8_def text_valid)

definition newTokenRecord :: "string \<Rightarrow> string \<Rightarrow> utc \<Rightarrow> utc option \<Rightarrow> tokenRecord" where
  "newTokenRecord uid label created expires =
     \<lparr>k_UserID = uid, k_Label = label, k_CreatedAt = timeFormat created, k_ExpiresAt = map_option timeFormat expires\<rparr>"

lemma newToken_ok:
  assumes "validTime created" "validateLabel label" "validHexID uid 32" "validHexID tid 64"
    "\<And>x. expires = Some x \<Longrightarrow> validTime x \<and> Before created x"
  shows "validateTokenRecord tid (newTokenRecord uid label created expires)" "tokenUTF8 (newTokenRecord uid label created expires)"
  using assms by (auto simp: validateTokenRecord_def newTokenRecord_def parse_format tokenUTF8_def text_valid split: option.split)

lemma active_new:
  assumes "\<And>x. expires = Some x \<Longrightarrow> validTime x"
  shows "active (newTokenRecord uid label created expires) now \<longleftrightarrow> (case expires of None \<Rightarrow> True | Some x \<Rightarrow> Before now x)"
  using assms by (auto simp: active_def newTokenRecord_def parse_format split: option.split)

subsection \<open>Drawing identifiers\<close>

lemma uniqueUserID_step:
  "uniqueUserID rnd n d = (if coll_Has userCollection (NewID (rnd n)) d then uniqueUserID rnd (Suc n) d else Some (NewID (rnd n)))"
  by (subst uniqueUserID.simps) (simp add: Let_def)

lemma uniqueUserID_Some:
  assumes "uniqueUserID rnd n d = Some i"
  shows "\<exists>k. i = NewID (rnd (n + k)) \<and> \<not> coll_Has userCollection i d \<and> (\<forall>j < k. coll_Has userCollection (NewID (rnd (n + j))) d)"
  using _ assms
proof (rule uniqueUserID.raw_induct)
  fix self rnd n d i
  assume IH: "\<And>rnd n d i. self rnd n d = Some i \<Longrightarrow> \<exists>k. i = NewID (rnd (n + k)) \<and> \<not> coll_Has userCollection i d \<and>
       (\<forall>j < k. coll_Has userCollection (NewID (rnd (n + j))) d)"
    and r: "(let i = NewID (rnd n) in if \<not> coll_Has userCollection i d then Some i else self rnd (Suc n) d) = Some i"
  show "\<exists>k. i = NewID (rnd (n + k)) \<and> \<not> coll_Has userCollection i d \<and> (\<forall>j < k. coll_Has userCollection (NewID (rnd (n + j))) d)"
  proof (cases "coll_Has userCollection (NewID (rnd n)) d")
    case True
    then obtain k where "i = NewID (rnd (Suc n + k))" "\<not> coll_Has userCollection i d"
      "\<forall>j < k. coll_Has userCollection (NewID (rnd (Suc n + j))) d"
      using IH [of rnd "Suc n" d i] r by (auto simp: Let_def)
    then show ?thesis using True by (intro exI [of _ "Suc k"]) (auto simp: less_Suc_eq_0_disj)
  next
    case False
    then show ?thesis using r by (intro exI [of _ 0]) (simp add: Let_def)
  qed
qed

lemma uniqueToken_Some:
  assumes "uniqueToken rnd n d = Some r"
  shows "case r of Inl _ \<Rightarrow> True
     | Inr (token, i) \<Rightarrow> (\<exists>k secret. rnd (n + k) = Some secret \<and> token = newToken secret) \<and> i = tokenID token \<and> \<not> coll_Has tokenCollection i d"
  using _ assms
proof (rule uniqueToken.raw_induct)
  fix self rnd n d r
  assume IH: "\<And>rnd n d r. self rnd n d = Some r \<Longrightarrow> case r of Inl _ \<Rightarrow> True
     | Inr (token, i) \<Rightarrow> (\<exists>k secret. rnd (n + k) = Some secret \<and> token = newToken secret) \<and> i = tokenID token \<and> \<not> coll_Has tokenCollection i d"
    and r: "(case rnd n of None \<Rightarrow> Some (Inl (ErrUser ''generate token''))
      | Some secret \<Rightarrow> let token = newToken secret; i = tokenID token in
          if \<not> coll_Has tokenCollection i d then Some (Inr (token, i)) else self rnd (Suc n) d) = Some r"
  show "case r of Inl _ \<Rightarrow> True
     | Inr (token, i) \<Rightarrow> (\<exists>k secret. rnd (n + k) = Some secret \<and> token = newToken secret) \<and> i = tokenID token \<and> \<not> coll_Has tokenCollection i d"
  proof (cases "rnd n")
    case (Some secret)
    show ?thesis
    proof (cases "coll_Has tokenCollection (tokenID (newToken secret)) d")
      case True
      then have "self rnd (Suc n) d = Some r" using r Some by (simp add: Let_def)
      then show ?thesis using IH [of rnd "Suc n" d r] by (auto split: sum.splits) (metis add_Suc_right add_Suc)
    next
      case False
      then have "r = Inr (newToken secret, tokenID (newToken secret))" using r Some by (simp add: Let_def)
      then show ?thesis using False Some by (auto intro: exI [of _ 0])
    qed
  qed (use r in auto)
qed

end
