(* ===== verification/Json_Local.thy ===== *)
theory Json_Local
  imports Codec
begin

text \<open>
  Scanning is local: the text of a value scans on its own as it does inside a larger text.  So the
  members of a decoded object are values themselves, nested one level less than the object.
\<close>

lemma scanValue_skip: "scanValue f d (skipws s) = scanValue f d s"
  by (cases f) simp_all

lemma scanMembers_skip: "scanMembers f d (skipws s) = scanMembers f d s"
  by (cases f) simp_all

lemma scanElems_skip: "scanElems f d (skipws s) = scanElems f d s"
  by (cases f) (simp_all only: scanElems.simps scanValue_skip)

lemma skipws_space: "(\<And>x. x \<in> set w \<Longrightarrow> isWS x) \<Longrightarrow> skipws (w @ s) = skipws s"
  by (induction w) auto

lemma skipws_taken [simp]: "skipws (takeWhile isWS s @ t) = skipws t"
  by (rule skipws_space) (auto dest: set_takeWhileD)

lemma ws_split: "skipws s = t \<Longrightarrow> s = takeWhile isWS s @ t"
  by (metis takeWhile_dropWhile_id)

lemma valueEnd_space: "valueEnd t \<Longrightarrow> valueEnd (takeWhile isWS s @ t)"
proof (cases "takeWhile isWS s")
  case (Cons c w)
  then have "isWS c" by (metis list.set_intros(1) set_takeWhileD)
  with Cons show ?thesis by (auto simp: valueEnd_def isWS_def isDigit_def)
qed simp

lemma scanString_local: "scanString s = Some (b, r) \<Longrightarrow> s = b @ dq # r \<and> (\<forall>r'. scanString (b @ dq # r') = Some (b, r'))"
  using scanString_sound scanString_complete by blast

text \<open>\<open>x\<close> is the text the scanner consumed.\<close>

definition localV :: "nat \<Rightarrow> nat \<Rightarrow> bytes \<Rightarrow> bytes \<Rightarrow> bytes \<Rightarrow> bool" where
  "localV f d s p r \<longleftrightarrow> (\<exists>x. skipws s = x @ r \<and> okStart x \<and> (\<forall>r'. valueEnd r' \<longrightarrow> scanValue f d (x @ r') = Some (p, r')))"

definition localE :: "nat \<Rightarrow> nat \<Rightarrow> bytes \<Rightarrow> bytes \<Rightarrow> bytes \<Rightarrow> bool" where
  "localE f d s p r \<longleftrightarrow> (\<exists>x. skipws s = x @ r \<and> okStart x \<and> (\<forall>r'. scanElems f d (x @ r') = Some (p, r')))"

definition localM :: "nat \<Rightarrow> nat \<Rightarrow> bytes \<Rightarrow> bytes \<Rightarrow> bytes \<Rightarrow> bool" where
  "localM f d s p r \<longleftrightarrow> (\<exists>x. skipws s = x @ r \<and> okStart x \<and> (\<forall>r'. \<exists>fs. scanMembers f d (x @ r') = Some (p, fs, r')))"

lemma okStart_brackets: "okStart x \<Longrightarrow> \<exists>e es. x = e # es \<and> \<not> isWS e \<and> e \<noteq> CHR '']'' \<and> e \<noteq> CHR ''}''"
  unfolding okStart_def by blast

lemma localV_step:
  assumes V: "scanValue (Suc f) d s = Some (p, r)"
    and E: "\<And>d s p r. scanElems f d s = Some (p, r) \<Longrightarrow> localE f d s p r"
    and M: "\<And>d s p fs r. scanMembers f d s = Some (p, fs, r) \<Longrightarrow> localM f d s p r"
  shows "localV (Suc f) d s p r"
  using V
proof (cases rule: scanValue_elim)
  case (str g cs b)
  note S = scanString_local [OF str(3)]
  show ?thesis unfolding localV_def
    by (rule exI [of _ "dq # b @ [dq]"]) (use str S in \<open>simp add: okStart_def\<close>)
next
  case (arr0 g cs)
  show ?thesis unfolding localV_def
    by (rule exI [of _ "CHR ''['' # takeWhile isWS cs @ '']''"])
       (use arr0 ws_split [OF arr0(4)] in \<open>simp add: okStart_def\<close>)
next
  case (arr g cs e es q)
  then obtain x where x: "skipws cs = x @ r" "okStart x" "\<And>r'. scanElems f (d - 1) (x @ r') = Some (q, r')"
    using E [of "d - 1" cs q r] unfolding localE_def by auto
  obtain e' es' where e': "x = e' # es'" "\<not> isWS e'" "e' \<noteq> CHR '']''" using okStart_brackets [OF x(2)] by blast
  have sc: "scanElems f (d - 1) (takeWhile isWS cs @ x @ r') = Some (q, r')" for r'
    using x(3) [of r'] okStart_skipws [OF x(2)] scanElems_skip [of f "d - 1" "takeWhile isWS cs @ x @ r'"] by simp
  show ?thesis unfolding localV_def
    by (rule exI [of _ "CHR ''['' # takeWhile isWS cs @ x"])
       (use arr x ws_split [OF x(1)] sc e' in \<open>simp add: okStart_def\<close>)
next
  case (obj0 g cs)
  show ?thesis unfolding localV_def
    by (rule exI [of _ "CHR ''{'' # takeWhile isWS cs @ ''}''"])
       (use obj0 ws_split [OF obj0(4)] in \<open>simp add: okStart_def\<close>)
next
  case (obj g cs e es q fs)
  then obtain x where x: "skipws cs = x @ r" "okStart x" "\<And>r'. \<exists>fs. scanMembers f (d - 1) (x @ r') = Some (q, fs, r')"
    using M [of "d - 1" cs q fs r] unfolding localM_def by auto
  obtain e' es' where e': "x = e' # es'" "\<not> isWS e'" "e' \<noteq> CHR ''}''" using okStart_brackets [OF x(2)] by blast
  have sc: "\<exists>fs. scanMembers f (d - 1) (takeWhile isWS cs @ x @ r') = Some (q, fs, r')" for r'
    using x(3) [of r'] okStart_skipws [OF x(2)] scanMembers_skip [of f "d - 1" "takeWhile isWS cs @ x @ r'"] by simp
  show ?thesis unfolding localV_def
  proof (intro exI [of _ "CHR ''{'' # takeWhile isWS cs @ x"] conjI allI impI)
    fix r' obtain fs' where "scanMembers f (d - 1) (takeWhile isWS cs @ x @ r') = Some (q, fs', r')" using sc by blast
    then show "scanValue (Suc f) d ((CHR ''{'' # takeWhile isWS cs @ x) @ r') = Some (p, r')"
      using obj e' by simp
  qed (use obj x ws_split [OF x(1)] in \<open>simp_all add: okStart_def\<close>)
next
  case (lit g)
  have "okStart p \<and> (\<forall>r'. scanValue (Suc f) d (p @ r') = Some (p, r'))"
    using lit(3) by (elim insertE emptyE) (simp_all add: okStart_def)
  then show ?thesis unfolding localV_def using lit(2) by (intro exI [of _ p]) simp
next
  case (num g c cs)
  note N = scanNumber_again [OF num(3)]
  have "okStart p" using scanValue_number(2) [OF N(5) N(2,3), of "[]"] by simp
  moreover have "valueEnd r' \<Longrightarrow> scanValue (Suc f) d (p @ r') = Some (p, r')" for r'
    using scanValue_number(1) [OF N(5) N(2,3)] by blast
  ultimately show ?thesis unfolding localV_def using num N(1) by auto
qed


lemma localE_step:
  assumes E: "scanElems (Suc f) d s = Some (p, r)"
    and V: "\<And>d s p r. scanValue f d s = Some (p, r) \<Longrightarrow> localV f d s p r"
    and IH: "\<And>d s p r. scanElems f d s = Some (p, r) \<Longrightarrow> localE f d s p r"
  shows "localE (Suc f) d s p r"
  using E
proof (cases rule: scanElems_elim)
  case (more g q t cs p')
  then obtain y where y: "skipws s = y @ t" "okStart y" "\<And>r'. valueEnd r' \<Longrightarrow> scanValue f d (y @ r') = Some (q, r')"
    using V [of d s q t] unfolding localV_def by auto
  obtain z where z: "skipws cs = z @ r" "okStart z" "\<And>r'. scanElems f d (z @ r') = Some (p', r')"
    using IH [of d cs p' r] more unfolding localE_def by auto
  have sc: "scanElems f d (takeWhile isWS cs @ z @ r') = Some (p', r')" for r'
    using z(3) [of r'] okStart_skipws [OF z(2)] scanElems_skip [of f d "takeWhile isWS cs @ z @ r'"] by simp
  show ?thesis unfolding localE_def
    by (rule exI [of _ "y @ takeWhile isWS t @ CHR '','' # takeWhile isWS cs @ z"])
       (use more y z sc ws_split [OF more(3)] ws_split [OF z(1)] okStart_append [OF y(2)] in \<open>simp add: valueEnd_space\<close>)
next
  case (last g q t)
  then obtain y where y: "skipws s = y @ t" "okStart y" "\<And>r'. valueEnd r' \<Longrightarrow> scanValue f d (y @ r') = Some (q, r')"
    using V [of d s q t] unfolding localV_def by auto
  show ?thesis unfolding localE_def
    by (rule exI [of _ "y @ takeWhile isWS t @ '']''"])
       (use last y ws_split [OF last(3)] okStart_append [OF y(2)] in \<open>simp add: valueEnd_space\<close>)
qed

lemma localM_step:
  assumes M: "scanMembers (Suc f) d s = Some (p, fs, r)"
    and V: "\<And>d s p r. scanValue f d s = Some (p, r) \<Longrightarrow> localV f d s p r"
    and IH: "\<And>d s p fs r. scanMembers f d s = Some (p, fs, r) \<Longrightarrow> localM f d s p r"
  shows "localM (Suc f) d s p r"
  using M
proof (cases rule: scanMembers_elim)
  case (more g cs k t cs' q u es p' fs')
  note S = scanString_local [OF more(3)]
  obtain y where y: "skipws cs' = y @ u" "okStart y" "\<And>r'. valueEnd r' \<Longrightarrow> scanValue f d (y @ r') = Some (q, r')"
    using V [of d cs' q u] more unfolding localV_def by auto
  obtain z where z: "skipws es = z @ r" "okStart z" "\<And>r'. \<exists>fs. scanMembers f d (z @ r') = Some (p', fs, r')"
    using IH [of d es p' fs' r] more unfolding localM_def by auto
  have sv: "valueEnd r' \<Longrightarrow> scanValue f d (takeWhile isWS cs' @ y @ r') = Some (q, r')" for r'
    using y(3) [of r'] scanValue_skip [of f d "takeWhile isWS cs' @ y @ r'"] okStart_skipws [OF y(2), of r'] by simp
  show ?thesis unfolding localM_def
  proof (intro exI [of _ "dq # k @ dq # takeWhile isWS t @ CHR '':'' # takeWhile isWS cs' @ y @ takeWhile isWS u @ CHR '','' # takeWhile isWS es @ z"] conjI allI)
    fix r'
    obtain fs2 where "scanMembers f d (takeWhile isWS es @ z @ r') = Some (p', fs2, r')"
      using z(3) [of r'] okStart_skipws [OF z(2)] scanMembers_skip [of f d "takeWhile isWS es @ z @ r'"] by auto
    then show "\<exists>fs. scanMembers (Suc f) d ((dq # k @ dq # takeWhile isWS t @ CHR '':'' # takeWhile isWS cs' @ y @ takeWhile isWS u @ CHR '','' # takeWhile isWS es @ z) @ r') = Some (p, fs, r')"
      using more S sv by (simp add: valueEnd_space Let_def)
  qed (use more S ws_split [OF more(4)] ws_split [OF y(1)] ws_split [OF more(6)] ws_split [OF z(1)] in \<open>simp_all add: okStart_def\<close>)
next
  case (last g cs k t cs' q u)
  note S = scanString_local [OF last(3)]
  obtain y where y: "skipws cs' = y @ u" "okStart y" "\<And>r'. valueEnd r' \<Longrightarrow> scanValue f d (y @ r') = Some (q, r')"
    using V [of d cs' q u] last unfolding localV_def by auto
  have sv: "valueEnd r' \<Longrightarrow> scanValue f d (takeWhile isWS cs' @ y @ r') = Some (q, r')" for r'
    using y(3) [of r'] scanValue_skip [of f d "takeWhile isWS cs' @ y @ r'"] okStart_skipws [OF y(2), of r'] by simp
  show ?thesis unfolding localM_def
    by (rule exI [of _ "dq # k @ dq # takeWhile isWS t @ CHR '':'' # takeWhile isWS cs' @ y @ takeWhile isWS u @ ''}''"])
       (use last S sv ws_split [OF last(4)] ws_split [OF y(1)] ws_split [OF last(6)] in \<open>simp add: okStart_def valueEnd_space Let_def\<close>)
qed

lemma scan_local:
  "(\<forall>d s p r. scanValue f d s = Some (p, r) \<longrightarrow> localV f d s p r) \<and>
   (\<forall>d s p r. scanElems f d s = Some (p, r) \<longrightarrow> localE f d s p r) \<and>
   (\<forall>d s p fs r. scanMembers f d s = Some (p, fs, r) \<longrightarrow> localM f d s p r)"
proof (induction f)
  case (Suc f)
  note V = Suc.IH [THEN conjunct1, rule_format] and E = Suc.IH [THEN conjunct2, THEN conjunct1, rule_format]
    and M = Suc.IH [THEN conjunct2, THEN conjunct2, rule_format]
  show ?case
    by (intro conjI allI impI; rule localV_step [OF _ E M] localE_step [OF _ V E] localM_step [OF _ V M]; assumption)
qed simp

lemmas scanValue_local = scan_local [THEN conjunct1, rule_format]

text \<open>The members of an object: keys are string bodies, values are values.\<close>

definition valueText :: "nat \<Rightarrow> bytes \<Rightarrow> bool" where
  "valueText d x \<longleftrightarrow> okStart x \<and> (\<exists>p. canonAt d p \<and> (\<forall>f \<ge> scanFuel x. scanValue f d x = Some (p, [])))"

lemma scanned_valueText:
  assumes "scanValue f d s = Some (p, r)"
  shows "valueText d (take (length (skipws s) - length r) (skipws s))"
proof -
  obtain x where x: "skipws s = x @ r" "okStart x" "\<And>r'. valueEnd r' \<Longrightarrow> scanValue f d (x @ r') = Some (p, r')"
    using scanValue_local [OF assms] unfolding localV_def by blast
  have "scanValue f d x = Some (p, [])" using x(3) [of "[]"] by simp
  then have "\<forall>g \<ge> scanFuel x. scanValue g d x = Some (p, [])" using scanValue_fuel scanFuel_bound(1) le_trans by blast
  moreover have "canonAt d p"
    using scanValue_again [OF assms, of "[]"] scanValue_fuel [of f d p "(p, [])", OF _ scanFuel_bound(1)] by (simp add: canonAt_def)
  ultimately show ?thesis using x(1,2) by (auto simp: valueText_def)
qed

lemma scanMembers_texts:
  "scanMembers f d s = Some (p, fs, r) \<Longrightarrow> (k, v) \<in> set fs \<Longrightarrow> strBody k \<and> valueText d v"
proof (induction f arbitrary: s p fs r)
  case (Suc f)
  from Suc.prems(1) show ?case
  proof (cases rule: scanMembers_elim)
    case (more g cs k t cs' q u es p' fs')
    then show ?thesis using Suc scanString_sound [OF more(3)] scanned_valueText [of f d cs' q u] by auto
  next
    case (last g cs k t cs' q u)
    then show ?thesis using Suc.prems(2) scanString_sound [OF last(3)] scanned_valueText [of f d cs' q u] by auto
  qed
qed simp

lemma objectFields_texts: "objectFields s = Some fs \<Longrightarrow> (k, v) \<in> set fs \<Longrightarrow> strBody k \<and> valueText 9999 v"
  by (auto simp: objectFields_def maxNestingDepth_def dest: scanMembers_texts split: if_splits list.splits option.splits)

text \<open>So a member compacts to a text of at most 9999 levels.\<close>

lemma valueText_compact: "valueText 9999 v \<Longrightarrow> \<exists>p. compact v = Some p \<and> canonAt 9999 p"
  using scan_depth [THEN conjunct1, rule_format, of "scanFuel v" 9999 v _ maxNestingDepth]
  by (fastforce simp: valueText_def compact_def maxNestingDepth_def)

end
