(* ===== verification/Protocol_Facts.thy ===== *)
theory Protocol_Facts
  imports Protocol Unquote Json_Local
begin

text \<open>
  What a decoded request guarantees to the handlers: its size, its encoding, its fields and its
  target; and that the 16-bit arithmetic of \<open>parseHex4\<close> computes the value of four
  hexadecimal digits.
\<close>

unbundle bit_operations_syntax

subsection \<open>Hexadecimal digits\<close>

lemma hexDigitWord_hexVal: "hexDigitWord c = map_option of_nat (hexVal c)"
  by (auto simp: hexDigitWord_def hexVal_def less_eq_char_def of_nat_diff)

lemma hexVal_less: "hexVal c = Some v \<Longrightarrow> v < 16"
  by (auto simp: hexVal_def Let_def split: if_splits)

lemma shift_or:
  assumes "v < 16"
  shows "push_bit 4 (of_nat x :: 16 word) OR of_nat v = of_nat (16 * x + v)"
proof -
  have "\<not> bit (push_bit 4 (of_nat x :: 16 word)) n \<or> \<not> bit (of_nat v :: 16 word) n" for n
  proof (cases "n < 4")
    case False
    then have "(2::nat) ^ 4 \<le> 2 ^ n" by (intro power_increasing) simp_all
    with assms have "v < 2 ^ n" by simp
    then have "\<not> bit v n" by (simp add: bit_iff_odd)
    then show ?thesis by (simp add: bit_simps)
  qed (simp add: bit_simps)
  then have "push_bit 4 (of_nat x :: 16 word) OR of_nat v = push_bit 4 (of_nat x) + of_nat v"
    by (rule disjunctive_add [symmetric])
  then show ?thesis by (simp add: push_bit_eq_mult)
qed

lemma parseHex4_loop_four:
  "parseHex4_loop 0 [a, b, c, d] = (case (hexVal a, hexVal b, hexVal c, hexVal d) of
     (Some w, Some x, Some y, Some z) \<Rightarrow> Some (of_nat (16 * (16 * (16 * w + x) + y) + z)) | _ \<Rightarrow> None)"
proof -
  have s: "push_bit 4 0 OR (of_nat v :: 16 word) = of_nat v" for v by simp
  show ?thesis
    by (simp add: hexDigitWord_hexVal s shift_or hexVal_less del: of_nat_add of_nat_mult split: option.split)
qed

subsection \<open>Bodies\<close>

lemma collectFields_spec:
  assumes "collectFields kvs m = Inr flds"
  shows "\<exists>names. map (\<lambda>kv. unquoteBody (fst kv)) kvs = map Some names \<and> distinct names \<and>
     set names \<inter> fmdom' m = {} \<and> fmdom' flds = fmdom' m \<union> set names \<and>
     (\<forall>n raw. fmlookup flds n = Some raw \<longleftrightarrow> fmlookup m n = Some raw \<or> (\<exists>k. (k, raw) \<in> set kvs \<and> unquoteBody k = Some n))"
  using assms
proof (induction kvs arbitrary: m)
  case (Cons kv kvs)
  obtain k raw where kv: "kv = (k, raw)" by fastforce
  obtain name where name: "unquoteBody k = Some name" "fmlookup m name = None" "collectFields kvs (fmupd name raw m) = Inr flds"
    using Cons.prems kv by (auto split: option.splits if_splits)
  obtain names where n: "map (\<lambda>kv. unquoteBody (fst kv)) kvs = map Some names" "distinct names"
    "set names \<inter> fmdom' (fmupd name raw m) = {}" "fmdom' flds = fmdom' (fmupd name raw m) \<union> set names"
    "\<And>n raw'. fmlookup flds n = Some raw' \<longleftrightarrow> fmlookup (fmupd name raw m) n = Some raw' \<or> (\<exists>k. (k, raw') \<in> set kvs \<and> unquoteBody k = Some n)"
    using Cons.IH [OF name(3)] by blast
  have fresh: "name \<notin> fmdom' m" using name(2) by (simp add: fmdom'_notI)
  show ?case
  proof (intro exI [of _ "name # names"] conjI allI)
    fix n raw'
    show "fmlookup flds n = Some raw' \<longleftrightarrow> fmlookup m n = Some raw' \<or> (\<exists>k. (k, raw') \<in> set (kv # kvs) \<and> unquoteBody k = Some n)"
      using n(5) [of n raw'] name(1,2) by (auto simp: kv)
  qed (use n fresh name(1) in \<open>auto simp: kv\<close>)
qed (auto simp: fmdom'_empty)

text \<open>An accepted body, as the handlers rely on it.\<close>

lemma readObject_facts:
  assumes "readObject r maxBytes allowed required = Inr flds"
  shows "int (length (rq_body r)) \<le> maxBytes" "validUTF8 (rq_body r)" "validJSONUnicode (rq_body r)" "validJSON (rq_body r)"
    "set required \<subseteq> fmdom' flds" "fmdom' flds \<subseteq> set allowed"
    "\<exists>kvs. objectFields (trimSpace (rq_body r)) = Some kvs \<and> collectFields kvs fmempty = Inr flds"
  using assms
  by (auto simp: readObject_def Let_def list_ex_iff fmlookup_dom_iff fset_of_list.rep_eq less_eq_fset.rep_eq fmdom'_alt_def
      split: if_splits option.splits sum.splits)

lemma readObject_values:
  assumes "readObject r maxBytes allowed required = Inr flds" "fmlookup flds n = Some raw"
  shows "valueText 9999 raw" "validUTF8 n"
proof -
  obtain kvs where k: "objectFields (trimSpace (rq_body r)) = Some kvs" "collectFields kvs fmempty = Inr flds"
    using readObject_facts(7) [OF assms(1)] by blast
  obtain k where "(k, raw) \<in> set kvs" "unquoteBody k = Some n"
    using collectFields_spec [OF k(2)] assms(2) by auto
  then show "valueText 9999 raw" "validUTF8 n" using objectFields_texts [OF k(1)] unquoteBody_valid by auto
qed

lemma readObject_frame [simp]:
  "readObject (r\<lparr>rq_path := p\<rparr>) = readObject r" "readObject (r\<lparr>rq_authorization := a\<rparr>) = readObject r"
  by (auto simp: readObject_def fun_eq_iff)

subsection \<open>Fields and targets\<close>

lemma stringField_valid: "stringField flds n = Inr s \<Longrightarrow> validUTF8 s"
  by (auto simp: stringField_def dest: unquote_valid split: option.splits if_splits)

lemma collectionTarget_ok:
  "collectionTarget flds = Inr c \<Longrightarrow> validCollectionName c \<and> \<not> reservedCollection c"
  by (auto simp: collectionTarget_def split: sum.splits if_splits)

lemma documentTarget_ok:
  "documentTarget flds mx = Inr (c, i) \<Longrightarrow>
     validCollectionName c \<and> \<not> reservedCollection c \<and> validUTF8 i \<and> int (length i) \<le> mx"
  by (auto simp: documentTarget_def split: sum.splits if_splits)

subsection \<open>Properties\<close>

text \<open>
  C38: \<open>parseHex4\<close>, which shifts and ors 16-bit words, agrees with the natural-number value of
  four hexadecimal digits at that place, and rejects exactly what is not four such digits.
\<close>

theorem parseHex4_spec: "map_option unat (parseHex4 data start) = map_option fst (hex4 (drop start data))"
proof -
  consider (four) a b c d r where "drop start data = a # b # c # d # r" | (short) "length (drop start data) < 4"
    by (cases "drop start data" rule: hex4.cases) auto
  then show ?thesis
  proof cases
    case four
    then have "length (drop start data) = length (a # b # c # d # r)" by simp
    then have l: "\<not> start + 4 > length data" by simp
    have p: "parseHex4 data start = parseHex4_loop 0 [a, b, c, d]" using l four by (simp add: parseHex4_def)
    have u: "unat (of_nat (16 * (16 * (16 * w + x) + y) + z) :: 16 word) = w * 4096 + x * 256 + y * 16 + z"
      if "hexVal a = Some w" "hexVal b = Some x" "hexVal c = Some y" "hexVal d = Some z" for w x y z
    proof -
      have "16 * (16 * (16 * w + x) + y) + z < 2 ^ 16" using that [THEN hexVal_less] by simp
      then have "unat (of_nat (16 * (16 * (16 * w + x) + y) + z) :: 16 word) = 16 * (16 * (16 * w + x) + y) + z"
        by (simp add: unat_of_nat del: of_nat_add of_nat_mult)
      then show ?thesis by simp
    qed
    show ?thesis unfolding p parseHex4_loop_four four hex4.simps
      by (cases "hexVal a"; cases "hexVal b"; cases "hexVal c"; cases "hexVal d") (simp_all only: option.case option.map prod.case fst_conv u)
  next
    case short
    then have "hex4 (drop start data) = None" by (cases "drop start data" rule: hex4.cases) auto
    moreover have "start + 4 > length data" using short by simp
    ultimately show ?thesis by (simp add: parseHex4_def)
  qed
qed

text \<open>
  C29: An accepted request body is within the size limit, is valid UTF-8 without lone surrogate
  escapes, holds one JSON object whose names are distinct after decoding, all required and no
  other than allowed ones, and each value is a JSON value nested at most 9999 levels, so that a
  document taken from it fits into a log record.
\<close>

theorem readObject_ok:
  assumes "readObject r maxBytes allowed required = Inr flds"
  shows "int (length (rq_body r)) \<le> maxBytes \<and> validUTF8 (rq_body r) \<and> validJSONUnicode (rq_body r) \<and> validJSON (rq_body r) \<and>
     set required \<subseteq> fmdom' flds \<and> fmdom' flds \<subseteq> set allowed \<and>
     (\<exists>kvs names. objectFields (trimSpace (rq_body r)) = Some kvs \<and> map (\<lambda>kv. unquoteBody (fst kv)) kvs = map Some names \<and>
        distinct names \<and> set names = fmdom' flds) \<and>
     (\<forall>n raw. fmlookup flds n = Some raw \<longrightarrow> validUTF8 n \<and> (\<exists>doc. compact raw = Some doc \<and> canonAt 9999 doc))"
proof -
  note F = readObject_facts [OF assms]
  obtain kvs where k: "objectFields (trimSpace (rq_body r)) = Some kvs" "collectFields kvs fmempty = Inr flds" using F(7) by blast
  obtain names where "map (\<lambda>kv. unquoteBody (fst kv)) kvs = map Some names" "distinct names" "set names = fmdom' flds"
    using collectFields_spec [OF k(2)] by auto
  then show ?thesis using F k(1) readObject_values [OF assms] valueText_compact by blast
qed

text \<open>Witness for C29: the body of a request for the document \<open>x\<close> of the collection \<open>c\<close>.\<close>

definition demoBody :: bytes where
  "demoBody = renderObject [(''collection'', quote ''c''), (''id'', quote ''x'')]"

definition demoRequest :: "bytes \<Rightarrow> request" where
  "demoRequest body = \<lparr>rq_method = ''POST'', rq_path = ''/v1/get'', rq_rawQuery = [], rq_contentLength = int (length body),
     rq_transferEncoding = [], rq_authorization = [], rq_contentEncoding = [], rq_mediaType = Some ''application/json'',
     rq_body = body, rq_bodyError = False\<rparr>"

lemma demoBody_text: "demoBody = CHR ''{'' # dq # ''collection'' @ dq # CHR '':'' # dq # ''c'' @ dq # CHR '','' # dq # ''id'' @ dq # CHR '':'' # dq # ''x'' @ dq # ''}''"
  by (simp add: demoBody_def renderObject_def quote_def quoteBody.simps escapeASCII_def)

lemma trimSpace_braces: "trimSpace (CHR ''{'' # s @ ''}'') = CHR ''{'' # s @ ''}''"
  by (simp add: trimSpace_def isSpace_def)

lemma demo_readObject:
  "readObject (demoRequest demoBody) 100 [''collection'', ''id''] [''collection'', ''id''] =
     Inr (fmupd ''id'' (quote ''x'') (fmupd ''collection'' (quote ''c'') fmempty))"
proof -
  have p: "plainText ''collection''" by (simp add: plainText_def)
  have r: "renderable 9999 [(''collection'', quote ''c''), (''id'', quote ''x'')]"
    using plainText_body [OF p] plainText_body [of "''id''"] by (simp add: renderable_def canon_quote)
  have o: "objectFields demoBody = Some [(''collection'', quote ''c''), (''id'', quote ''x'')]"
    unfolding demoBody_def by (rule objectFields_render [OF r])
  have v: "validJSON demoBody" unfolding demoBody_def by (simp add: validJSON_def compact_render [OF r])
  have t: "trimSpace demoBody = demoBody" unfolding demoBody_def renderObject_def by (rule trimSpace_braces)
  have u: "validUTF8 demoBody" unfolding demoBody_text by simp
  have j: "validJSONUnicode demoBody"
    unfolding demoBody_text validJSONUnicode_def by (simp add: validJSONUnicode_loop.simps)
  have c: "collectFields [(''collection'', quote ''c''), (''id'', quote ''x'')] fmempty =
      Inr (fmupd ''id'' (quote ''x'') (fmupd ''collection'' (quote ''c'') fmempty))"
    by (simp add: plainText_body(3) [OF p] plainText_body(3))
  have h: "demoBody \<noteq> []" "hd demoBody = CHR ''{''" "\<not> 100 < length demoBody" unfolding demoBody_text by simp_all
  show ?thesis
    by (simp add: readObject_def demoRequest_def Let_def t u j v o c h del: collectFields.simps)
qed

theorem readObject_ok_witness:
  "\<exists>flds. readObject (demoRequest demoBody) 100 [''collection'', ''id''] [''collection'', ''id''] = Inr flds \<and>
     int (length (rq_body (demoRequest demoBody))) \<le> 100 \<and> fmdom' flds \<subseteq> {''collection'', ''id''}"
  using readObject_ok [OF demo_readObject] demo_readObject by auto

end
