(* ===== verification/Handlers_Facts.thy ===== *)
theory Handlers_Facts
  imports Handlers Auth_Facts Protocol_Facts
begin

text \<open>
  What a handler may do to the server: change the database by at most one accepted, well-formed
  record, of a kind that depends on the endpoint, and set the server unavailable.  A handler of a
  data endpoint never panics and never sees the reserved collections.
\<close>

subsection \<open>Steps of a handler\<close>

definition stepTo :: "(wal_record \<Rightarrow> bool) \<Rightarrow> apiServer \<Rightarrow> apiServer \<Rightarrow> bool" where
  "stepTo P s s' \<longleftrightarrow> srv_cfg s' = srv_cfg s \<and> srv_shuttingDown s' = srv_shuttingDown s \<and>
     (srv_unavailable s \<longrightarrow> srv_unavailable s') \<and>
     (srv_db s' = srv_db s \<or> (\<exists>rec c. DB_write rec (srv_db s) = (Inr c, srv_db s') \<and> recOK rec \<and> P rec))"

definition allows :: "(wal_record \<Rightarrow> bool) \<Rightarrow> apiServer \<Rightarrow> handled \<Rightarrow> bool" where
  "allows P s h \<longleftrightarrow> (case h of Reply _ s' \<Rightarrow> stepTo P s s' | Panic _ s' \<Rightarrow> stepTo P s s' | Hang \<Rightarrow> True)"

named_theorems allowed

lemma stepTo_refl [simp]: "stepTo P s s"
  by (simp add: stepTo_def)

lemma stepTo_mark: "stepTo P s s' \<Longrightarrow> stepTo P s (markStorageFailure e s')"
  by (simp add: stepTo_def markStorageFailure_def)

lemma allows_fails [allowed]: "allows P s (fails f s)"
  by (simp add: allows_def fails_def)

lemma allows_internalError [allowed]: "stepTo P s s' \<Longrightarrow> allows P s (internalError s')"
  by (simp add: allows_def internalError_def)

lemma allows_fails' [allowed]: "stepTo P s s' \<Longrightarrow> allows P s (fails f s')"
  by (simp add: allows_def fails_def)

lemma allows_replyValue [allowed]: "stepTo P s s' \<Longrightarrow> allows P s (replyValue st v s')"
  by (simp add: allows_def replyValue_def split: option.split)

lemma allows_mutationError [allowed]: "stepTo P s s' \<Longrightarrow> allows P s (mutationError e s')"
  by (auto simp: allows_def mutationError_def stepTo_mark split: error.split) (auto simp: stepTo_def)

lemma stepTo_write:
  assumes "case r of (Inl _, d') \<Rightarrow> d' = srv_db s | (Inr c, d') \<Rightarrow> \<exists>rec. DB_write rec (srv_db s) = (Inr c, d') \<and> recOK rec \<and> P rec"
  shows "stepTo P s (s\<lparr>srv_db := snd (waited f r)\<rparr>)"
  using assms by (auto simp: stepTo_def waited_state split: prod.splits sum.splits)

lemma allows_waited:
  assumes "stepTo P s (s\<lparr>srv_db := snd (waited f r)\<rparr>)"
    "\<And>d. stepTo P s (s\<lparr>srv_db := d\<rparr>) \<Longrightarrow> allows P s (k (s\<lparr>srv_db := d\<rparr>))"
  shows "allows P s (case waited f r of (Some err, d) \<Rightarrow> mutationError err (s\<lparr>srv_db := d\<rparr>) | (None, d) \<Rightarrow> k (s\<lparr>srv_db := d\<rparr>))"
proof -
  obtain e d where "waited f r = (e, d)" by fastforce
  with assms show ?thesis by (auto intro: allows_mutationError split: option.split)
qed

lemma allows_finish: "stepTo P s (s\<lparr>srv_db := snd x\<rparr>) \<Longrightarrow> allows P s (finish s x)"
  by (auto simp: finish_def allows_mutationError split: prod.split option.split) (simp add: allows_def)

text \<open>The records of the three kinds of writes.\<close>

lemma write_set:
  assumes "coll_Set cd n i x d = (r, d')" "\<And>raw. enc cd x = Inr raw \<Longrightarrow> canonAt 9999 raw" "validName n" "validUTF8 i"
    "\<And>raw. P \<lparr>Op = opSet, Coll = n, ID = i, Doc = raw\<rparr>"
  shows "case r of Inl _ \<Rightarrow> d' = d | Inr c \<Rightarrow> \<exists>rec. DB_write rec d = (Inr c, d') \<and> recOK rec \<and> P rec"
proof (cases r)
  case (Inl e)
  then show ?thesis using set_error assms(1) by auto
next
  case (Inr c)
  then obtain raw where raw: "enc cd x = Inr raw" "DB_write \<lparr>Op = opSet, Coll = n, ID = i, Doc = raw\<rparr> d = (Inr c, d')"
    using assms(1) by (auto simp: coll_Set_def split: sum.splits option.splits)
  moreover have "recOK \<lparr>Op = opSet, Coll = n, ID = i, Doc = raw\<rparr>"
    using assms(2) [OF raw(1)] assms(3,4) by (simp add: recOK_def)
  ultimately show ?thesis using Inr assms(5) by auto
qed

lemma write_plain:
  assumes "DB_write \<lparr>Op = q, Coll = n, ID = i, Doc = []\<rparr> d = (r, d')" "q = opDel \<or> q = opDrop" "validName n" "validUTF8 i"
    "P \<lparr>Op = q, Coll = n, ID = i, Doc = []\<rparr>"
  shows "case r of Inl _ \<Rightarrow> d' = d | Inr c \<Rightarrow> \<exists>rec. DB_write rec d = (Inr c, d') \<and> recOK rec \<and> P rec"
  using assms DB_write_error by (auto simp: recOK_def split: sum.split)

lemma stepTo_set:
  assumes "\<And>raw. enc cd x = Inr raw \<Longrightarrow> canonAt 9999 raw" "validName n" "validUTF8 i" "\<And>raw. P \<lparr>Op = opSet, Coll = n, ID = i, Doc = raw\<rparr>"
  shows "stepTo P s (s\<lparr>srv_db := snd (waited f (coll_Set cd n i x (srv_db s)))\<rparr>)"
proof -
  obtain r d' where r: "coll_Set cd n i x (srv_db s) = (r, d')" by fastforce
  show ?thesis using write_set [OF r assms(1-3), of P] assms(4) by (intro stepTo_write) (auto simp: r split: sum.splits)
qed

lemma stepTo_plain:
  assumes "q = opDel \<or> q = opDrop" "validName n" "validUTF8 i" "P \<lparr>Op = q, Coll = n, ID = i, Doc = []\<rparr>"
  shows "stepTo P s (s\<lparr>srv_db := snd (waited f (DB_write \<lparr>Op = q, Coll = n, ID = i, Doc = []\<rparr> (srv_db s)))\<rparr>)"
proof -
  obtain r d' where r: "DB_write \<lparr>Op = q, Coll = n, ID = i, Doc = []\<rparr> (srv_db s) = (r, d')" by fastforce
  show ?thesis using write_plain [where P = P, OF r assms] by (intro stepTo_write) (auto simp: r split: sum.splits)
qed

subsection \<open>Data endpoints\<close>

text \<open>The kinds of records a writer and an administrator may cause.\<close>

definition dataRec :: "wal_record \<Rightarrow> bool" where
  "dataRec r \<longleftrightarrow> \<not> reservedCollection (Coll r)"

definition writerRec :: "wal_record \<Rightarrow> bool" where
  "writerRec r \<longleftrightarrow> \<not> reservedCollection (Coll r) \<and> Op r \<noteq> opDrop"

definition authRec :: "wal_record \<Rightarrow> bool" where
  "authRec r \<longleftrightarrow> Coll r = userCollection \<or> Coll r = tokenCollection"

lemma serverName: "validCollectionName n = validName n"
  by (simp add: validCollectionName_eq_validName)

lemma C_ok: "validName n \<Longrightarrow> C n = Some n"
  by (simp add: C_def mustValidName_def)

lemma withDocument_cases:
  assumes "\<And>c i flds. readObject r (c_maxRequestSize (srv_cfg s)) names names = Inr flds \<Longrightarrow> validName c \<Longrightarrow>
     \<not> reservedCollection c \<Longrightarrow> validUTF8 i \<Longrightarrow> allows P s (k c i flds)"
  shows "allows P s (withDocument names k r s)"
proof (cases "readObject r (c_maxRequestSize (srv_cfg s)) names names")
  case (Inr flds)
  show ?thesis
  proof (cases "documentTarget flds (c_maxIDSize (srv_cfg s))")
    case t: (Inr ci)
    obtain c i where ci: "ci = (c, i)" by fastforce
    have "allows P s (k c i flds)"
      using documentTarget_ok [of flds _ c i] t ci Inr serverName by (intro assms) auto
    then show ?thesis by (simp add: withDocument_def Inr t ci)
  qed (simp add: withDocument_def Inr allows_fails)
qed (simp add: withDocument_def allows_fails)

lemma withCollection_cases:
  assumes "\<And>c. validName c \<Longrightarrow> \<not> reservedCollection c \<Longrightarrow> allows P s (k c)"
  shows "allows P s (withCollection k r s)"
proof (cases "readObject r (c_maxRequestSize (srv_cfg s)) [''collection''] [''collection'']")
  case (Inr flds)
  show ?thesis
  proof (cases "collectionTarget flds")
    case t: (Inr c)
    have "allows P s (k c)" using collectionTarget_ok [OF t] serverName by (intro assms) auto
    then show ?thesis by (simp add: withCollection_def Inr t)
  qed (simp add: withCollection_def Inr allows_fails)
qed (simp add: withCollection_def allows_fails)

lemma onCollection_ok: "validName n \<Longrightarrow> onCollection n s k = k n"
  by (simp add: onCollection_def C_ok)

lemma rawCodec_member:
  assumes "case x of None \<Rightarrow> True | Some raw \<Rightarrow> valueText 9999 raw" "enc rawCodec (case x of None \<Rightarrow> [] | Some raw \<Rightarrow> raw) = Inr b"
  shows "canonAt 9999 b"
  using assms valueText_compact
  by (fastforce simp: rawCodec_def split: option.splits if_splits)

lemma allows_handleSet: "allows writerRec s (handleSet ce r s)"
  unfolding handleSet_def
proof (rule withDocument_cases)
  fix c i flds
  assume f: "readObject r (c_maxRequestSize (srv_cfg s)) [''collection'', ''id'', ''document''] [''collection'', ''id'', ''document''] = Inr flds"
    and t: "validName c" "\<not> reservedCollection c" "validUTF8 i"
  have "case fmlookup flds ''document'' of None \<Rightarrow> True | Some raw \<Rightarrow> valueText 9999 raw"
    using readObject_values [OF f] by (simp split: option.split)
  then show "allows writerRec s (onCollection c s (\<lambda>n. finish s (waited (ce_outcome ce) (coll_Set rawCodec n i
       (case fmlookup flds ''document'' of None \<Rightarrow> [] | Some doc \<Rightarrow> doc) (srv_db s)))))"
    unfolding onCollection_ok [OF t(1)]
    by (intro allows_finish stepTo_set t rawCodec_member) (simp_all add: writerRec_def t)
qed

lemma allows_handleDelete: "allows writerRec s (handleDelete ce r s)"
  unfolding handleDelete_def coll_Delete_def
  by (rule withDocument_cases) (auto simp: onCollection_ok writerRec_def intro!: allows_finish stepTo_plain)

lemma allows_handleDrop: "allows dataRec s (handleDrop ce r s)"
  unfolding handleDrop_def Drop_def
  by (rule withCollection_cases) (auto simp: mustValidName_def dataRec_def intro!: allows_finish stepTo_plain)

lemma allows_handleGet: "allows P s (handleGet ce r s)"
  unfolding handleGet_def
  by (rule withDocument_cases) (auto simp: onCollection_ok intro: allowed split: sum.split)

lemma allows_handleHas: "allows P s (handleHas ce r s)"
  unfolding handleHas_def by (rule withDocument_cases) (auto simp: onCollection_ok intro: allowed)

lemma allows_handleCount: "allows P s (handleCount ce r s)"
  unfolding handleCount_def by (rule withCollection_cases) (auto simp: onCollection_ok intro: allowed)

lemma allows_handleScan: "allows P s (handleScan ce r s)"
  unfolding handleScan_def
  by (rule withCollection_cases) (auto simp: onCollection_ok allows_def Let_def split: prod.split)

lemma allows_handleCollections: "allows P s (handleCollections ce r s)"
  by (simp add: handleCollections_def allowed)

subsection \<open>Endpoints of the authentication store\<close>

lemma metaNames_valid [simp]: "validName userCollection" "validName tokenCollection" "validName stateCollection"
  by (simp_all add: meta_defs validName_def maxNameLen_def nameChar_def)

lemma metaNames_reserved [simp]: "reservedCollection userCollection" "reservedCollection tokenCollection" "reservedCollection stateCollection"
  by (simp_all add: meta_defs reservedCollection_def)

lemma uniqueUserID_valid: "uniqueUserID rnd n d = Some i \<Longrightarrow> validUTF8 i"
  using uniqueUserID_Some [of rnd n d i] hexID_valid [OF hexEncode_valid] by (auto simp: NewID_def)

lemma enc_user: "userUTF8 u \<Longrightarrow> enc userCodec u = Inr raw \<Longrightarrow> canonAt 9999 raw"
  by (rule users.enc_canon)

lemma enc_token: "tokenUTF8 k \<Longrightarrow> enc tokenCodec k = Inr raw \<Longrightarrow> canonAt 9999 raw"
  by (rule tokens.enc_canon)

lemma stepTo_user:
  "userUTF8 u \<Longrightarrow> validUTF8 i \<Longrightarrow> stepTo authRec s (s\<lparr>srv_db := snd (waited f (coll_Set userCodec userCollection i u (srv_db s)))\<rparr>)"
  by (rule stepTo_set) (auto simp: authRec_def intro: enc_user)

lemma stepTo_token:
  "tokenUTF8 k \<Longrightarrow> validUTF8 i \<Longrightarrow> stepTo authRec s (s\<lparr>srv_db := snd (waited f (coll_Set tokenCodec tokenCollection i k (srv_db s)))\<rparr>)"
  by (rule stepTo_set) (auto simp: authRec_def intro: enc_token)

lemma allows_handleUserCreate: "allows authRec s (handleUserCreate ce r s)"
proof -
  have "allows authRec s (case waited (ce_outcome ce) (coll_Set userCodec userCollection i u (srv_db s)) of
      (Some err, d) \<Rightarrow> mutationError err (s\<lparr>srv_db := d\<rparr>)
    | (None, d) \<Rightarrow> replyValue 201 v (s\<lparr>srv_db := d\<rparr>))" if "validUTF8 i" "userUTF8 u" for i u v
    using that by (intro allows_waited stepTo_user allows_replyValue)
  then show ?thesis
    unfolding handleUserCreate_def
    by (auto simp: Let_def userUTF8_def uniqueUserID_valid text_valid intro: allowed split: sum.split option.split)
       (auto simp: allows_def)
qed

lemma allows_handleUsers: "allows P s (handleUsers ce r s)"
  by (auto simp: handleUsers_def allows_def internalError_def replyValue_def split: prod.split bool.split option.split)

lemma update_record:
  assumes "coll_update cd n i fn d = Some (r, d')" "validName n" "validUTF8 i"
    and g: "\<And>raw v v' out. dec cd raw = Inr v \<Longrightarrow> fn v = Some (Inr v') \<Longrightarrow> enc cd v' = Inr out \<Longrightarrow> canonAt 9999 out"
    and P: "\<And>raw. P \<lparr>Op = opSet, Coll = n, ID = i, Doc = raw\<rparr>"
  shows "case r of Inl _ \<Rightarrow> d' = d | Inr c \<Rightarrow> \<exists>rec. DB_write rec d = (Inr c, d') \<and> recOK rec \<and> P rec"
proof (cases r)
  case (Inl e)
  then show ?thesis using update_error assms(1) by auto
next
  case (Inr c)
  then obtain raw v v' out where x: "dec cd raw = Inr v" "fn v = Some (Inr v')" "enc cd v' = Inr out"
    "DB_write \<lparr>Op = opSet, Coll = n, ID = i, Doc = out\<rparr> d = (Inr c, d')"
    using assms(1) by (auto simp: coll_update_def Let_def DB_write_def split: if_splits option.splits sum.splits prod.splits)
  have "recOK \<lparr>Op = opSet, Coll = n, ID = i, Doc = out\<rparr>" using g [OF x(1-3)] assms(2,3) by (simp add: recOK_def)
  with x(4) P Inr show ?thesis by auto
qed

lemma changeUser_valid:
  assumes "changeUser uid newRole dis now u = Some (Inr u')" "userUTF8 u" "validUTF8 now" "\<And>x. newRole = Some x \<Longrightarrow> validRole x"
  shows "userUTF8 u'"
  using assms by (auto simp: changeUser_def Let_def userUTF8_def text_valid split: if_splits option.splits)

lemma newRoleField_valid: "newRoleField flds = Inr x \<Longrightarrow> x = Some y \<Longrightarrow> validRole y"
  by (auto simp: newRoleField_def split: option.splits sum.splits if_splits)

lemma stepTo_update:
  assumes "coll_Update f userCodec userCollection uid (changeUser uid newRole dis (timeFormat t)) (srv_db s) = Some (err, d)"
    "validUTF8 uid" "\<And>x. newRole = Some x \<Longrightarrow> validRole x"
  shows "stepTo authRec s (s\<lparr>srv_db := d\<rparr>)"
proof -
  obtain r d' where r: "coll_update userCodec userCollection uid (changeUser uid newRole dis (timeFormat t)) (srv_db s) = Some (r, d')"
    "waited f (r, d') = (err, d)" using assms(1) by (auto simp: coll_Update_def)
  have "case r of Inl _ \<Rightarrow> d' = srv_db s | Inr c \<Rightarrow> \<exists>rec. DB_write rec (srv_db s) = (Inr c, d') \<and> recOK rec \<and> authRec rec"
  proof (rule update_record [OF r(1)])
    fix raw v v' out
    assume "dec userCodec raw = Inr v" "changeUser uid newRole dis (timeFormat t) v = Some (Inr v')" "enc userCodec v' = Inr out"
    then show "canonAt 9999 out" using changeUser_valid decoded_user assms(3) enc_user timeFormat_valid by metis
  qed (use assms(2) in \<open>simp_all add: authRec_def\<close>)
  then have "stepTo authRec s (s\<lparr>srv_db := snd (waited f (r, d'))\<rparr>)" by (intro stepTo_write) (simp split: sum.splits)
  then show ?thesis by (simp add: r(2))
qed

lemma allows_userUpdateReply: "stepTo P s s' \<Longrightarrow> allows P s (userUpdateReply uid s' err)"
  by (auto simp: userUpdateReply_def intro: allowed split: option.split sum.split)

lemma allows_handleUserUpdate: "allows authRec s (handleUserUpdate ce r s)"
  unfolding handleUserUpdate_def
  by (auto intro!: allowed allows_userUpdateReply stepTo_update simp: text_valid newRoleField_valid split: sum.split option.split)
     (auto simp: allows_def)

lemma allows_handleTokens: "allows P s (handleTokens ce r s)"
  unfolding handleTokens_def
  by (auto intro: allowed split: sum.split prod.split bool.split) (auto simp: allows_def)

lemma allows_handleTokenRevoke: "allows authRec s (handleTokenRevoke ce r s)"
  unfolding handleTokenRevoke_def coll_Delete_def
  by (auto intro!: allowed allows_finish stepTo_plain simp: authRec_def text_valid split: sum.split)

lemma expiryField_valid: "expiryField flds created = Inr x \<Longrightarrow> case x of None \<Rightarrow> True | Some t \<Rightarrow> validUTF8 t"
  by (auto simp: expiryField_def split: sum.splits option.splits if_splits)

lemma allows_issueToken: "validUTF8 uid \<Longrightarrow> validUTF8 label \<Longrightarrow> allows authRec s (issueToken ce flds uid label s)"
proof -
  assume u: "validUTF8 uid" "validUTF8 label"
  have "allows authRec s (case waited (ce_outcome ce) (coll_Set tokenCodec tokenCollection i k (srv_db s)) of
      (Some err, d) \<Rightarrow> mutationError err (s\<lparr>srv_db := d\<rparr>)
    | (None, d) \<Rightarrow> replyValue 201 v (s\<lparr>srv_db := d\<rparr>))" if "validUTF8 i" "tokenUTF8 k" for i k v
    using that by (intro allows_waited stepTo_token allows_replyValue)
  moreover have "validUTF8 i" if "uniqueToken rnd n d = Some (Inr (t, i))" for rnd n d t i
    using uniqueToken_Some [OF that] hexID_valid [OF tokenID_valid] by auto
  ultimately show ?thesis
    unfolding issueToken_def Let_def
    using u expiryField_valid [of flds "ce_clock ce 0"]
    by (auto simp: tokenUTF8_def intro: allowed split: sum.split option.split) (auto simp: allows_def)
qed

lemma allows_handleTokenCreate: "allows authRec s (handleTokenCreate ce r s)"
  unfolding handleTokenCreate_def
  by (auto intro!: allowed allows_issueToken simp: text_valid split: sum.split)

end
