(* ===== verification/Server_Facts.thy ===== *)
theory Server_Facts
  imports Server Handlers_Facts
begin

text \<open>
  The server as a whole: who may change what, what an unauthenticated or refused request can
  learn, what a stopping server still does, and how the response writer is used.
\<close>

lemma status_simps [simp]:
  "rs_status (writeFailure f) = f_status f" "rs_status (writeJSON h n v) = n" "rs_status writeNoContent = 204"
  "rs_status (noStore resp) = rs_status resp"
  by (simp_all add: writeFailure_def writeJSON_def writeNoContent_def noStore_def)

subsection \<open>Roles\<close>

lemma role_simps [simp]:
  "roleAllows roleAdmin r" "roleAllows r roleReader \<longleftrightarrow> validRole r" "\<not> roleAllows roleReader roleWriter"
  by (auto simp: roleAllows_def rank_def validRole_def roleReader_def roleWriter_def roleAdmin_def)

lemma roleAllows_admin: "roleAllows r roleAdmin \<longleftrightarrow> r = roleAdmin"
  by (auto simp: roleAllows_def rank_def roleReader_def roleWriter_def roleAdmin_def)

subsection \<open>Routes\<close>

text \<open>What the actor's role lets a request write.\<close>

definition actorRec :: "serveConfig \<Rightarrow> role \<Rightarrow> wal_record \<Rightarrow> bool" where
  "actorRec cfg actor rec \<longleftrightarrow> roleAllows actor roleWriter \<and>
     (Op rec = opDrop \<or> reservedCollection (Coll rec) \<longrightarrow> actor = roleAdmin) \<and>
     (c_noAuth cfg \<longrightarrow> \<not> reservedCollection (Coll rec))"

lemma allows_mono: "allows P s h \<Longrightarrow> (\<And>rec. P rec \<Longrightarrow> Q rec) \<Longrightarrow> allows Q s h"
  by (fastforce simp: allows_def stepTo_def split: handled.splits)

lemma actorRec_writer: "roleAllows actor roleWriter \<Longrightarrow> writerRec rec \<Longrightarrow> actorRec cfg actor rec"
  and actorRec_data: "dataRec rec \<Longrightarrow> actorRec cfg roleAdmin rec"
  and actorRec_auth: "\<not> c_noAuth cfg \<Longrightarrow> authRec rec \<Longrightarrow> actorRec cfg roleAdmin rec"
  by (auto simp: actorRec_def writerRec_def dataRec_def authRec_def)

lemma buildRoutes_in: "buildRoutes cfg p = Some rt \<Longrightarrow> rt \<in> snd ` set dataRoutes \<or> \<not> c_noAuth cfg \<and> rt \<in> snd ` set authRoutes"
  by (force simp: buildRoutes_def dest!: map_of_SomeD split: if_splits)

lemma allows_writes:
  "roleAllows actor roleWriter \<Longrightarrow> allows (actorRec cfg actor) s (handleSet ce r s)"
  "roleAllows actor roleWriter \<Longrightarrow> allows (actorRec cfg actor) s (handleDelete ce r s)"
  "allows (actorRec cfg roleAdmin) s (handleDrop ce r s)"
  by (rule allows_mono [OF allows_handleSet actorRec_writer] allows_mono [OF allows_handleDelete actorRec_writer]
      allows_mono [OF allows_handleDrop actorRec_data], assumption+)+

lemma allows_metaWrites:
  assumes "\<not> c_noAuth cfg"
  shows "allows (actorRec cfg roleAdmin) s (handleUserCreate ce r s)" "allows (actorRec cfg roleAdmin) s (handleUserUpdate ce r s)"
    "allows (actorRec cfg roleAdmin) s (handleTokenCreate ce r s)" "allows (actorRec cfg roleAdmin) s (handleTokenRevoke ce r s)"
  by (rule allows_mono [OF allows_handleUserCreate actorRec_auth [OF assms]] allows_mono [OF allows_handleUserUpdate actorRec_auth [OF assms]]
      allows_mono [OF allows_handleTokenCreate actorRec_auth [OF assms]] allows_mono [OF allows_handleTokenRevoke actorRec_auth [OF assms]],
      assumption)+

lemma dataRoute_allows:
  assumes "rt \<in> snd ` set dataRoutes" "roleAllows actor (rt_role rt)"
  shows "allows (actorRec cfg actor) s (rt_handler rt ce r s)"
  using assms
  by (auto simp: dataRoutes_def mkRoute_def roleAllows_admin allows_handleCollections allows_handleGet allows_handleHas
      allows_handleCount allows_handleScan allows_writes)

lemma authRoute_allows:
  assumes "rt \<in> snd ` set authRoutes" "roleAllows actor (rt_role rt)" "\<not> c_noAuth cfg"
  shows "allows (actorRec cfg actor) s (rt_handler rt ce r s)"
  using assms
  by (auto simp: authRoutes_def mkRoute_def roleAllows_admin allows_handleUsers allows_handleTokens allows_metaWrites)

lemma allows_reply [allowed]: "allows P s (Reply x s)"
  by (simp add: allows_def)

lemma allows_if [allowed]: "(b \<Longrightarrow> allows P s m) \<Longrightarrow> (\<not> b \<Longrightarrow> allows P s m') \<Longrightarrow> allows P s (if b then m else m')"
  by simp

lemma dispatchRoute_allows: "allows (actorRec (srv_cfg s) actor) s (dispatchRoute actor ce r s)"
proof (cases "buildRoutes (srv_cfg s) (rq_path r)")
  case (Some rt)
  have "allows (actorRec (srv_cfg s) actor) s (rt_handler rt ce r s)" if "roleAllows actor (rt_role rt)"
    using buildRoutes_in [OF Some] dataRoute_allows [OF _ that] authRoute_allows [OF _ that] by blast
  then show ?thesis unfolding dispatchRoute_def Some option.case by (intro allowed) simp_all
qed (simp add: dispatchRoute_def allows_fails)

text \<open>The caller of a request: anybody is an administrator without authentication.\<close>

definition actorOf :: "utc \<Rightarrow> request \<Rightarrow> apiServer \<Rightarrow> role option" where
  "actorOf now r s = (if c_noAuth (srv_cfg s) then Some roleAdmin
     else case authenticateRequest now r s of Inl _ \<Rightarrow> None | Inr actor \<Rightarrow> Some actor)"

lemma handleHealth_allows: "allows P s (handleHealth ce r s)"
  by (auto simp: handleHealth_def intro: allowed)

lemma routeRequest_allows:
  "allows (\<lambda>rec. \<exists>actor. actorOf now r s = Some actor \<and> actorRec (srv_cfg s) actor rec) s (routeRequest now ce r s)"
proof -
  have d: "allows (\<lambda>rec. \<exists>actor. actorOf now r s = Some actor \<and> actorRec (srv_cfg s) actor rec) s (dispatchRoute actor ce r s)"
    if "actorOf now r s = Some actor" for actor
    by (rule allows_mono [OF dispatchRoute_allows]) (simp add: that)
  show ?thesis
  proof (cases "authenticateRequest now r s")
    case (Inl f)
    then show ?thesis unfolding routeRequest_def Inl sum.case
      by (intro allowed handleHealth_allows d stepTo_refl) (simp add: actorOf_def)
  next
    case (Inr actor)
    then show ?thesis unfolding routeRequest_def Inr sum.case
      by (intro allowed handleHealth_allows d stepTo_refl) (simp_all add: actorOf_def Inr)
  qed
qed

lemma ServeHTTP_stepTo:
  assumes "ServeHTTP now ce r s = Some (resp, s')"
  shows "stepTo (\<lambda>rec. \<exists>actor. actorOf now r s = Some actor \<and> actorRec (srv_cfg s) actor rec) s s'"
  using routeRequest_allows [of now r s ce] assms
  by (auto simp: ServeHTTP_def allows_def split: handled.splits option.splits)

subsection \<open>Authentication\<close>

lemma authenticate_role: "authenticate token now d = Some r \<Longrightarrow> validRole r"
  by (auto simp: authenticate_def Let_def validateUserRecord_def split: if_splits sum.splits)

lemma authenticateRequest_fails: "authenticateRequest now r s = Inl f \<Longrightarrow> f = failAuthRequired \<or> f = failInvalidToken"
  by (auto simp: authenticateRequest_def Let_def split: if_splits option.splits)

lemma authenticateRequest_ok:
  "authenticateRequest now r s = Inr actor \<Longrightarrow>
     \<exists>scheme token. Fields (rq_authorization r ! 0) = [scheme, token] \<and> length (rq_authorization r) = 1 \<and> isBearer scheme \<and>
       authenticate token now (srv_db s) = Some actor"
  by (auto simp: authenticateRequest_def Let_def length_Suc_conv numeral_2_eq_2 split: if_splits option.splits)

lemma actorOf_admin:
  assumes "actorOf now r s = Some actor" "\<not> c_noAuth (srv_cfg s)"
  shows "\<exists>scheme token. Fields (rq_authorization r ! 0) = [scheme, token] \<and> isBearer scheme \<and> authenticate token now (srv_db s) = Some actor"
  using assms authenticateRequest_ok [of now r s actor] by (auto simp: actorOf_def split: sum.splits)

subsection \<open>A small server\<close>

definition demoTime :: utc where
  "demoTime = \<lparr>t_year = 2026, t_month = 1, t_day = 2, t_hour = 3, t_min = 4, t_sec = 5, t_nsec = 0\<rparr>"

definition demoEnv :: callEnv where
  "demoEnv = \<lparr>ce_clock = (\<lambda>_. demoTime), ce_rndID = (\<lambda>_. replicate 16 CHR 0x00), ce_rndToken = (\<lambda>_. Some (replicate 32 CHR 0x00)),
     ce_outcome = (\<lambda>_. None), ce_gone = (\<lambda>_. False)\<rparr>"

definition demoCfg :: serveConfig where
  "demoCfg = \<lparr>c_dir = ''data'', c_listen = ''127.0.0.1:6332'', c_noAuth = True, c_maxDocSize = 50, c_flushBytes = 1000,
     c_flushInterval = 1, c_maxIDSize = 10, c_maxRequestSize = 100, c_shutdownTimeout = 1\<rparr>"

definition demoServer :: apiServer where
  "demoServer = newAPIServer oneDoc demoCfg"

definition deleteRequest :: request where
  "deleteRequest = (demoRequest demoBody)\<lparr>rq_path := ''/v1/delete''\<rparr>"

lemma demo_withDocument:
  assumes "s = newAPIServer d (demoCfg\<lparr>c_noAuth := b\<rparr>)" "r = (demoRequest demoBody)\<lparr>rq_path := p, rq_authorization := a\<rparr>"
  shows "withDocument [''collection'', ''id''] k r s = k ''c'' ''x'' (fmupd ''id'' (quote ''x'') (fmupd ''collection'' (quote ''c'') fmempty))"
    (is "_ = k _ _ ?flds")
proof -
  have "readObject r (c_maxRequestSize (srv_cfg s)) [''collection'', ''id''] [''collection'', ''id''] = Inr ?flds"
    using demo_readObject assms by (simp add: newAPIServer_def demoCfg_def)
  moreover have "\<not> isJSONNull (quote t)" "unquote (quote t) = Some t" if "t = ''c'' \<or> t = ''x''" for t
    using that by (auto simp: isJSONNull_def trimSpace_def isSpace_def quote_def quoteBody.simps escapeASCII_def
        unquote_def unquoteBody.simps)
  then have "documentTarget ?flds (c_maxIDSize (srv_cfg s)) = Inr (''c'', ''x'')"
    using assms by (simp add: documentTarget_def stringField_def newAPIServer_def demoCfg_def validCollectionName_def reservedCollection_def)
  ultimately show ?thesis by (simp add: withDocument_def)
qed

lemma demo_delete: "\<exists>c d'. DB_write \<lparr>Op = opDel, Coll = ''c'', ID = ''x'', Doc = []\<rparr> oneDoc = (Inr c, d') \<and> d' \<noteq> oneDoc"
proof -
  obtain line where "marshalRecord \<lparr>Op = opDel, Coll = ''c'', ID = ''x'', Doc = []\<rparr> = Inr line"
    using marshalRecord_canon [of "\<lparr>Op = opDel, Coll = ''c'', ID = ''x'', Doc = []\<rparr>"] by auto
  then show ?thesis
    by (auto simp: DB_write_def oneDoc_def newDB_def enqueue_def Let_def applyRec_def split: prod.split option.split)
qed

lemma demo_serve:
  "\<exists>s'. ServeHTTP demoTime demoEnv deleteRequest demoServer = Some (noStore writeNoContent, s') \<and> srv_db s' \<noteq> srv_db demoServer"
proof -
  obtain c d' where w: "DB_write \<lparr>Op = opDel, Coll = ''c'', ID = ''x'', Doc = []\<rparr> oneDoc = (Inr c, d')" "d' \<noteq> oneDoc"
    using demo_delete by blast
  have "validName ''c''" by (simp add: validName_def maxNameLen_def nameChar_def)
  moreover have "withDocument [''collection'', ''id''] k deleteRequest demoServer =
      k ''c'' ''x'' (fmupd ''id'' (quote ''x'') (fmupd ''collection'' (quote ''c'') fmempty))" for k
    by (rule demo_withDocument [where d = oneDoc and b = True and p = "''/v1/delete''" and a = "[]"])
       (simp_all add: demoServer_def deleteRequest_def demoCfg_def demoRequest_def)
  ultimately have "handleDelete demoEnv deleteRequest demoServer = Reply writeNoContent (demoServer\<lparr>srv_db := d'\<rparr>)"
    using w by (simp add: handleDelete_def onCollection_ok finish_def waited_def coll_Delete_def demoEnv_def demoServer_def newAPIServer_def)
  moreover have "routeRequest demoTime demoEnv deleteRequest demoServer = handleDelete demoEnv deleteRequest demoServer"
    by (simp add: routeRequest_def deleteRequest_def demoRequest_def demoServer_def newAPIServer_def demoCfg_def dispatchRoute_def
        buildRoutes_def dataRoutes_def mkRoute_def)
  ultimately show ?thesis using w(2) by (auto simp: ServeHTTP_def demoServer_def newAPIServer_def)
qed

subsection \<open>Properties\<close>

text \<open>
  C10: Authorization.  If a request changes the database at all, it changes it by exactly one
  well-formed record, and the caller was entitled to it: without authentication nobody can touch
  the reserved collections; with authentication the request carried a bearer token that
  authenticates, with at least the role of a writer, and dropping a collection or changing users,
  tokens or the server state took an administrator.
\<close>

theorem authorized_change:
  assumes "ServeHTTP now ce r s = Some (resp, s')" "srv_db s' \<noteq> srv_db s"
  shows "\<exists>actor rec c. DB_write rec (srv_db s) = (Inr c, srv_db s') \<and> recOK rec \<and> roleAllows actor roleWriter \<and>
     (Op rec = opDrop \<or> reservedCollection (Coll rec) \<longrightarrow> actor = roleAdmin) \<and>
     (if c_noAuth (srv_cfg s) then \<not> reservedCollection (Coll rec)
      else \<exists>scheme token. Fields (rq_authorization r ! 0) = [scheme, token] \<and> isBearer scheme \<and>
        authenticate token now (srv_db s) = Some actor)"
proof -
  obtain rec c actor where w: "DB_write rec (srv_db s) = (Inr c, srv_db s')" "recOK rec" "actorOf now r s = Some actor"
    "actorRec (srv_cfg s) actor rec"
    using ServeHTTP_stepTo [OF assms(1)] assms(2) unfolding stepTo_def by blast
  show ?thesis
    by (intro exI [of _ actor] exI [of _ rec] exI [of _ c])
       (use w actorOf_admin [OF w(3)] in \<open>auto simp: actorRec_def\<close>)
qed

text \<open>Witness for C10: deleting a document on a server without authentication.\<close>

theorem authorized_change_witness:
  "\<exists>s' rec c. ServeHTTP demoTime demoEnv deleteRequest demoServer = Some (noStore writeNoContent, s') \<and>
     DB_write rec (srv_db demoServer) = (Inr c, srv_db s') \<and> \<not> reservedCollection (Coll rec)"
proof -
  obtain s' where s: "ServeHTTP demoTime demoEnv deleteRequest demoServer = Some (noStore writeNoContent, s')" "srv_db s' \<noteq> srv_db demoServer"
    using demo_serve by blast
  have "c_noAuth (srv_cfg demoServer)" by (simp add: demoServer_def newAPIServer_def demoCfg_def)
  then show ?thesis using authorized_change [OF s] s(1) by auto
qed

text \<open>
  C19: A request without a valid credential learns nothing about the routes: on every path below
  \<open>/v1/\<close>, existing or not, and with every method, query and body, it gets the same response
  with status 401, and the server does not change.
\<close>

theorem no_probing:
  assumes "\<not> c_noAuth (srv_cfg s)" "\<not> srv_shuttingDown s" "\<not> srv_unavailable s" "authenticateRequest now r s = Inl f"
    "rq_authorization r' = rq_authorization r" "prefix ''/v1/'' (rq_path r')"
  shows "ServeHTTP now ce r' s = Some (noStore (writeFailure f), s) \<and> f_status f = 401"
proof -
  have "authenticateRequest now r' s = Inl f" using assms(4,5) by (simp add: authenticateRequest_def)
  moreover have "rq_path r' \<noteq> ''/healthz''" using assms(6) by auto
  ultimately have "routeRequest now ce r' s = fails f s" using assms by (simp add: routeRequest_def)
  moreover have "f_status f = 401" using authenticateRequest_fails [OF assms(4)] by (auto simp: fail_defs)
  ultimately show ?thesis by (simp add: ServeHTTP_def fails_def)
qed

text \<open>Witness for C19: no credential, on a path that does not exist.\<close>

theorem no_probing_witness:
  "ServeHTTP demoTime demoEnv ((demoRequest demoBody)\<lparr>rq_path := ''/v1/secret''\<rparr>) (newAPIServer oneDoc (demoCfg\<lparr>c_noAuth := False\<rparr>)) =
     Some (noStore (writeFailure failAuthRequired), newAPIServer oneDoc (demoCfg\<lparr>c_noAuth := False\<rparr>))"
  using no_probing [of "newAPIServer oneDoc (demoCfg\<lparr>c_noAuth := False\<rparr>)" demoTime "demoRequest demoBody" failAuthRequired
      "(demoRequest demoBody)\<lparr>rq_path := ''/v1/secret''\<rparr>" demoEnv]
  by (simp add: newAPIServer_def authenticateRequest_def demoRequest_def)

subsection \<open>The response writer\<close>

text \<open>A handler's calls, in order.\<close>

datatype writerCall = CallHeader nat | CallWrite bytes | CallFlush bool

fun callWriter :: "writerCall \<Rightarrow> trackedResponseWriter \<Rightarrow> trackedResponseWriter" where
  "callWriter (CallHeader n) w = tw_WriteHeader n w"
| "callWriter (CallWrite b) w = tw_Write b w"
| "callWriter (CallFlush x) w = tw_Flush x w"

definition headerFirst :: "trackedResponseWriter \<Rightarrow> bool" where
  "headerFirst w \<longleftrightarrow> (if tw_wroteHeader w then \<exists>n rest. tw_calls w = BaseHeader n # rest \<and> (\<forall>m. BaseHeader m \<notin> set rest)
     else tw_calls w = [])"

lemma callWriter_headerFirst: "headerFirst w \<Longrightarrow> headerFirst (callWriter c w)"
  by (cases c) (auto simp: headerFirst_def tw_WriteHeader_def tw_Write_def tw_Flush_def Let_def)

lemma callWriter_wrote: "tw_wroteHeader (callWriter c w)"
  by (cases c) (auto simp: tw_WriteHeader_def tw_Write_def tw_Flush_def Let_def)

lemma callWriter_keeps: "tw_calls w = x # xs \<Longrightarrow> headerFirst w \<Longrightarrow> \<exists>ys. tw_calls (callWriter c w) = x # ys"
  by (cases c) (auto simp: headerFirst_def tw_WriteHeader_def tw_Write_def tw_Flush_def Let_def split: if_splits)

lemma fold_headerFirst: "headerFirst w \<Longrightarrow> headerFirst (fold callWriter cs w)"
  by (induction cs arbitrary: w) (simp_all add: callWriter_headerFirst)

lemma fold_keeps: "tw_calls w = x # xs \<Longrightarrow> headerFirst w \<Longrightarrow> \<exists>ys. tw_calls (fold callWriter cs w) = x # ys"
proof (induction cs arbitrary: w xs)
  case (Cons c cs)
  obtain ys where "tw_calls (callWriter c w) = x # ys" using callWriter_keeps [OF Cons.prems] by blast
  then show ?case using Cons.IH callWriter_headerFirst [OF Cons.prems(2)] by simp
qed simp

text \<open>
  C39: Whatever a handler calls in whatever order, the underlying writer sees the status first and
  only once: the status of the first call if it sets one, 200 otherwise; and nothing is sent before
  the first call, so the panic handler can still answer.
\<close>

theorem header_once:
  "case cs of
     [] \<Rightarrow> tw_calls (fold callWriter cs \<lparr>tw_calls = [], tw_wroteHeader = False\<rparr>) = []
   | c # _ \<Rightarrow> \<exists>rest. tw_calls (fold callWriter cs \<lparr>tw_calls = [], tw_wroteHeader = False\<rparr>) =
       BaseHeader (case c of CallHeader n \<Rightarrow> n | _ \<Rightarrow> 200) # rest \<and> (\<forall>m. BaseHeader m \<notin> set rest)"
proof (cases cs)
  case (Cons c cs')
  let ?w = "callWriter c \<lparr>tw_calls = [], tw_wroteHeader = False\<rparr>"
  have h: "headerFirst ?w" by (intro callWriter_headerFirst) (simp add: headerFirst_def)
  have "\<exists>xs. tw_calls ?w = BaseHeader (case c of CallHeader n \<Rightarrow> n | _ \<Rightarrow> 200) # xs"
    by (cases c) (auto simp: tw_WriteHeader_def tw_Write_def tw_Flush_def Let_def)
  then obtain rest where r: "tw_calls (fold callWriter cs' ?w) = BaseHeader (case c of CallHeader n \<Rightarrow> n | _ \<Rightarrow> 200) # rest"
    using fold_keeps [OF _ h] by blast
  have "headerFirst (fold callWriter cs' ?w)" by (rule fold_headerFirst [OF h])
  with r have "\<forall>m. BaseHeader m \<notin> set rest" by (auto simp: headerFirst_def split: if_splits)
  with r Cons show ?thesis by simp
qed simp

end
