(* ===== verification/Answers.thy ===== *)
theory Answers
  imports Server_Facts
begin

text \<open>
  What a successful response says about the write behind it: a handler that changed the database
  answers with a status below 300 only if the commit of its record was reported as stored.
\<close>

definition told :: "callEnv \<Rightarrow> apiServer \<Rightarrow> response \<Rightarrow> apiServer \<Rightarrow> bool" where
  "told ce s resp s' \<longleftrightarrow> srv_db s' = srv_db s \<or> 300 \<le> rs_status resp \<or> (\<exists>c. commit (srv_db s') = Some c \<and> ce_outcome ce c = None)"

definition tells :: "callEnv \<Rightarrow> apiServer \<Rightarrow> handled \<Rightarrow> bool" where
  "tells ce s h \<longleftrightarrow> (case h of Reply resp s' \<Rightarrow> told ce s resp s' | Panic r s' \<Rightarrow> srv_db s' = srv_db s | Hang \<Rightarrow> True)"

named_theorems telling

lemma tells_same [telling]:
  "tells ce s (fails f s)" "tells ce s (internalError s)" "tells ce s (replyValue n v s)" "tells ce s (Reply resp s)"
  "tells ce s (Panic r s)" "tells ce s Hang"
  by (simp_all add: tells_def told_def fails_def internalError_def replyValue_def split: option.split)

lemma tells_sum [telling]: "(\<And>e. tells ce s (f e)) \<Longrightarrow> (\<And>x. tells ce s (g x)) \<Longrightarrow> tells ce s (case r of Inl e \<Rightarrow> f e | Inr x \<Rightarrow> g x)"
  and tells_option [telling]: "tells ce s m \<Longrightarrow> (\<And>x. tells ce s (h x)) \<Longrightarrow> tells ce s (case q of None \<Rightarrow> m | Some x \<Rightarrow> h x)"
  and tells_prod [telling]: "(\<And>a b. tells ce s (k a b)) \<Longrightarrow> tells ce s (case p of (a, b) \<Rightarrow> k a b)"
  and tells_bool [telling]: "tells ce s m \<Longrightarrow> tells ce s m' \<Longrightarrow> tells ce s (case b of True \<Rightarrow> m | False \<Rightarrow> m')"
  and tells_if [telling]: "tells ce s m \<Longrightarrow> tells ce s m' \<Longrightarrow> tells ce s (if b then m else m')"
  by (auto split: sum.split option.split prod.split bool.split)

lemma tells_refused [telling]: "tells ce s (mutationError e s')" "tells ce s (fails failNotFound s')" "tells ce s (internalError s')"
  by (auto simp: tells_def told_def mutationError_def fails_def internalError_def failDocumentTooLarge_def failUnavailable_def
      failStorage_def failNotFound_def failInternal_def failure_def split: error.split)

text \<open>An operation that either changes nothing or returns the commit its record has joined.\<close>

definition committed :: "db \<Rightarrow> (error + nat) \<times> db \<Rightarrow> bool" where
  "committed d r \<longleftrightarrow> (case r of (Inl _, d') \<Rightarrow> d' = d | (Inr c, d') \<Rightarrow> commit d' = Some c)"

lemma committed_simps [simp]: "committed d (Inl e, d') \<longleftrightarrow> d' = d" "committed d (Inr c, d') \<longleftrightarrow> commit d' = Some c"
  by (simp_all add: committed_def)

lemma committed_write: "committed d (DB_write rec d)"
  by (auto simp: DB_write_def enqueue_def Let_def split: sum.split prod.split option.split)

lemma committed_ops: "committed d (coll_Set cd n i x d)" "committed d (coll_Delete n i d)"
  "Drop n d = Some r \<Longrightarrow> committed d r" "coll_update cd n i fn d = Some r \<Longrightarrow> committed d r"
  by (simp add: coll_Set_def committed_write split: sum.split option.split, simp add: coll_Delete_def committed_write)
     (auto simp: Drop_def committed_write coll_update_def enqueue_def Let_def split: option.splits sum.splits if_splits)

lemma waited_committed:
  assumes "committed d r" "waited f r = (None, d')"
  shows "d' = d \<or> (\<exists>c. commit d' = Some c \<and> f c = None)"
  using assms by (auto simp: committed_def waited_def split: prod.splits sum.splits)

lemma tells_waited:
  assumes "committed (srv_db s) r"
    and "\<And>d. (d = srv_db s \<or> (\<exists>c. commit d = Some c \<and> ce_outcome ce c = None)) \<Longrightarrow> tells ce s (k d)"
    and "\<And>e d. tells ce s (g e d)"
  shows "tells ce s (case waited (ce_outcome ce) r of (Some err, d) \<Rightarrow> g err d | (None, d) \<Rightarrow> k d)"
  using assms waited_committed [OF assms(1)] by (auto split: prod.split option.split)

lemma tells_reply:
  assumes "d = srv_db s \<or> (\<exists>c. commit d = Some c \<and> ce_outcome ce c = None)"
  shows "tells ce s (replyValue n v (s\<lparr>srv_db := d\<rparr>))" "tells ce s (Reply resp (s\<lparr>srv_db := d\<rparr>))"
  using assms by (auto simp: tells_def told_def replyValue_def split: option.split)

lemma tells_finish: "committed (srv_db s) r \<Longrightarrow> tells ce s (finish s (waited (ce_outcome ce) r))"
  unfolding finish_def by (rule tells_waited) (simp_all add: tells_reply tells_refused)

subsection \<open>The handlers\<close>

lemma tells_withDocument [telling]: "(\<And>c i flds. tells ce s (k c i flds)) \<Longrightarrow> tells ce s (withDocument names k r s)"
  and tells_withCollection [telling]: "(\<And>c. tells ce s (k' c)) \<Longrightarrow> tells ce s (withCollection k' r s)"
  and tells_onCollection [telling]: "(\<And>n. tells ce s (k'' n)) \<Longrightarrow> tells ce s (onCollection c s k'')"
  unfolding withDocument_def withCollection_def onCollection_def by (intro telling | assumption)+

lemma tells_data:
  "tells ce s (handleCollections ce r s)" "tells ce s (handleGet ce r s)" "tells ce s (handleSet ce r s)" "tells ce s (handleDelete ce r s)"
  "tells ce s (handleHas ce r s)" "tells ce s (handleCount ce r s)" "tells ce s (handleScan ce r s)"
  unfolding handleCollections_def handleGet_def handleSet_def handleDelete_def handleHas_def handleCount_def handleScan_def Let_def
  by (intro telling tells_finish committed_ops)+

lemma tells_handleDrop: "tells ce s (handleDrop ce r s)"
  unfolding handleDrop_def
proof (rule telling)
  fix n show "tells ce s (case Drop n (srv_db s) of None \<Rightarrow> Panic None s | Some res \<Rightarrow> finish s (waited (ce_outcome ce) res))"
    by (cases "Drop n (srv_db s)") (simp_all add: telling tells_finish committed_ops(3))
qed

lemma tells_userUpdateReply:
  assumes "coll_update userCodec userCollection uid fn (srv_db s) = Some r" "waited (ce_outcome ce) r = (err, d)"
  shows "tells ce s (userUpdateReply uid (s\<lparr>srv_db := d\<rparr>) err)"
proof (cases err)
  case None
  then show ?thesis
    using waited_committed [OF committed_ops(4) [OF assms(1)]] assms(2) unfolding userUpdateReply_def
    by (auto intro!: telling tells_reply)
qed (auto simp: userUpdateReply_def intro!: telling)

lemma tells_auth:
  "tells ce s (handleUsers ce r s)" "tells ce s (handleTokens ce r s)" "tells ce s (handleTokenRevoke ce r s)"
  "tells ce s (handleUserCreate ce r s)" "tells ce s (handleTokenCreate ce r s)"
  unfolding handleUsers_def handleTokens_def handleTokenRevoke_def handleUserCreate_def handleTokenCreate_def issueToken_def Let_def
  by (intro telling tells_finish tells_waited tells_reply committed_ops | assumption)+

lemma tells_changed:
  "tells ce s (case coll_Update (ce_outcome ce) userCodec userCollection uid fn (srv_db s) of
     None \<Rightarrow> Panic None s | Some (err, d) \<Rightarrow> userUpdateReply uid (s\<lparr>srv_db := d\<rparr>) err)"
proof (cases "coll_update userCodec userCollection uid fn (srv_db s)")
  case (Some r)
  obtain err d where "waited (ce_outcome ce) r = (err, d)" by fastforce
  then show ?thesis using tells_userUpdateReply [OF Some] Some by (simp add: coll_Update_def)
qed (simp add: coll_Update_def telling)

lemma tells_handleUserUpdate: "tells ce s (handleUserUpdate ce r s)"
  unfolding handleUserUpdate_def by (intro telling(1,7-12) tells_changed)

subsection \<open>A request\<close>

lemma tells_dispatch: "tells ce s (dispatchRoute actor ce r s)"
proof -
  have "tells ce s (rt_handler rt ce r s)" if "buildRoutes (srv_cfg s) p = Some rt" for rt p
    using that tells_data tells_handleDrop tells_auth tells_handleUserUpdate
    by (auto simp: buildRoutes_def dataRoutes_def authRoutes_def mkRoute_def split: if_splits)
  then show ?thesis unfolding dispatchRoute_def by (auto intro!: telling split: option.split)
qed

lemma ServeHTTP_told:
  assumes "ServeHTTP now ce r s = Some (resp, s')"
  shows "told ce s resp s'"
proof -
  have "tells ce s (handleHealth ce r s)" unfolding handleHealth_def by (intro telling)
  then have "tells ce s (routeRequest now ce r s)"
    unfolding routeRequest_def using tells_dispatch by (auto intro: telling split: sum.split)
  then show ?thesis
    using assms by (auto simp: ServeHTTP_def tells_def told_def split: handled.splits option.splits)
qed

end
