(* ===== verification/Worker.thy ===== *)
theory Worker
  imports Db
begin

text \<open>
  What the worker's operations return, whatever the system calls do: the collections and the
  control state of the handle, and the answer to the commit they close.
\<close>

definition returns :: "('a \<Rightarrow> bool) \<Rightarrow> 'a io \<Rightarrow> bool" where
  "returns P m \<longleftrightarrow> (\<forall>w. P (fst (run_state m w)))"

named_theorems returning

lemma returns_ret [returning]: "P a \<Longrightarrow> returns P (ret a)"
  by (simp add: returns_def)

lemma returns_bind [returning]: "(\<And>a. returns P (f a)) \<Longrightarrow> returns P (State_Monad.bind m f)"
  by (simp add: returns_def split: prod.split)

lemma returns_seq: "returns Q m \<Longrightarrow> (\<And>a. Q a \<Longrightarrow> returns P (f a)) \<Longrightarrow> returns P (State_Monad.bind m f)"
  by (simp add: returns_def split: prod.split) (metis fst_conv)

lemma returns_sum [returning]: "(\<And>e. returns P (f e)) \<Longrightarrow> (\<And>x. returns P (g x)) \<Longrightarrow> returns P (case r of Inl e \<Rightarrow> f e | Inr x \<Rightarrow> g x)"
  and returns_option [returning]: "returns P m \<Longrightarrow> (\<And>x. returns P (h x)) \<Longrightarrow> returns P (case q of None \<Rightarrow> m | Some x \<Rightarrow> h x)"
  and returns_prod [returning]: "(\<And>a b. returns P (k a b)) \<Longrightarrow> returns P (case p of (a, b) \<Rightarrow> k a b)"
  and returns_if [returning]: "(b \<Longrightarrow> returns P m) \<Longrightarrow> (\<not> b \<Longrightarrow> returns P m') \<Longrightarrow> returns P (if b then m else m')"
  by (auto split: sum.split option.split prod.split)

lemma returnsD: "returns P m \<Longrightarrow> run_state m w = (a, w') \<Longrightarrow> P a"
  by (metis fst_conv returns_def)

text \<open>The fields the worker never touches while it runs.\<close>

definition sameStore :: "db \<Rightarrow> db \<Rightarrow> bool" where
  "sameStore d d' \<longleftrightarrow> colls d' = colls d \<and> closed d' = closed d \<and> dir d' = dir d \<and> opts d' = opts d \<and> stopped d' = stopped d"

lemma sameStore_simps [simp]:
  "sameStore d d" "sameStore d (d\<lparr>notify := b\<rparr>)" "sameStore d d' \<Longrightarrow> sameStore d (d'\<lparr>runErr := e\<rparr>)"
  "sameStore d d' \<Longrightarrow> sameStore d' d'' \<Longrightarrow> sameStore d d''"
  by (simp_all add: sameStore_def)

text \<open>The open commit, if any, is answered with \<open>e\<close>.\<close>

definition answered :: "db \<Rightarrow> error option \<times> db \<Rightarrow> bool" where
  "answered d r \<longleftrightarrow> sameStore d (snd r) \<and> (\<forall>c. commit d = Some c \<longrightarrow> fmlookup (results (snd r)) c = Some (fst r))"

lemma returns_writeLog: "returns (answered d) (writeLog err d)"
proof (cases "commit d")
  case (Some cid)
  have step: "returns (answered d) (case rd of (e, d2) \<Rightarrow> ret (e, d2\<lparr>results := fmupd cid e (results d2)\<rparr>))"
    if "sameStore d (snd rd)" for rd
    using that by (cases rd) (simp add: returns_def sameStore_def answered_def Some)
  show ?thesis unfolding writeLog_def Let_def Some option.case
    by (rule returns_seq [of "\<lambda>rd. sameStore d (snd rd)", OF _ step]) (auto intro!: returning simp: sameStore_def)
qed (simp add: writeLog_def returns_def sameStore_def answered_def)

definition snapped :: "db \<Rightarrow> error option \<times> db \<Rightarrow> bool" where
  "snapped d r \<longleftrightarrow> sameStore d (snd r) \<and> results (snd r) = results d"

lemma returns_writeSnapshot: "returns (snapped d) (writeSnapshot err d)"
  unfolding writeSnapshot_def Let_def by (intro returning) (simp_all add: sameStore_def snapped_def)

lemma returns_runTick: "returns (\<lambda>d'. sameStore d d' \<and> results d' = results d) (runTick d)"
  unfolding runTick_def
proof (rule returns_seq [OF returns_writeSnapshot])
  fix y assume "snapped d y"
  then show "returns (\<lambda>d'. sameStore d d' \<and> results d' = results d) (case y of (e', d2) \<Rightarrow> ret (d2\<lparr>runErr := e'\<rparr>))"
    by (cases y) (auto simp: returns_def snapped_def)
qed

definition notified :: "db \<Rightarrow> db \<Rightarrow> bool" where
  "notified d d' \<longleftrightarrow> sameStore d d' \<and> (\<forall>c. commit d = Some c \<longrightarrow> commit_wait c d' \<noteq> None)"

lemma returns_runLog: "returns (notified d) (runLog d)"
  unfolding runLog_def
proof (rule returns_seq [OF returns_writeLog])
  fix x assume "answered d x"
  then show "returns (notified d) (case x of (e, d1) \<Rightarrow> ret (d1\<lparr>runErr := e\<rparr>))"
    by (cases x) (auto simp: returns_def notified_def answered_def commit_wait_def)
qed

lemma returns_runNotify: "returns (notified d) (runNotify d)"
  unfolding runNotify_def
proof (rule returns_seq [OF returns_runLog])
  fix d1 assume n: "notified (d\<lparr>notify := False\<rparr>) d1"
  have "returns (notified d) (runTick d1)"
    using returns_runTick [of d1] n by (auto simp: returns_def notified_def commit_wait_def sameStore_def)
  moreover have "notified d d1" using n by (simp add: notified_def sameStore_def)
  ultimately show "returns (notified d) (if flushBytes (opts d1) \<le> logSize d1 then runTick d1 else ret d1)"
    by (simp add: returns_def)
qed

end
