(* ===== verification/Server_Run.thy ===== *)
theory Server_Run
  imports Answers Promises Worker
begin

text \<open>
  The running server on top of the running database: a session of requests and worker iterations
  is a run of the database in the sense of \<open>db_step\<close>, so what the database promises about
  power losses holds for the answers of the server.
\<close>

subsection \<open>Requests that stay away from the lock file\<close>

text \<open>
  The database promises nothing about collections below \<open>lock/\<close>, whose snapshots collide
  with the lock file.
\<close>

definition okRequest :: "request \<Rightarrow> bool" where
  "okRequest r \<longleftrightarrow> (\<forall>mx al rq flds name. readObject r mx al rq = Inr flds \<and> stringField flds ''collection'' = Inr name \<longrightarrow>
     \<not> prefix ''lock/'' name)"

abbreviation okRec :: "wal_record \<Rightarrow> bool" where
  "okRec \<equiv> \<lambda>rec. okName (Coll rec)"

lemma withDocument_named:
  assumes "okRequest r"
    "\<And>c i flds. readObject r (c_maxRequestSize (srv_cfg s)) names names = Inr flds \<Longrightarrow> okName c \<Longrightarrow> validName c \<Longrightarrow> validUTF8 i \<Longrightarrow>
       allows P s (k c i flds)"
  shows "allows P s (withDocument names k r s)"
proof (cases "readObject r (c_maxRequestSize (srv_cfg s)) names names")
  case (Inr flds)
  show ?thesis
  proof (cases "documentTarget flds (c_maxIDSize (srv_cfg s))")
    case t: (Inr ci)
    obtain c i where ci: "ci = (c, i)" by fastforce
    have "stringField flds ''collection'' = Inr c"
      using t ci by (auto simp: documentTarget_def split: sum.splits if_splits)
    then have "okName c" "validName c" "validUTF8 i"
      using assms(1) Inr documentTarget_ok [OF t [unfolded ci]] serverName by (auto simp: okRequest_def okName_def)
    then show ?thesis using assms(2) [OF Inr] by (simp add: withDocument_def Inr t ci)
  qed (simp add: withDocument_def Inr allows_fails)
qed (simp add: withDocument_def allows_fails)

lemma withCollection_named:
  assumes "okRequest r" "\<And>c. okName c \<Longrightarrow> validName c \<Longrightarrow> allows P s (k c)"
  shows "allows P s (withCollection k r s)"
proof (cases "readObject r (c_maxRequestSize (srv_cfg s)) [''collection''] [''collection'']")
  case (Inr flds)
  show ?thesis
  proof (cases "collectionTarget flds")
    case t: (Inr c)
    have "stringField flds ''collection'' = Inr c"
      using t by (auto simp: collectionTarget_def split: sum.splits if_splits)
    then have "okName c" "validName c"
      using assms(1) Inr collectionTarget_ok [OF t] serverName by (auto simp: okRequest_def okName_def)
    then show ?thesis using assms(2) by (simp add: withCollection_def Inr t)
  qed (simp add: withCollection_def Inr allows_fails)
qed (simp add: withCollection_def allows_fails)

lemma named_handleSet: "okRequest r \<Longrightarrow> allows okRec s (handleSet ce r s)"
  unfolding handleSet_def
proof (rule withDocument_named)
  fix c i flds
  assume f: "readObject r (c_maxRequestSize (srv_cfg s)) [''collection'', ''id'', ''document''] [''collection'', ''id'', ''document''] = Inr flds"
    and t: "okName c" "validName c" "validUTF8 i"
  have "case fmlookup flds ''document'' of None \<Rightarrow> True | Some raw \<Rightarrow> valueText 9999 raw"
    using readObject_values [OF f] by (simp split: option.split)
  then show "allows okRec s (onCollection c s (\<lambda>n. finish s (waited (ce_outcome ce) (coll_Set rawCodec n i
       (case fmlookup flds ''document'' of None \<Rightarrow> [] | Some doc \<Rightarrow> doc) (srv_db s)))))"
    unfolding onCollection_ok [OF t(2)]
    by (intro allows_finish stepTo_set t rawCodec_member) (simp_all add: t)
qed

lemma named_handleDelete: "okRequest r \<Longrightarrow> allows okRec s (handleDelete ce r s)"
  unfolding handleDelete_def coll_Delete_def
  by (rule withDocument_named) (auto simp: onCollection_ok intro!: allows_finish stepTo_plain)

lemma named_handleDrop: "okRequest r \<Longrightarrow> allows okRec s (handleDrop ce r s)"
  unfolding handleDrop_def Drop_def
  by (rule withCollection_named) (auto simp: mustValidName_def intro!: allows_finish stepTo_plain)

lemma authRec_named: "authRec rec \<Longrightarrow> okRec rec"
  using metaNames_valid by (auto simp: authRec_def okName_def meta_defs)

lemmas named_auth = allows_mono [OF allows_handleUserCreate authRec_named] allows_mono [OF allows_handleUserUpdate authRec_named]
  allows_mono [OF allows_handleTokenCreate authRec_named] allows_mono [OF allows_handleTokenRevoke authRec_named]

lemma named_route:
  assumes "okRequest r" "buildRoutes cfg p = Some rt"
  shows "allows okRec s (rt_handler rt ce r s)"
proof -
  have "rt \<in> snd ` set dataRoutes \<or> rt \<in> snd ` set authRoutes" using buildRoutes_in [OF assms(2)] by blast
  then show ?thesis
    by (auto simp: dataRoutes_def authRoutes_def mkRoute_def allows_handleCollections allows_handleGet allows_handleHas
        allows_handleCount allows_handleScan allows_handleUsers allows_handleTokens named_auth assms(1)
        named_handleSet named_handleDelete named_handleDrop)
qed

lemma named_dispatch: "okRequest r \<Longrightarrow> allows okRec s (dispatchRoute actor ce r s)"
  unfolding dispatchRoute_def
  by (cases "buildRoutes (srv_cfg s) (rq_path r)") (auto simp: named_route allows_fails allows_reply)

lemma ServeHTTP_named:
  assumes "okRequest r" "ServeHTTP now ce r s = Some (resp, s')"
  shows "stepTo okRec s s'"
proof -
  have "allows okRec s (routeRequest now ce r s)"
    unfolding routeRequest_def using named_dispatch [OF assms(1)] handleHealth_allows
    by (auto simp: allows_fails split: sum.split)
  then show ?thesis
    using assms(2) by (auto simp: ServeHTTP_def allows_def split: handled.splits option.splits)
qed

subsection \<open>A session is a run of the database\<close>

definition sysOf :: "apiServer \<Rightarrow> world \<Rightarrow> (wal_record \<times> nat) list \<Rightarrow> sys" where
  "sysOf s w H = \<lparr>handle = srv_db s, env_world = w, hist = H\<rparr>"

fun okEvent :: "event \<Rightarrow> bool" where
  "okEvent (Request now ce r) \<longleftrightarrow> okRequest r"
| "okEvent Notify \<longleftrightarrow> True"
| "okEvent (Log b) \<longleftrightarrow> True"
| "okEvent Tick \<longleftrightarrow> True"

fun isRequest :: "event \<Rightarrow> bool" where
  "isRequest (Request now ce r) \<longleftrightarrow> True"
| "isRequest Notify \<longleftrightarrow> False"
| "isRequest (Log b) \<longleftrightarrow> False"
| "isRequest Tick \<longleftrightarrow> False"

text \<open>What one event does to the database: nothing, an iteration of the worker, or one write.\<close>

definition eventStep :: "event \<Rightarrow> apiServer \<Rightarrow> world \<Rightarrow> apiServer \<Rightarrow> world \<Rightarrow> (wal_record \<times> nat) list \<Rightarrow> bool" where
  "eventStep ev s w s' w' h \<longleftrightarrow> \<not> closed (srv_db s') \<and> \<not> stopped (srv_db s') \<and>
     (\<forall>H. db_step\<^sup>*\<^sup>* (sysOf s w H) (sysOf s' w' (H @ h))) \<and> (\<forall>x \<in> set h. storable (fst x)) \<and>
     (h = [] \<and> colls (srv_db s') = colls (srv_db s) \<and> (isRequest ev \<longrightarrow> srv_db s' = srv_db s) \<or>
      (\<exists>rec c. h = [(rec, c)] \<and> colls (srv_db s') = colls (applyRec rec (srv_db s)) \<and> commit (srv_db s') = Some c))"

lemma request_step:
  assumes "okRequest r" "ServeHTTP now ce r s = Some (resp, s')" "\<not> closed (srv_db s)" "\<not> stopped (srv_db s)"
  shows "\<exists>h. eventStep (Request now ce r) s w s' w h"
  using ServeHTTP_named [OF assms(1,2)] unfolding stepTo_def
proof (elim conjE disjE exE)
  assume "srv_db s' = srv_db s"
  then show ?thesis using assms(3,4) by (intro exI [of _ "[]"]) (simp add: eventStep_def sysOf_def)
next
  fix rec c assume r: "DB_write rec (srv_db s) = (Inr c, srv_db s')" "recOK rec" "okName (Coll rec)"
  note e = enqueue_fields [OF DB_write_accepted(2) [OF r(1)]]
  have st: "storable rec" using r(2,3) by (simp add: storable_def)
  have "db_step (sysOf s w H) (sysOf s' w (H @ [(rec, c)]))" for H
    using db_step.client_write [of rec "sysOf s w H" c "srv_db s'"] r by (simp add: sysOf_def)
  then show ?thesis
    using e(6,10) assms(4) DB_write_colls [OF r(1)] st by (intro exI [of _ "[(rec, c)]"]) (auto simp: eventStep_def applyRec_only_mem)
qed

lemma worker_step:
  assumes "\<not> closed (srv_db s)" "\<not> stopped (srv_db s)" "sameStore (srv_db s) d'" "\<not> isRequest ev"
    "\<And>H. db_step (sysOf s w H) ((sysOf s w H)\<lparr>handle := d', env_world := w'\<rparr>)"
  shows "eventStep ev s w (s\<lparr>srv_db := d'\<rparr>) w' []"
proof -
  have "db_step (sysOf s w H) (sysOf (s\<lparr>srv_db := d'\<rparr>) w' H)" for H using assms(5) [of H] by (simp add: sysOf_def)
  then show ?thesis using assms(1-4) by (auto simp: eventStep_def sameStore_def)
qed

lemma event_step:
  assumes "okEvent ev" "run_state (handleEvent ev s) w = (s', w')" "\<not> closed (srv_db s)" "\<not> stopped (srv_db s)"
  shows "\<exists>h. eventStep ev s w s' w' h"
proof -
  have quiet: "eventStep ev s w s w []" for ev using assms(3,4) by (simp add: eventStep_def)
  show ?thesis
  proof (cases ev)
    case (Request now ce r)
    show ?thesis
    proof (cases "ServeHTTP now ce r s")
      case (Some x)
      obtain resp s1 where "x = (resp, s1)" by fastforce
      then show ?thesis using request_step [of r now ce s resp s1 w] assms Request Some by (simp add: handleEvent_def)
    qed (use quiet assms(2) Request in \<open>auto simp: handleEvent_def\<close>)
  next
    case Notify
    show ?thesis
    proof (cases "notify (srv_db s)")
      case True
      obtain d w1 where n: "run_state (runNotify (srv_db s)) w = (d, w1)" by fastforce
      have "eventStep ev s w (s\<lparr>srv_db := d\<rparr>) w1 []"
        using returnsD [OF returns_runNotify n] Notify True n assms(4)
        by (intro worker_step assms(3,4) db_step.worker_notify) (simp_all add: notified_def sysOf_def)
      then show ?thesis using assms(2) Notify True n by (auto simp: handleEvent_def)
    qed (use quiet assms(2) Notify in \<open>auto simp: handleEvent_def\<close>)
  next
    case (Log b)
    show ?thesis
    proof (cases "notify (srv_db s)")
      case True
      obtain d w1 where n: "run_state (runLog ((srv_db s)\<lparr>notify := b\<rparr>)) w = (d, w1)" by fastforce
      have "eventStep ev s w (s\<lparr>srv_db := d\<rparr>) w1 []"
        using returnsD [OF returns_runLog n] Log True n assms(4)
        by (intro worker_step assms(3,4) db_step.worker_log [where b = b]) (simp_all add: notified_def sameStore_def sysOf_def)
      then show ?thesis using assms(2) Log True n by (auto simp: handleEvent_def)
    qed (use quiet assms(2) Log in \<open>auto simp: handleEvent_def\<close>)
  next
    case Tick
    obtain d w1 where n: "run_state (runTick (srv_db s)) w = (d, w1)" by fastforce
    have "eventStep ev s w (s\<lparr>srv_db := d\<rparr>) w1 []"
      using returnsD [OF returns_runTick n] Tick n assms(4)
      by (intro worker_step assms(3,4) db_step.worker_tick) (simp_all add: sysOf_def)
    then show ?thesis using assms(2) Tick n by (auto simp: handleEvent_def)
  qed
qed

text \<open>The states of a session.\<close>

definition after :: "event list \<Rightarrow> apiServer \<Rightarrow> world \<Rightarrow> nat \<Rightarrow> apiServer \<times> world" where
  "after evs s w p = run_state (session (take p evs) s) w"

lemma session_append: "run_state (session (xs @ ys) s) w = (case run_state (session xs s) w of (s1, w1) \<Rightarrow> run_state (session ys s1) w1)"
  by (induction xs arbitrary: s w) (auto split: prod.split)

lemma after_snoc:
  "p \<le> length evs \<Longrightarrow> after (evs @ [ev]) s w p = after evs s w p"
  "after (evs @ [ev]) s w (Suc (length evs)) = (case after evs s w (length evs) of (s1, w1) \<Rightarrow> run_state (handleEvent ev s1) w1)"
  by (simp_all add: after_def session_append split: prod.split)

text \<open>The writes of a session, event by event.\<close>

definition traced :: "event list \<Rightarrow> apiServer \<Rightarrow> world \<Rightarrow> (wal_record \<times> nat) list list \<Rightarrow> bool" where
  "traced evs s w hs \<longleftrightarrow> length hs = length evs \<and> (\<forall>y \<in> set (concat hs). storable (fst y)) \<and>
     (\<forall>p \<le> length evs. let x = after evs s w p; H = concat (take p hs) in
        \<not> closed (srv_db (fst x)) \<and> \<not> stopped (srv_db (fst x)) \<and>
        colls (srv_db (fst x)) = collsAt (colls (srv_db s)) (map fst H) \<and>
        (\<forall>H0. db_step\<^sup>*\<^sup>* (sysOf s w H0) (sysOf (fst x) (snd x) (H0 @ H)))) \<and>
     (\<forall>j < length evs. hs ! j = [] \<and> (isRequest (evs ! j) \<longrightarrow> srv_db (fst (after evs s w (Suc j))) = srv_db (fst (after evs s w j))) \<or>
        (\<exists>rec c. hs ! j = [(rec, c)] \<and> commit (srv_db (fst (after evs s w (Suc j)))) = Some c))"

lemma colls_applyRec: "colls (applyRec rec d) = collsAt (colls d) [rec]"
  using colls_applyAll [of "[rec]" d] by simp

lemma session_traced:
  assumes "\<forall>ev \<in> set evs. okEvent ev" "\<not> closed (srv_db s)" "\<not> stopped (srv_db s)"
  shows "\<exists>hs. traced evs s w hs"
  using assms(1)
proof (induction evs rule: rev_induct)
  case Nil
  then show ?case using assms(2,3) by (intro exI [of _ "[]"]) (simp add: traced_def after_def sysOf_def)
next
  case (snoc ev evs)
  then obtain hs where hs: "traced evs s w hs" by auto
  obtain s1 w1 where a: "after evs s w (length evs) = (s1, w1)" by fastforce
  obtain s2 w2 where e: "run_state (handleEvent ev s1) w1 = (s2, w2)" by fastforce
  have end1: "length hs = length evs" "\<not> closed (srv_db s1)" "\<not> stopped (srv_db s1)"
    "colls (srv_db s1) = collsAt (colls (srv_db s)) (map fst (concat hs))"
    "\<And>H0. db_step\<^sup>*\<^sup>* (sysOf s w H0) (sysOf s1 w1 (H0 @ concat hs))"
    using hs a unfolding traced_def by (auto simp: Let_def dest: spec [of _ "length evs"])
  obtain h where h: "eventStep ev s1 w1 s2 w2 h" using event_step [OF _ e end1(2,3)] snoc.prems by auto
  have b: "after (evs @ [ev]) s w (Suc (length evs)) = (s2, w2)" by (simp add: after_snoc a e)
  have "colls (srv_db s2) = collsAt (colls (srv_db s)) (map fst (concat hs @ h))"
    using h end1(4) by (auto simp: eventStep_def collsAt_append colls_applyRec)
  moreover have "db_step\<^sup>*\<^sup>* (sysOf s w H0) (sysOf s2 w2 (H0 @ concat hs @ h))" for H0
  proof -
    have "db_step\<^sup>*\<^sup>* (sysOf s1 w1 (H0 @ concat hs)) (sysOf s2 w2 ((H0 @ concat hs) @ h))" using h unfolding eventStep_def by blast
    with end1(5) [of H0] show ?thesis by simp
  qed
  moreover have "\<forall>y \<in> set (concat hs @ h). storable (fst y)" using hs h by (auto simp: eventStep_def traced_def)
  ultimately have "traced (evs @ [ev]) s w (hs @ [h])"
    using hs h b end1(1) a unfolding traced_def Let_def
    by (auto simp: after_snoc le_Suc_eq less_Suc_eq nth_append eventStep_def)
  then show ?case by blast
qed

text \<open>A sequence of at most one write per event passes through every prefix of its writes.\<close>

lemma chunks:
  assumes "\<forall>h \<in> set hs. length h \<le> 1" "i \<le> length (concat hs)"
  shows "\<exists>p \<le> length hs. concat (take p hs) = take i (concat hs) \<and>
     (\<forall>j < length hs. hs ! j \<noteq> [] \<and> length (concat (take j hs)) < i \<longrightarrow> j < p)"
  using assms
proof (induction hs rule: rev_induct)
  case (snoc h hs)
  show ?case
  proof (cases "i \<le> length (concat hs)")
    case True
    then obtain p where p: "p \<le> length hs" "concat (take p hs) = take i (concat hs)"
      "\<forall>j < length hs. hs ! j \<noteq> [] \<and> length (concat (take j hs)) < i \<longrightarrow> j < p" using snoc by auto
    then show ?thesis using True by (intro exI [of _ p]) (auto simp: less_Suc_eq nth_append)
  next
    case False
    then have "i = length (concat (hs @ [h]))" using snoc.prems by (auto simp: le_Suc_eq)
    then show ?thesis by (intro exI [of _ "Suc (length hs)"]) auto
  qed
qed simp

text \<open>The write of event \<open>j\<close> was answered with success before the end of the session.\<close>

definition acknowledged :: "event list \<Rightarrow> apiServer \<Rightarrow> world \<Rightarrow> nat \<Rightarrow> bool" where
  "acknowledged evs s w j \<longleftrightarrow> j < length evs \<and> isRequest (evs ! j) \<and>
     srv_db (fst (after evs s w (Suc j))) \<noteq> srv_db (fst (after evs s w j)) \<and>
     commit_wait (the (commit (srv_db (fst (after evs s w (Suc j)))))) (srv_db (fst (after evs s w (length evs)))) = Some None"

lemma acknowledged_acked:
  assumes "traced evs s w hs" "acknowledged evs s w j" "after evs s w (length evs) = (s', w')"
  shows "hs ! j \<noteq> []" "acked (sysOf s' w' (concat hs)) (length (concat (take j hs)))"
proof -
  have j: "j < length evs" "length hs = length evs" "isRequest (evs ! j)"
    "srv_db (fst (after evs s w (Suc j))) \<noteq> srv_db (fst (after evs s w j))"
    using assms(1,2) by (auto simp: acknowledged_def traced_def)
  then obtain rec c where h: "hs ! j = [(rec, c)]" "commit (srv_db (fst (after evs s w (Suc j)))) = Some c"
    using assms(1) unfolding traced_def by blast
  then show "hs ! j \<noteq> []" by simp
  have "concat hs = concat (take j hs) @ hs ! j @ concat (drop (Suc j) hs)"
    using j(1,2) by (metis concat.simps(2) concat_append id_take_nth_drop)
  then show "acked (sysOf s' w' (concat hs)) (length (concat (take j hs)))"
    using assms(2,3) h by (simp add: acknowledged_def acked_def sysOf_def nth_append)
qed

text \<open>
  Request \<open>j\<close> changed the database and was answered with success, and the outcome its handler saw
  is the one the worker reported.
\<close>

definition succeeded :: "event list \<Rightarrow> apiServer \<Rightarrow> world \<Rightarrow> nat \<Rightarrow> bool" where
  "succeeded evs s w j \<longleftrightarrow> j < length evs \<and> (let sj = fst (after evs s w j) in
     \<exists>now ce r resp s'. evs ! j = Request now ce r \<and> ServeHTTP now ce r sj = Some (resp, s') \<and>
       rs_status resp < 300 \<and> srv_db s' \<noteq> srv_db sj \<and>
       (\<forall>c. commit (srv_db s') = Some c \<longrightarrow> commit_wait c (srv_db (fst (after evs s w (length evs)))) = Some (ce_outcome ce c)))"

lemma after_Suc: "j < length evs \<Longrightarrow> after evs s w (Suc j) = (case after evs s w j of (s1, w1) \<Rightarrow> run_state (handleEvent (evs ! j) s1) w1)"
  by (simp add: after_def take_Suc_conv_app_nth session_append split: prod.split)

lemma succeeded_acknowledged: "succeeded evs s w j \<Longrightarrow> acknowledged evs s w j"
proof -
  assume su: "succeeded evs s w j"
  obtain sj wj where sj: "after evs s w j = (sj, wj)" by fastforce
  obtain now ce r resp s' where x: "j < length evs" "evs ! j = Request now ce r" "ServeHTTP now ce r sj = Some (resp, s')"
    "rs_status resp < 300" "srv_db s' \<noteq> srv_db sj"
    "\<And>c. commit (srv_db s') = Some c \<Longrightarrow> commit_wait c (srv_db (fst (after evs s w (length evs)))) = Some (ce_outcome ce c)"
    using su sj by (auto simp: succeeded_def Let_def)
  have n: "after evs s w (Suc j) = (s', wj)" using after_Suc [OF x(1), of s w] sj x(2,3) by (simp add: handleEvent_def)
  obtain c where "commit (srv_db s') = Some c" "ce_outcome ce c = None"
    using ServeHTTP_told [OF x(3)] x(4,5) by (auto simp: told_def)
  then show ?thesis using x n sj by (simp add: acknowledged_def)
qed

lemma session_runsTo:
  assumes "runsTo dr fl k d (sysOf s w H)" "\<not> closed (srv_db s)" "\<not> stopped (srv_db s)" "\<forall>ev \<in> set evs. okEvent ev"
    "run_state (session evs s) w = (s', w')"
  shows "\<exists>H'. runsTo dr fl k d (sysOf s' w' (H @ H')) \<and> (\<forall>r \<in> set (map fst H'). storable r) \<and>
     colls (srv_db s') = colls (applyAll (map fst H') (srv_db s)) \<and>
     \<not> closed (srv_db s') \<and> \<not> stopped (srv_db s')"
proof -
  obtain hs where hs: "traced evs s w hs" using session_traced [OF assms(4,2,3)] by blast
  have e: "after evs s w (length evs) = (s', w')" using assms(5) by (simp add: after_def)
  have t: "\<not> closed (srv_db s')" "\<not> stopped (srv_db s')" "colls (srv_db s') = collsAt (colls (srv_db s)) (map fst (concat hs))"
    "db_step\<^sup>*\<^sup>* (sysOf s w H) (sysOf s' w' (H @ concat hs))"
    using hs e unfolding traced_def by (auto simp: Let_def dest: spec [of _ "length evs"])
  have "runsTo dr fl k d (sysOf s' w' (H @ concat hs))"
    using assms(1) t(4) unfolding runsTo_def by (meson rtranclp_trans)
  moreover have "\<forall>r \<in> set (map fst (concat hs)). storable r" using hs by (simp add: traced_def)
  ultimately show ?thesis using t(1-3) colls_applyAll [of "map fst (concat hs)" "srv_db s"] by (intro exI [of _ "concat hs"]) auto
qed

subsection \<open>Properties\<close>

text \<open>
  C11: The server keeps to the protocol of the database.  From every reachable state of an open
  database, a session of the server, requests and worker iterations in any order, is a sequence of
  steps of the database, whose accepted records only grow and are all storable.  So everything
  proved about runs of the database holds for the server.  No request names a collection below
  \<open>lock/\<close> (\<open>okEvent\<close>).
\<close>

theorem session_refines:
  assumes "runsTo dr fl k d (sysOf s w H)" "\<not> closed (srv_db s)" "\<not> stopped (srv_db s)" "\<forall>ev \<in> set evs. okEvent ev"
    "run_state (session evs s) w = (s', w')"
  shows "\<exists>H'. runsTo dr fl k d (sysOf s' w' (H @ H')) \<and> (\<forall>r \<in> set (map fst H'). storable r) \<and>
     colls (srv_db s') = colls (applyAll (map fst H') (srv_db s)) \<and>
     \<not> closed (srv_db s') \<and> \<not> stopped (srv_db s')"
  by (rule session_runsTo [OF assms])

text \<open>
  C2: Durability of the server.  The power fails after any session of an opened server, in which
  any system call may fail.  When the directory is opened again, every document, of the clients or
  of the authentication store, reads as the server would have answered at some moment of the
  session, and not before the last request that changed the database and was answered with success:
  what a client was told is stored is never undone.  No request names a collection below
  \<open>lock/\<close>, and the records written in the earlier life of the directory are storable.
\<close>

theorem server_durable:
  assumes "list_all cleanComp dr" "poweredOff dr R k" "\<forall>r \<in> R. storable r" "booted True k w0"
    and "run_state (Open dr os) w0 = (Inr d, w)"
    "\<forall>ev \<in> set evs. okEvent ev" "crashOf (disk (snd (after evs (newAPIServer d cfg) w (length evs)))) k'"
    and "booted True k' w1" "run_state (Open dr os') w1 = (Inr d', w1')"
  shows "\<exists>p \<le> length evs. (\<forall>j. succeeded evs (newAPIServer d cfg) w j \<longrightarrow> j < p) \<and>
     coll_Get cd n i d' = coll_Get cd n i (srv_db (fst (after evs (newAPIServer d cfg) w p)))"
proof -
  let ?s = "newAPIServer d cfg"
  obtain V where V: "holds dr V k" using poweredOff_holds [OF assms(1-3)] by blast
  note O = Open_opened [OF assms(1) V assms(4,5)]
  have db: "srv_db ?s = d" "\<not> closed (srv_db ?s)" "\<not> stopped (srv_db ?s)" using O(4,5) by (simp_all add: newAPIServer_def)
  obtain hs where hs: "traced evs ?s w hs" using session_traced [OF assms(6) db(2,3)] by blast
  obtain s' w' where e: "after evs ?s w (length evs) = (s', w')" by fastforce
  have "db_step\<^sup>*\<^sup>* (sysOf ?s w ([] :: (wal_record \<times> nat) list)) (sysOf s' w' (concat hs))"
    using hs e unfolding traced_def Let_def by (metis append_Nil fst_conv le_refl snd_conv take_all)
  then have run: "runsTo dr True k d (sysOf s' w' (concat hs))"
    using assms(4,5) unfolding runsTo_def start_def sysOf_def db(1) by blast
  have st: "\<forall>y \<in> set (concat hs). storable (fst y)" using hs by (simp add: traced_def)
  then have safe: "safeOff dr k" "safeRun dr True k d (sysOf s' w' (concat hs))"
    using assms(2,3) run by (auto simp: safeOff_def safeRun_def list_all_iff sysOf_def)
  have "recovers (sysOf s' w' (concat hs)) (colls d) (colls d')"
    by (rule reopened [OF assms(1) safe _ assms(8,9)]) (use assms(7) e in \<open>simp add: sysOf_def\<close>)
  then obtain q where q: "q \<le> length (concat hs)" "\<forall>j. acked (sysOf s' w' (concat hs)) j \<longrightarrow> j < q"
    "cell (colls d') (n, Some i) = cell (collsAt (colls d) (map fst (take q (concat hs)))) (n, Some i)"
    unfolding recovers_def by (metis (no_types, lifting) sys.select_convs(3) sysOf_def take_map)
  have "\<forall>h \<in> set hs. length h \<le> 1"
    using hs unfolding traced_def by (auto simp: set_conv_nth)
  then obtain p where p: "p \<le> length evs" "concat (take p hs) = take q (concat hs)"
    "\<And>j. j < length evs \<Longrightarrow> hs ! j \<noteq> [] \<Longrightarrow> length (concat (take j hs)) < q \<Longrightarrow> j < p"
    using chunks [OF _ q(1)] hs unfolding traced_def by metis
  have "j < p" if "succeeded evs ?s w j" for j
    using acknowledged_acked [OF hs succeeded_acknowledged [OF that] e] p(3) q(2) that by (simp add: succeeded_def)
  moreover have "colls (srv_db (fst (after evs ?s w p))) = collsAt (colls d) (map fst (take q (concat hs)))"
    "\<not> closed (srv_db (fst (after evs ?s w p)))"
    using hs p(1,2) db(1) unfolding traced_def by (auto simp: Let_def)
  moreover have "\<not> closed d'"
  proof -
    obtain V' where "holds dr V' k'"
      using run_crash [OF assms(1) V safe(2), of k'] assms(7) e by (auto simp: sysOf_def)
    then show ?thesis using Open_opened(4) [OF assms(1) _ assms(8,9)] by blast
  qed
  ultimately show ?thesis using p(1) q(3) by (auto simp: coll_Get_def DB_read_cell)
qed

subsection \<open>A concrete session\<close>

definition demoEvents :: "event list" where
  "demoEvents = [Request demoTime demoEnv deleteRequest, Notify]"

lemma demoEvents_ok: "\<forall>ev \<in> set demoEvents. okEvent ev"
proof -
  let ?flds = "fmupd ''id'' (quote ''x'') (fmupd ''collection'' (quote ''c'') fmempty)"
  have "flds = ?flds" if "readObject deleteRequest mx al rq = Inr flds" for mx al rq flds
    using readObject_facts [OF that] readObject_facts [OF demo_readObject] by (auto simp: deleteRequest_def demoRequest_def)
  moreover have "stringField ?flds ''collection'' = Inr ''c''"
    by (simp add: stringField_def isJSONNull_def trimSpace_def isSpace_def quote_def quoteBody.simps escapeASCII_def
        unquote_def unquoteBody.simps)
  ultimately show ?thesis by (auto simp: demoEvents_def okRequest_def)
qed

lemma demo_served:
  assumes "\<not> closed d"
  obtains c d' where "DB_write \<lparr>Op = opDel, Coll = ''c'', ID = ''x'', Doc = []\<rparr> d = (Inr c, d')"
    "ServeHTTP demoTime demoEnv deleteRequest (newAPIServer d demoCfg) = Some (noStore writeNoContent, (newAPIServer d demoCfg)\<lparr>srv_db := d'\<rparr>)"
proof -
  let ?r = "\<lparr>Op = opDel, Coll = ''c'', ID = ''x'', Doc = []\<rparr>" and ?s = "newAPIServer d demoCfg"
  obtain line where "marshalRecord ?r = Inr line" using marshalRecord_canon [of ?r] by auto
  then obtain c d' where w: "DB_write ?r d = (Inr c, d')" using assms by (fastforce simp: DB_write_def split: prod.split)
  have "validName ''c''" by (simp add: validName_def maxNameLen_def nameChar_def)
  moreover have "withDocument [''collection'', ''id''] k deleteRequest ?s =
      k ''c'' ''x'' (fmupd ''id'' (quote ''x'') (fmupd ''collection'' (quote ''c'') fmempty))" for k
    by (rule demo_withDocument [where d = d and b = True and p = "''/v1/delete''" and a = "[]"])
       (simp_all add: deleteRequest_def demoCfg_def demoRequest_def)
  ultimately have "handleDelete demoEnv deleteRequest ?s = Reply writeNoContent (?s\<lparr>srv_db := d'\<rparr>)"
    using w by (simp add: handleDelete_def onCollection_ok finish_def waited_def coll_Delete_def demoEnv_def newAPIServer_def)
  moreover have "routeRequest demoTime demoEnv deleteRequest ?s = handleDelete demoEnv deleteRequest ?s"
    by (simp add: routeRequest_def deleteRequest_def demoRequest_def newAPIServer_def demoCfg_def dispatchRoute_def
        buildRoutes_def dataRoutes_def mkRoute_def)
  ultimately show thesis using that w by (simp add: ServeHTTP_def)
qed

text \<open>The delete request is answered, the worker writes it, and nothing fails.\<close>

lemma demo_session:
  obtains d w s' w' where "run_state (Open demoDir []) (demoWorld emptyDisk) = (Inr d, w)"
    "\<not> closed d" "\<not> stopped d" "runsTo demoDir False emptyDisk d (sysOf (newAPIServer d demoCfg) w [])"
    "run_state (session demoEvents (newAPIServer d demoCfg)) w = (s', w')" "succeeded demoEvents (newAPIServer d demoCfg) w 0"
proof -
  obtain d w where o: "run_state (Open demoDir []) (demoWorld emptyDisk) = (Inr d, w)" "safeRun demoDir False emptyDisk d (start d w)"
    "\<not> closed d" "\<not> stopped d" "colls d = fmempty" using demo_open by metis
  let ?s = "newAPIServer d demoCfg"
  have r: "runsTo demoDir False emptyDisk d (sysOf ?s w [])" using o(2) by (simp add: safeRun_def start_def sysOf_def newAPIServer_def)
  obtain c d1 where q: "DB_write \<lparr>Op = opDel, Coll = ''c'', ID = ''x'', Doc = []\<rparr> d = (Inr c, d1)"
    "ServeHTTP demoTime demoEnv deleteRequest ?s = Some (noStore writeNoContent, ?s\<lparr>srv_db := d1\<rparr>)" using demo_served [OF o(3)] .
  note e = enqueue_fields [OF DB_write_accepted(2) [OF q(1)]]
  obtain d2 w2 where n: "run_state (runNotify d1) w = (d2, w2)" by fastforce
  have a: "after demoEvents ?s w 0 = (?s, w)" "after demoEvents ?s w 1 = (?s\<lparr>srv_db := d1\<rparr>, w)" 
    "after demoEvents ?s w 2 = (?s\<lparr>srv_db := d2\<rparr>, w2)"
    using e(9) n q(2) by (simp_all add: after_def demoEvents_def handleEvent_def numeral_2_eq_2)
  then have x: "run_state (session demoEvents ?s) w = (?s\<lparr>srv_db := d2\<rparr>, w2)" by (simp add: after_def demoEvents_def)
  obtain H' where "safeRun demoDir False emptyDisk d (sysOf (?s\<lparr>srv_db := d2\<rparr>) w2 ([] @ H'))"
    using session_runsTo [OF r _ _ demoEvents_ok x] o(3,4) by (auto simp: newAPIServer_def safeRun_def list_all_iff sysOf_def)
  then obtain lg where "dbInv demoDir lg fmempty False (sysOf (?s\<lparr>srv_db := d2\<rparr>) w2 ([] @ H'))"
    using safeRun_inv(2) [OF demoDir_ok holds_empty] by blast
  then have "commit_wait c d2 = Some None"
    using dbInv_faultless(2) returnsD [OF returns_runNotify n] e(6) by (fastforce simp: notified_def sysOf_def)
  moreover have "d1 \<noteq> d" using e(5) by (auto simp: applyRec_only_mem)
  ultimately have "succeeded demoEvents ?s w 0"
    using a e(6) q(2) by (simp add: succeeded_def Let_def) (simp add: demoEvents_def newAPIServer_def demoEnv_def numeral_2_eq_2)
  then show thesis using that [OF o(1,3,4) r x] by blast
qed

text \<open>Witness for C11: the session of the delete request.\<close>

theorem session_refines_witness:
  "\<exists>d w s' w' H'. run_state (Open demoDir []) (demoWorld emptyDisk) = (Inr d, w) \<and>
     run_state (session demoEvents (newAPIServer d demoCfg)) w = (s', w') \<and>
     runsTo demoDir False emptyDisk d (sysOf s' w' H') \<and> colls (srv_db s') = colls (applyAll (map fst H') d)"
proof -
  obtain d w s' w' where d: "run_state (Open demoDir []) (demoWorld emptyDisk) = (Inr d, w)"
    "\<not> closed d" "\<not> stopped d" "runsTo demoDir False emptyDisk d (sysOf (newAPIServer d demoCfg) w [])"
    "run_state (session demoEvents (newAPIServer d demoCfg)) w = (s', w')" using demo_session by metis
  show ?thesis using session_refines [OF d(4) _ _ demoEvents_ok d(5)] d by (auto simp: newAPIServer_def)
qed

text \<open>Witness for C2: after the power loss the delete that was answered with success is still there.\<close>

theorem server_durable_witness:
  "\<exists>d w k' d' w1'. run_state (Open demoDir []) (demoWorld emptyDisk) = (Inr d, w) \<and>
     succeeded demoEvents (newAPIServer d demoCfg) w 0 \<and> run_state (Open demoDir []) (demoWorld k') = (Inr d', w1') \<and>
     (\<exists>p \<le> 2. 0 < p \<and>
       coll_Get rawCodec ''c'' ''x'' d' = coll_Get rawCodec ''c'' ''x'' (srv_db (fst (after demoEvents (newAPIServer d demoCfg) w p))))"
proof -
  obtain d w s' w' where d: "run_state (Open demoDir []) (demoWorld emptyDisk) = (Inr d, w)"
    "\<not> closed d" "\<not> stopped d" "runsTo demoDir False emptyDisk d (sysOf (newAPIServer d demoCfg) w [])"
    "run_state (session demoEvents (newAPIServer d demoCfg)) w = (s', w')" "succeeded demoEvents (newAPIServer d demoCfg) w 0"
    using demo_session by metis
  obtain H' where "safeRun demoDir False emptyDisk d (sysOf s' w' ([] @ H'))"
    using session_runsTo [OF d(4) _ _ demoEvents_ok d(5)] d(2,3) by (auto simp: newAPIServer_def safeRun_def list_all_iff sysOf_def)
  from safeRun_crash [OF demoDir_ok holds_empty this]
  obtain k' d' w1' where k: "crashOf (disk w') k'" "run_state (Open demoDir []) (demoWorld k') = (Inr d', w1')"
    by (auto simp: sysOf_def)
  have c: "crashOf (disk (snd (after demoEvents (newAPIServer d demoCfg) w (length demoEvents)))) k'"
    using k(1) d(5) by (simp add: after_def)
  obtain p where "p \<le> length demoEvents" "\<forall>j. succeeded demoEvents (newAPIServer d demoCfg) w j \<longrightarrow> j < p"
    "coll_Get rawCodec ''c'' ''x'' d' = coll_Get rawCodec ''c'' ''x'' (srv_db (fst (after demoEvents (newAPIServer d demoCfg) w p)))"
    using server_durable [OF demoDir_ok poweredOff.fresh _ demoWorld_booted d(1) demoEvents_ok c demoWorld_booted k(2),
        of rawCodec "''c''" "''x''"] by auto
  moreover have "length demoEvents = 2" by (simp add: demoEvents_def)
  ultimately show ?thesis using d(1,6) k(2) by metis
qed

end
