(* ===== verification/Release.thy ===== *)
theory Release
  imports Server_Facts Promises Locking Worker
begin

text \<open>
  The directory lock over the life of a process: however \<open>medb\<close> ends, by a signal, a failed
  start, a storage failure or a wrong command line, it holds no lock afterwards.
\<close>

subsection \<open>The directory of a handle\<close>

definition sameDir :: "db \<Rightarrow> db \<Rightarrow> bool" where
  "sameDir d d' \<longleftrightarrow> dir d' = dir d \<and> closed d' = closed d"

definition opensAs :: "db \<Rightarrow> error + db \<Rightarrow> bool" where
  "opensAs d r \<longleftrightarrow> (case r of Inl _ \<Rightarrow> True | Inr d' \<Rightarrow> sameDir d d')"

lemma sameDir_simps [simp]: "sameDir d d" "sameDir d (d'\<lparr>logSize := z\<rparr>) = sameDir d d'" "sameDir (d\<lparr>colls := cs\<rparr>) d' = sameDir d d'"
  "sameDir (applyRec r d) d' = sameDir d d'" "sameDir d (applyRec r d)"
  by (auto simp: sameDir_def applyRec_def split: option.split)

lemma opensAs_simps [simp]: "opensAs d (Inl e)" "opensAs d (Inr d') = sameDir d d'" "opensAs (d\<lparr>colls := cs\<rparr>) = opensAs d"
  by (auto simp: opensAs_def fun_eq_iff split: sum.split)

lemma sameDir_trans: "sameDir d d' \<Longrightarrow> sameDir d' d'' \<Longrightarrow> sameDir d d''"
  by (simp add: sameDir_def)

lemma sameStore_dir: "sameStore d d' \<Longrightarrow> sameDir d d'"
  by (simp add: sameStore_def sameDir_def)

lemma loadFiles_dir: "returns (opensAs d) (loadFiles es d)"
proof (induction es arbitrary: d)
  case (Cons pn es)
  obtain p n where pn: "pn = (p, n)" by fastforce
  have IH: "returns (opensAs d) (loadFiles es (d\<lparr>colls := cs\<rparr>))" for cs using Cons [of "d\<lparr>colls := cs\<rparr>"] by simp
  show ?case unfolding pn loadFiles.simps Let_def by (intro returning IH Cons) simp_all
qed (simp add: returns_def)

lemma replayLoop_dir: "replayLoop k data sz (d::db) = Inr (n, d') \<Longrightarrow> sameDir d d'"
proof (induction k data sz d arbitrary: n d' rule: replayLoop.induct)
  case (1 k data sz d)
  then show ?case by (subst (asm) (2) replayLoop.simps) (auto split: option.splits sum.splits if_splits)
qed

lemma replayLog_dir: "returns (opensAs d) (replayLog p d)"
proof -
  have loop: "returns (opensAs d) (case replayLoop 1 data 0 d of Inl e \<Rightarrow> ret (Inl e) | Inr (sz, d1) \<Rightarrow> f sz d1)"
    if "\<And>sz d1. sameDir d d1 \<Longrightarrow> returns (opensAs d) (f sz d1)" for data f
    using that replayLoop_dir [of 1 data 0 d] by (auto simp: returns_ret split: sum.split)
  show ?thesis unfolding replayLog_def
    by (rule returns_bind, rule returns_sum, simp add: returns_ret, rule loop, intro returning) simp_all
qed

lemma writeSnapshot_dir: "returns (\<lambda>r. sameDir d (snd r)) (writeSnapshot e d)"
  using returns_writeSnapshot [of d e] by (auto simp: returns_def snapped_def sameStore_dir)

lemma load_dir: "returns (opensAs d) (load d)"
  unfolding load_def by (intro returning loadFiles_dir) simp

lemma opensAs_trans: "opensAs d (Inr d1) \<Longrightarrow> returns (opensAs d1) m \<Longrightarrow> returns (opensAs d) m"
  by (auto simp: returns_def opensAs_def sameDir_def split: sum.splits)

lemma abandon_dir: "returns (opensAs d) (abandon fl e)"
  unfolding abandon_def by (intro returning) simp

lemma openRecover_dir: "returns (opensAs d) (openRecover fl lp d)"
  unfolding openRecover_def
proof (rule returns_seq [OF load_dir])
  fix l assume l: "opensAs d l"
  have snap: "returns (opensAs d2) (writeSnapshot None d2 \<bind> (\<lambda>s. case s of (Some e, _) \<Rightarrow> abandon fl e | (None, d3) \<Rightarrow> ret (Inr d3)))" for d2
    by (rule returns_seq [OF writeSnapshot_dir]) (auto simp: abandon_dir returns_ret split: prod.split option.split)
  have replay: "returns (opensAs d1) (replayLog lp d1 \<bind> (\<lambda>r. case r of Inl e \<Rightarrow> abandon fl e | Inr d2 \<Rightarrow>
      writeSnapshot None d2 \<bind> (\<lambda>s. case s of (Some e, _) \<Rightarrow> abandon fl e | (None, d3) \<Rightarrow> ret (Inr d3))))" for d1
    by (rule returns_seq [OF replayLog_dir]) (auto simp: abandon_dir intro: opensAs_trans [OF _ snap] split: sum.split)
  show "returns (opensAs d) (case l of Inl e \<Rightarrow> abandon fl e | Inr d1 \<Rightarrow> replayLog lp d1 \<bind> (\<lambda>r. case r of Inl e \<Rightarrow> abandon fl e
      | Inr d2 \<Rightarrow> writeSnapshot None d2 \<bind> (\<lambda>s. case s of (Some e, _) \<Rightarrow> abandon fl e | (None, d3) \<Rightarrow> ret (Inr d3))))"
    using l by (cases l) (auto simp: abandon_dir intro: opensAs_trans [OF _ replay])
qed

text \<open>A handle on the directory \<open>dr\<close> that is not closed.\<close>

definition openAt :: "path \<Rightarrow> db \<Rightarrow> bool" where
  "openAt dr d \<longleftrightarrow> dir d = dr \<and> \<not> closed d"

lemma openAt_sameDir: "openAt dr d \<Longrightarrow> sameDir d d' \<Longrightarrow> openAt dr d'"
  by (simp add: openAt_def sameDir_def)

lemma Open_dir: "returns (\<lambda>r. case r of Inl _ \<Rightarrow> True | Inr d \<Rightarrow> openAt dr d) (Open dr os)"
proof -
  have "returns (\<lambda>r. case r of Inl _ \<Rightarrow> True | Inr d \<Rightarrow> openAt dr d) (openRecover fl lp (newDB dr o' i))" for fl lp o' i
    using openRecover_dir [of "newDB dr o' i" fl lp] by (auto simp: returns_def opensAs_def sameDir_def openAt_def newDB_def split: sum.splits)
  then show ?thesis unfolding Open_def Let_def openLocked_def by (intro returning) simp_all
qed

subsection \<open>Closing\<close>

abbreviation lockOf :: "path \<Rightarrow> path" where
  "lockOf dr \<equiv> dr @ [lockName]"

definition unlocks :: "path \<Rightarrow> path fset \<Rightarrow> 'a \<Rightarrow> path fset \<Rightarrow> bool" where
  "unlocks dr h r h' \<longleftrightarrow> h' = h |-| {|lockOf dr|}"

lemma lockRel_seq:
  assumes "lockFree m" "returns Q m" "\<And>a. Q a \<Longrightarrow> lockRel R (f a)"
  shows "lockRel R (State_Monad.bind m f)"
  unfolding lockRel_def
proof
  fix w
  obtain a w1 where m: "run_state m w = (a, w1)" by fastforce
  have "held w1 = held w" "Q a" using lockFree_held [OF assms(1) m] returnsD [OF assms(2) m] by simp_all
  moreover have "case run_state (f a) w1 of (b, w2) \<Rightarrow> R (held w1) b (held w2)" using assms(3) \<open>Q a\<close> by (simp add: lockRel_def)
  ultimately show "case run_state (State_Monad.bind m f) w of (a, w') \<Rightarrow> R (held w) a (held w')" using m by simp
qed

lemma lockFree_runStop [lock_free]: "lockFree (runStop d)"
  and lockFree_runNotify [lock_free]: "lockFree (runNotify d)"
  and lockFree_runLog [lock_free]: "lockFree (runLog d)"
  and lockFree_runTick [lock_free]: "lockFree (runTick d)"
  unfolding runStop_def runNotify_def runLog_def runTick_def by (intro lock_free)+

lemma runStop_dir: "returns (\<lambda>d'. dir d' = dir d) (runStop d)"
  unfolding runStop_def
proof (rule returns_seq [OF returns_writeLog])
  fix x assume x: "answered d x"
  obtain e d1 where ed: "x = (e, d1)" by fastforce
  show "returns (\<lambda>d'. dir d' = dir d) (case x of (e, d1) \<Rightarrow> writeSnapshot e d1 \<bind>
      (\<lambda>y. case y of (e', d2) \<Rightarrow> ret (d2\<lparr>runErr := e, failed := e', stopped := True\<rparr>)))"
    unfolding ed prod.case
    by (rule returns_seq [OF returns_writeSnapshot]) (use x ed in \<open>auto simp: returns_def snapped_def answered_def sameStore_def\<close>)
qed

lemma Close_end_unlocks: "dir d = dr \<Longrightarrow> lockRel (unlocks dr) (Close_end d)"
  unfolding Close_end_def Let_def
  by (rule lockRel_bind [OF lockFree_sys(8)]) (simp add: lockRel_def unlocks_def sysUnlock_def)

lemma Close_unlocks: "openAt dr d \<Longrightarrow> lockRel (unlocks dr) (Close d)"
  unfolding Close_def Close_begin_def
  by (auto simp: openAt_def intro!: lockRel_seq [OF lockFree_runStop runStop_dir] Close_end_unlocks)

subsection \<open>Between opening and closing\<close>

lemma DB_write_dir: "DB_write rec d = (r, d') \<Longrightarrow> sameDir d d'"
  by (auto simp: DB_write_def enqueue_def Let_def sameDir_def applyRec_def split: sum.splits if_splits option.splits)

lemma coll_Set_dir: "sameDir d (snd (coll_Set cd n i x d))"
  by (auto simp: coll_Set_def dest: DB_write_dir split: sum.split option.split) (metis DB_write_dir prod.collapse)

lemma waited_dir: "waited f (coll_Set cd n i x d) = (e, d') \<Longrightarrow> sameDir d d'"
  using coll_Set_dir [of d cd n i x] by (auto simp: waited_def split: prod.splits sum.splits)

lemma initTokenRecord_dir: "initTokenRecord out clock rnd tid d = (r, d') \<Longrightarrow> sameDir d d'"
  by (auto simp: initTokenRecord_def Let_def dest: waited_dir split: sum.splits if_splits option.splits prod.splits)

lemma initUserRecord_dir: "initUserRecord out clock name uid d = (r, d') \<Longrightarrow> sameDir d d'"
  by (auto simp: initUserRecord_def Let_def dest: waited_dir split: sum.splits if_splits option.splits prod.splits)

lemma initializeAuth_dir: "initializeAuth out clock rnd getenv readFile d = (r, d') \<Longrightarrow> sameDir d d'"
  unfolding initializeAuth_def Let_def
  by (auto dest!: initTokenRecord_dir initUserRecord_dir waited_dir intro: sameDir_trans
      split: sum.splits if_splits option.splits prod.splits bool.splits)

lemma prepareAuthentication_dir: "prepareAuthentication out clock rnd cfg getenv readFile d = (r, d') \<Longrightarrow> sameDir d d'"
  by (auto simp: prepareAuthentication_def dest: initializeAuth_dir split: if_splits)

lemma ServeHTTP_dir: "ServeHTTP now ce r s = Some (resp, s') \<Longrightarrow> sameDir (srv_db s) (srv_db s')"
  using ServeHTTP_stepTo [of now ce r s resp s'] by (auto simp: stepTo_def dest: DB_write_dir)

lemma lockFree_handleEvent [lock_free]: "lockFree (handleEvent ev s)"
  unfolding handleEvent_def by (cases ev) (auto intro!: lock_free)

lemma handleEvent_dir: "returns (\<lambda>s'. sameDir (srv_db s) (srv_db s')) (handleEvent ev s)"
proof (cases ev)
  case (Request now ce r)
  then show ?thesis by (auto simp: handleEvent_def returns_def dest: ServeHTTP_dir split: option.split)
next
  case Notify
  have "returns (\<lambda>s'. sameDir (srv_db s) (srv_db s')) (runNotify (srv_db s) \<bind> (\<lambda>d. ret (s\<lparr>srv_db := d\<rparr>)))"
    by (rule returns_seq [OF returns_runNotify]) (simp add: returns_ret notified_def sameStore_dir)
  then show ?thesis using Notify by (simp add: handleEvent_def returns_ret)
next
  case (Log b)
  have "returns (\<lambda>s'. sameDir (srv_db s) (srv_db s')) (runLog ((srv_db s)\<lparr>notify := b\<rparr>) \<bind> (\<lambda>d. ret (s\<lparr>srv_db := d\<rparr>)))"
    by (rule returns_seq [OF returns_runLog]) (auto simp: returns_ret notified_def sameStore_def sameDir_def)
  then show ?thesis using Log by (simp add: handleEvent_def returns_ret)
next
  case Tick
  have "returns (\<lambda>s'. sameDir (srv_db s) (srv_db s')) (runTick (srv_db s) \<bind> (\<lambda>d. ret (s\<lparr>srv_db := d\<rparr>)))"
    by (rule returns_seq [OF returns_runTick]) (simp add: returns_ret sameStore_dir)
  then show ?thesis using Tick by (simp add: handleEvent_def)
qed

lemma lockFree_session [lock_free]: "lockFree (session evs s)"
  by (induction evs arbitrary: s) (auto intro!: lock_free)

lemma session_open: "openAt dr (srv_db s) \<Longrightarrow> returns (\<lambda>s'. openAt dr (srv_db s')) (session evs s)"
proof (induction evs arbitrary: s)
  case (Cons ev evs)
  show ?case unfolding session.simps
    by (rule returns_seq [OF handleEvent_dir], rule Cons.IH, rule openAt_sameDir [OF Cons.prems])
qed (simp add: returns_ret)

subsection \<open>The commands\<close>

text \<open>What a command that may still be running has done to the lock.\<close>

definition ends :: "path \<Rightarrow> path fset \<Rightarrow> 'a option \<Rightarrow> path fset \<Rightarrow> bool" where
  "ends dr h r h' \<longleftrightarrow> (r \<noteq> None \<longrightarrow> h' = h |-| {|lockOf dr|})"

lemma unlocks_then:
  assumes "lockRel (unlocks dr) m"
  shows "lockRel (ends dr) (m \<bind> (\<lambda>a. ret (f a)))"
  unfolding lockRel_def
proof
  fix w
  obtain a w1 where m: "run_state m w = (a, w1)" by fastforce
  then show "case run_state (m \<bind> (\<lambda>a. ret (f a))) w of (r, w') \<Rightarrow> ends dr (held w) r (held w')"
    using lockRelD [OF assms m] by (simp add: ends_def unlocks_def)
qed

lemma closeWith_ends: "openAt dr d \<Longrightarrow> lockRel (ends dr) (closeWith err d)"
  unfolding closeWith_def by (rule unlocks_then [OF Close_unlocks])

lemma stopServer_ends:
  assumes "openAt dr (srv_db s)"
  shows "lockRel (ends dr) (stopServer sv t s)"
proof -
  have "returns (\<lambda>s'. openAt dr (srv_db s')) (session (sv_draining sv) (s\<lparr>srv_shuttingDown := True\<rparr>))"
    by (rule session_open) (simp add: assms)
  then show ?thesis unfolding stopServer_def Let_def
    by (rule lockRel_seq [OF lockFree_session]) (rule unlocks_then [OF Close_unlocks])
qed

lemma ends_None: "lockRel (ends dr) (ret None)"
  by (simp add: lockRel_def ends_def)

lemma serveOpened_ends:
  assumes "openAt dr d"
  shows "lockRel (ends dr) (serveOpened sv cfg getenv d)"
proof -
  obtain r d1 where p: "prepareAuthentication (sv_outcome sv) (sv_clock sv) (sv_rndID sv) cfg getenv (sv_readFile sv) d = (r, d1)"
    by fastforce
  have d1: "openAt dr d1" by (rule openAt_sameDir [OF assms prepareAuthentication_dir [OF p]])
  then have "returns (\<lambda>s'. openAt dr (srv_db s')) (session (sv_events sv) (newAPIServer d1 cfg))"
    by (intro session_open) (simp add: newAPIServer_def)
  then have "lockRel (ends dr) (session (sv_events sv) (newAPIServer d1 cfg) \<bind> (\<lambda>s. case awaitStop (sv_cause sv) s of
      None \<Rightarrow> ret None | Some t \<Rightarrow> stopServer sv t s))"
    by (rule lockRel_seq [OF lockFree_session]) (auto simp: ends_None stopServer_ends split: option.split)
  then show ?thesis
    unfolding serveOpened_def p using d1 by (auto simp: ends_None closeWith_ends split: option.split)
qed

text \<open>A whole command: it leaves the locks as it found them.\<close>

definition restores :: "path fset \<Rightarrow> 'a option \<Rightarrow> path fset \<Rightarrow> bool" where
  "restores h r h' \<longleftrightarrow> (r \<noteq> None \<longrightarrow> h' = h)"

lemma opened_restores:
  assumes "\<And>d. openAt dr d \<Longrightarrow> lockRel (ends dr) (f d)"
  shows "lockRel restores (Open dr os \<bind> (\<lambda>x. case x of Inl e \<Rightarrow> ret (g e) | Inr d \<Rightarrow> f d))"
  unfolding lockRel_def
proof
  fix w
  obtain x w1 where o: "run_state (Open dr os) w = (x, w1)" by fastforce
  have a: "acquired (lockOf dr) (held w) x (held w1)" by (rule lockRelD [OF lockRel_Open o])
  show "case run_state (Open dr os \<bind> (\<lambda>x. case x of Inl e \<Rightarrow> ret (g e) | Inr d \<Rightarrow> f d)) w of
      (r, w') \<Rightarrow> restores (held w) r (held w')"
  proof (cases x)
    case (Inr d)
    obtain r w2 where r: "run_state (f d) w1 = (r, w2)" by fastforce
    have "ends dr (held w1) r (held w2)"
      using returnsD [OF Open_dir o] Inr by (intro lockRelD [OF assms r]) simp
    then show ?thesis using a Inr o r by (auto simp: acquired_def ends_def restores_def)
  qed (use a o in \<open>simp add: acquired_def restores_def\<close>)
qed

lemma openedDir_restores:
  assumes "\<And>dr d. openAt dr d \<Longrightarrow> lockRel (ends dr) (f d)"
  shows "lockRel restores (OpenDir absDir os \<bind> (\<lambda>x. case x of Inl e \<Rightarrow> ret (Some (g e)) | Inr d \<Rightarrow> f d))"
proof -
  have "lockRel restores (ret (Inl e) \<bind> (\<lambda>x. case x of Inl e \<Rightarrow> ret (Some (g e)) | Inr d \<Rightarrow> f d))" for e
    by (simp add: lockRel_def restores_def)
  then show ?thesis
    unfolding OpenDir_def using opened_restores [OF assms, of _ _ os "\<lambda>e. Some (g e)"]
    by (cases "validate (fold (\<lambda>f x. f x) os defaultOptions)"; cases absDir) simp_all
qed

lemma serve_restores: "lockRel restores (serve sv cfg getenv)"
  unfolding serve_def by (rule openedDir_restores) (rule serveOpened_ends)

lemma lockFree_setSync [lock_free]: "lockFree (setSync cd n i x d)"
  unfolding setSync_def by (intro lock_free)

lemma setSync_open: "openAt dr d \<Longrightarrow> returns (\<lambda>r. openAt dr (snd r)) (setSync cd n i x d)"
proof -
  assume d: "openAt dr d"
  obtain r d1 where r: "coll_Set cd n i x d = (r, d1)" by fastforce
  have d1: "openAt dr d1" by (rule openAt_sameDir [OF d]) (use coll_Set_dir [of d cd n i x] r in simp)
  have "returns (\<lambda>r. openAt dr (snd r)) (runNotify d1 \<bind> (\<lambda>d2. ret (case commit_wait c d2 of None \<Rightarrow> None | Some e \<Rightarrow> e, d2)))" for c
    by (rule returns_seq [OF returns_runNotify]) (auto simp: returns_def notified_def intro: openAt_sameDir [OF d1] sameStore_dir)
  then show ?thesis using r d1 by (auto simp: setSync_def returns_ret split: sum.split)
qed

lemma lockFree_recoverWrites [lock_free]: "lockFree (recoverWrites uid tid name now d)"
  unfolding recoverWrites_def by (intro lock_free)

lemma returns_setSync:
  assumes "openAt dr d" "\<And>e d1. openAt dr d1 \<Longrightarrow> returns P (f e d1)" "\<And>d1. openAt dr d1 \<Longrightarrow> returns P (g d1)"
  shows "returns P (setSync cd n i x d \<bind> (\<lambda>r. case r of (Some e, d1) \<Rightarrow> f e d1 | (None, d1) \<Rightarrow> g d1))"
  by (rule returns_seq [OF setSync_open [OF assms(1)]]) (auto simp: assms split: prod.split option.split)

lemma recoverWrites_open: "openAt dr d \<Longrightarrow> returns (\<lambda>r. openAt dr (snd r)) (recoverWrites uid tid name now d)"
  unfolding recoverWrites_def by (intro returns_setSync) (simp_all add: returns_def)

lemma closeAfter_ends: "openAt dr d \<Longrightarrow> lockRel (ends dr) (closeAfter e d \<bind> (\<lambda>r. ret (Some r)))"
proof -
  assume "openAt dr d"
  then have "lockRel (unlocks dr) (closeAfter e d)"
    using Close_unlocks [of dr d] by (auto simp: closeAfter_def lockRel_def unlocks_def split: prod.splits)
  then show ?thesis by (rule unlocks_then)
qed

lemma recoverAuth_restores: "lockRel restores (recoverAuth out clock rnd rndToken absDir name)"
  unfolding recoverAuth_def
proof (rule openedDir_restores)
  fix dr d assume d: "openAt dr d"
  let ?closed = "\<lambda>t d1. Close d1 \<bind> (\<lambda>c. case fst c of Some e \<Rightarrow> ret (Some (Some (Wrap [] e), []))
      | None \<Rightarrow> (case out t of (printed, err) \<Rightarrow> ret (Some (map_option (Wrap []) err, printed))))"
  have cl: "lockRel (ends dr) (Close d1 \<bind> (\<lambda>c. case fst c of Some e \<Rightarrow> ret (Some (Some (Wrap [] e), [])) | None \<Rightarrow> ret (Some x)))"
    if "openAt dr d1" for d1 and x :: "srv_error option \<times> string"
  proof -
    have "(\<lambda>c :: error option \<times> db. case fst c of Some e \<Rightarrow> ret (Some (Some (Wrap [] e), [])) | None \<Rightarrow> ret (Some x)) =
        (\<lambda>c. ret (case fst c of Some e \<Rightarrow> Some (Some (Wrap [] e), []) | None \<Rightarrow> Some x))"
      by (auto split: option.split)
    then show ?thesis using unlocks_then [OF Close_unlocks [OF that]] by simp
  qed
  have w: "lockRel (ends dr) (recoverWrites uid tid name now d \<bind> (\<lambda>w. case w of
      (Some err, d1) \<Rightarrow> closeAfter err d1 \<bind> (\<lambda>r. ret (Some r)) | (None, d1) \<Rightarrow> ?closed t d1))" for uid tid now t
    by (rule lockRel_seq [OF lockFree_recoverWrites recoverWrites_open [OF d]])
       (auto simp: closeAfter_ends cl split: prod.split option.split)
  show "lockRel (ends dr) (case uniqueUserID rnd 0 d of None \<Rightarrow> ret None | Some uid \<Rightarrow>
      (case uniqueToken rndToken 0 d of None \<Rightarrow> ret None
       | Some (Inl e) \<Rightarrow> closeAfter (Wrap [] e) d \<bind> (\<lambda>r. ret (Some r))
       | Some (Inr (token, tid)) \<Rightarrow> recoverWrites uid tid name (timeFormat (clock 0)) d \<bind> (\<lambda>w. case w of
            (Some err, d1) \<Rightarrow> closeAfter err d1 \<bind> (\<lambda>r. ret (Some r))
          | (None, d1) \<Rightarrow> ?closed (''user_id='' @ uid @ [nl] @ ''token_id='' @ tid @ [nl] @ ''token='' @ token @ [nl]) d1)))"
    by (auto simp: ends_None closeAfter_ends d w split: option.split sum.split)
qed

lemma restores_map: "lockRel restores m \<Longrightarrow> lockRel restores (m \<bind> (\<lambda>r. ret (map_option f r)))"
  by (auto simp: lockRel_def restores_def split: prod.splits)

lemma restores_ret: "lockRel restores (ret x)"
  by (simp add: lockRel_def restores_def)

lemma run_restores: "lockRel restores (run re args)"
proof -
  have "lockRel restores (runServe re rest)" "lockRel restores (runRecover re rest)" for rest
    unfolding runServe_def runRecover_def
    by (auto intro!: restores_map restores_ret serve_restores recoverAuth_restores split: sum.split)
  then show ?thesis
    unfolding run_def by (auto intro!: restores_ret split: list.split option.split prod.split)
qed

subsection \<open>Properties\<close>

text \<open>
  C23: No command leaves the directory locked.  Whenever the program ends, after serving, after a
  failed start or a storage failure, after recovering the credentials, or because of a wrong command
  line, the locks are as they were when it started.
\<close>

theorem run_releases_lock:
  assumes "run_state (run re args) w = (Some r, w')"
  shows "held w' = held w"
  using lockRelD [OF run_restores assms] by (simp add: restores_def)

text \<open>Witness for C23: a server on an empty disk that is told to stop.\<close>

definition demoRun :: runEnv where
  "demoRun = \<lparr>re_serve = \<lparr>sv_outcome = (\<lambda>_. None), sv_clock = (\<lambda>_. demoTime), sv_rndID = (\<lambda>_. []), sv_readFile = (\<lambda>_. None),
       sv_absPath = (\<lambda>p. Inr [p]), sv_listenErr = None, sv_events = [], sv_cause = CtxDone, sv_draining = [], sv_shutdownErr = None\<rparr>,
     re_getenv = (\<lambda>_. None), re_parseDuration = demoDuration, re_rndToken = (\<lambda>_. None), re_stdout = (\<lambda>t. (t, None))\<rparr>"

lemma demo_stops: "returns (\<lambda>r. r \<noteq> None) (run demoRun [''serve'', ''--dir'', ''data''])"
proof -
  have "fst (prepareAuthentication out clock rnd cfg (\<lambda>_. None) readFile d) \<noteq> None" for out clock rnd cfg readFile d
    by (auto simp: prepareAuthentication_def initializeAuth_def initialToken_def Let_def split: sum.split bool.split)
  then have p: "prepareAuthentication out clock rnd cfg (\<lambda>_. None) readFile d = (r, d1) \<Longrightarrow> r \<noteq> None" for out clock rnd cfg readFile d r d1
    by (metis fst_conv)
  have "returns (\<lambda>r. r \<noteq> None) (serveOpened (re_serve demoRun) cfg (\<lambda>_. None) d)" for cfg d
    unfolding serveOpened_def closeWith_def stopServer_def Let_def
    by (auto simp: demoRun_def awaitStop_def returns_def dest: p split: prod.splits option.splits)
  then have s: "returns (\<lambda>r. r \<noteq> None) (serve (re_serve demoRun) cfg (\<lambda>_. None))" for cfg
    unfolding serve_def by (intro returning) simp_all
  have g: "re_getenv demoRun = (\<lambda>_. None)" by (simp add: demoRun_def)
  have m: "returns (\<lambda>r. r \<noteq> None) (serve (re_serve demoRun) cfg (\<lambda>_. None) \<bind> (\<lambda>r. ret (map_option f r)))" for cfg and f :: "serveError option \<Rightarrow> run_result"
    by (rule returns_seq [OF s]) (simp add: returns_ret)
  have "returns (\<lambda>r. r \<noteq> None) (runServe demoRun rest)" for rest
    unfolding runServe_def g by (rule returns_sum) (simp add: returns_ret, rule m)
  then show ?thesis by (simp add: run_def)
qed

theorem run_releases_lock_witness:
  "\<exists>r w'. run_state (run demoRun [''serve'', ''--dir'', ''data'']) (demoWorld emptyDisk) = (Some r, w') \<and> held w' = {||}"
proof -
  obtain x w' where x: "run_state (run demoRun [''serve'', ''--dir'', ''data'']) (demoWorld emptyDisk) = (x, w')" by fastforce
  then obtain r where "x = Some r" using returnsD [OF demo_stops x] by blast
  then show ?thesis using x run_releases_lock [of demoRun _ "demoWorld emptyDisk" r w'] by (auto simp: demoWorld_def)
qed

end
