(* ===== verification/Auth_Life.thy ===== *)
theory Auth_Life
  imports Server_Facts
begin

text \<open>
  The life of a credential: a token that was issued authenticates its user until it expires, is
  revoked, or the user is disabled.
\<close>

subsection \<open>Successful calls\<close>

lemma mutationError_status: "mutationError e s = Reply resp s' \<Longrightarrow> rs_status resp \<in> {413, 500, 503}"
  by (auto simp: mutationError_def fail_defs split: error.splits)

lemma refusals:
  "fails f s = Reply resp s' \<Longrightarrow> rs_status resp = f_status f"
  "internalError s = Reply resp s' \<Longrightarrow> rs_status resp = 500"
  by (auto simp: fails_def internalError_def failInternal_def failure_def)

lemma waited_None: "waited f r = (None, d) \<Longrightarrow> \<exists>c. r = (Inr c, d) \<and> f c = None"
  by (auto simp: waited_def split: prod.splits sum.splits)

text \<open>An expiry is kept in normal form and later than the creation.\<close>

lemma expiryField_new:
  assumes "expiryField flds created = Inr x"
  shows "\<exists>expires. x = map_option timeFormat expires \<and> (\<forall>t. expires = Some t \<longrightarrow> validTime t \<and> Before created t)"
proof (cases x)
  case (Some y)
  with assms obtain t where "y = timeFormat t" "Before created t" "validTime t"
    by (auto simp: expiryField_def dest: parse_valid split: sum.splits option.splits if_splits)
  with Some show ?thesis by (intro exI [of _ "Some t"]) simp
qed simp

lemma issueToken_ok:
  assumes "issueToken ce flds uid label s = Reply resp s'" "rs_status resp = 201"
  obtains expires token c where "expiryField flds (ce_clock ce 0) = Inr (map_option timeFormat expires)" "\<forall>t. expires = Some t \<longrightarrow> validTime t \<and> Before (ce_clock ce 0) t"
    "\<exists>k secret. ce_rndToken ce k = Some secret \<and> token = newToken secret"
    "\<not> coll_Has tokenCollection (tokenID token) (srv_db s)"
    "coll_Set tokenCodec tokenCollection (tokenID token) (newTokenRecord uid label (ce_clock ce 0) expires) (srv_db s) = (Inr c, srv_db s')"
    "resp = writeJSON [] 201 (tokenReply (tokenID token) token (newTokenRecord uid label (ce_clock ce 0) expires))"
    "ce_outcome ce c = None"
proof -
  have no: "\<not> (mutationError e q = Reply resp s')" "\<not> (internalError q = Reply resp s')" for e q
    using assms(2) mutationError_status refusals(2) by force+
  obtain x where x: "expiryField flds (ce_clock ce 0) = Inr x"
    using assms refusals(1) by (auto simp: issueToken_def Let_def expiryField_def fail_defs split: sum.splits option.splits if_splits)
  obtain expires where e: "x = map_option timeFormat expires" "\<And>t. expires = Some t \<Longrightarrow> validTime t \<and> Before (ce_clock ce 0) t"
    using expiryField_new [OF x] by blast
  obtain token tid where u: "uniqueToken (ce_rndToken ce) 0 (srv_db s) = Some (Inr (token, tid))"
    using assms(1) no by (auto simp: issueToken_def Let_def x split: option.splits sum.splits)
  note U = uniqueToken_Some [OF u]
  let ?rec = "newTokenRecord uid label (ce_clock ce 0) expires"
  obtain err d where w: "waited (ce_outcome ce) (coll_Set tokenCodec tokenCollection tid ?rec (srv_db s)) = (err, d)" by fastforce
  have h: "err = None" "s' = s\<lparr>srv_db := d\<rparr>" "resp = writeJSON [] 201 (tokenReply tid token ?rec)"
    using assms(1) no w by (auto simp: issueToken_def Let_def x e(1) u newTokenRecord_def replyValue_def split: option.splits)
  obtain c where "coll_Set tokenCodec tokenCollection tid ?rec (srv_db s) = (Inr c, d)" "ce_outcome ce c = None"
    using waited_None [of "ce_outcome ce" "coll_Set tokenCodec tokenCollection tid ?rec (srv_db s)" d] w h(1) by auto
  then show thesis using that [of expires token c] x e U h by auto
qed

lemma collectFields_status: "collectFields kvs m = Inl f \<Longrightarrow> f_status f = 400"
  by (induction kvs m rule: collectFields.induct) (auto simp: fail_defs split: option.splits if_splits)

lemma readObject_status: "readObject r mx al rq = Inl f \<Longrightarrow> f_status f \<in> {400, 413, 415}"
  by (auto simp: readObject_def Let_def fail_defs dest: collectFields_status split: if_splits option.splits sum.splits)

lemma tokenCreate_ok:
  assumes "handleTokenCreate ce r s = Reply resp s'" "rs_status resp = 201"
  obtains flds uid label user where "readObject r (c_maxRequestSize (srv_cfg s)) [''user_id'', ''label'', ''expires_at''] [''user_id'', ''label''] = Inr flds"
    "stringField flds ''user_id'' = Inr uid" "validHexID uid 32" "validateLabel label" "coll_Get userCodec userCollection uid (srv_db s) = Inr user"
    "validateUserRecord uid user" "\<not> u_Disabled user" "issueToken ce flds uid label s = Reply resp s'"
proof -
  have no: "\<not> (fails failInvalidRequest s = Reply resp s')" "\<not> (fails failNotFound s = Reply resp s')"
    "\<not> (fails failUserDisabled s = Reply resp s')" "\<not> (internalError s = Reply resp s')"
    using assms(2) refusals by (force simp: fail_defs)+
  obtain flds where f: "readObject r (c_maxRequestSize (srv_cfg s)) [''user_id'', ''label'', ''expires_at''] [''user_id'', ''label''] = Inr flds"
    using assms readObject_status refusals(1) by (fastforce simp: handleTokenCreate_def split: sum.splits)
  show thesis
    using assms(1) no that by (auto simp: handleTokenCreate_def f split: sum.splits if_splits) 
qed


text \<open>What a stored valid token grants.\<close>

lemma authenticate_stored:
  assumes "validToken token" "coll_Get tokenCodec tokenCollection (tokenID token) d = Inr record" "validateTokenRecord (tokenID token) record"
    "coll_Get userCodec userCollection (k_UserID record) d = Inr user" "validateUserRecord (k_UserID record) user" "\<not> u_Disabled user"
  shows "authenticate token now d = (if active record now then Some (u_Role user) else None)"
  using assms by (simp add: authenticate_def Let_def)

lemma tokenCollection_neq [simp]: "userCollection \<noteq> tokenCollection" "tokenCollection \<noteq> userCollection"
  by (simp_all add: meta_defs)

subsection \<open>Properties\<close>

text \<open>
  C15: A token the server issues works: once the request is answered with status 201, the token in
  the response authenticates with the role of its user at every instant before its expiry and at no
  instant after it, whatever the clock shows.
\<close>

theorem issued_token_works:
  assumes "handleTokenCreate ce r s = Reply resp s'" "rs_status resp = 201" "validTime (ce_clock ce 0)"
    "\<forall>k secret. ce_rndToken ce k = Some secret \<longrightarrow> length secret = 32"
  shows "\<exists>flds token uid user expires record.
     readObject r (c_maxRequestSize (srv_cfg s)) [''user_id'', ''label'', ''expires_at''] [''user_id'', ''label''] = Inr flds \<and>
     stringField flds ''user_id'' = Inr uid \<and> expiryField flds (ce_clock ce 0) = Inr (map_option timeFormat expires) \<and>
     coll_Get userCodec userCollection uid (srv_db s) = Inr user \<and>
     k_UserID record = uid \<and> k_ExpiresAt record = map_option timeFormat expires \<and>
     rs_body resp = tokenReply (tokenID token) token record @ [nl] \<and>
     (\<forall>now. authenticate token now (srv_db s') =
        (if (case expires of None \<Rightarrow> True | Some t \<Rightarrow> Before now t) then Some (u_Role user) else None))"
proof -
  obtain flds uid label user where f: "readObject r (c_maxRequestSize (srv_cfg s)) [''user_id'', ''label'', ''expires_at''] [''user_id'', ''label''] = Inr flds" "stringField flds ''user_id'' = Inr uid"
    and c: "validHexID uid 32" "validateLabel label"
    "coll_Get userCodec userCollection uid (srv_db s) = Inr user" "validateUserRecord uid user" "\<not> u_Disabled user"
    "issueToken ce flds uid label s = Reply resp s'" using tokenCreate_ok [OF assms(1,2)] by metis
  obtain expires token cid where e: "expiryField flds (ce_clock ce 0) = Inr (map_option timeFormat expires)"
    and i: "\<forall>t. expires = Some t \<longrightarrow> validTime t \<and> Before (ce_clock ce 0) t"
    "\<exists>k secret. ce_rndToken ce k = Some secret \<and> token = newToken secret"
    "coll_Set tokenCodec tokenCollection (tokenID token) (newTokenRecord uid label (ce_clock ce 0) expires) (srv_db s) = (Inr cid, srv_db s')"
    "resp = writeJSON [] 201 (tokenReply (tokenID token) token (newTokenRecord uid label (ce_clock ce 0) expires))"
    using issueToken_ok [OF c(6) assms(2)] by metis
  let ?rec = "newTokenRecord uid label (ce_clock ce 0) expires"
  note ok = newToken_ok [OF assms(3) c(2) c(1) tokenID_valid i(1) [rule_format]]
  have v: "validToken token" using i(2) assms(4) newToken_valid by blast
  have g: "coll_Get tokenCodec tokenCollection (tokenID token) (srv_db s') = Inr ?rec"
    using tokens.set_get [OF ok(2) i(3), of tokenCollection "tokenID token"] by simp
  have u: "coll_Get userCodec userCollection uid (srv_db s') = Inr user"
    using set_other [OF i(3), of userCollection uid userCodec] c(3) by simp
  have "authenticate token now (srv_db s') = (if active ?rec now then Some (u_Role user) else None)" for now
    using v g ok(1) u c(4,5) by (intro authenticate_stored) (simp_all add: newTokenRecord_def)
  moreover have "active ?rec now \<longleftrightarrow> (case expires of None \<Rightarrow> True | Some t \<Rightarrow> Before now t)" for now
    by (rule active_new) (use i(1) in blast)
  ultimately show ?thesis using f e c(3) i(4)
    by (intro exI [of _ flds] exI [of _ token] exI [of _ uid] exI [of _ user] exI [of _ expires] exI [of _ ?rec])
       (simp add: writeJSON_def newTokenRecord_def)
qed

text \<open>
  C16: Revoking a token takes effect with the response: afterwards the token with that ID
  authenticates nobody at any time, and every other token does exactly what it did before.
\<close>

theorem revoked_token_fails:
  assumes "handleTokenRevoke ce r s = Reply resp s'" "rs_status resp = 204"
  shows "\<exists>flds tid. readObject r (c_maxRequestSize (srv_cfg s)) [''token_id''] [''token_id''] = Inr flds \<and>
     stringField flds ''token_id'' = Inr tid \<and>
     (\<forall>token now. authenticate token now (srv_db s') =
        (if tokenID token = tid then None else authenticate token now (srv_db s)))"
proof -
  obtain flds where f: "readObject r (c_maxRequestSize (srv_cfg s)) [''token_id''] [''token_id''] = Inr flds"
    using assms readObject_status refusals(1) by (fastforce simp: handleTokenRevoke_def split: sum.splits)
  obtain tid where v: "stringField flds ''token_id'' = Inr tid"
    and t: "finish s (waited (ce_outcome ce) (coll_Delete tokenCollection tid (srv_db s))) = Reply resp s'"
    using assms refusals(1) by (fastforce simp: handleTokenRevoke_def f fail_defs split: sum.splits if_splits)
  obtain err d where w: "waited (ce_outcome ce) (coll_Delete tokenCollection tid (srv_db s)) = (err, d)" by fastforce
  have "err = None"
  proof (cases err)
    case (Some e)
    then have "mutationError e (s\<lparr>srv_db := d\<rparr>) = Reply resp s'" using t w by (simp add: finish_def)
    then show ?thesis using mutationError_status assms(2) by fastforce
  qed
  then obtain c where d: "coll_Delete tokenCollection tid (srv_db s) = (Inr c, d)" "s' = s\<lparr>srv_db := d\<rparr>"
    using waited_None [of "ce_outcome ce" "coll_Delete tokenCollection tid (srv_db s)" d] w t by (auto simp: finish_def)
  have g: "coll_Get tokenCodec tokenCollection i d = (if i = tid then Inl ErrNotFound else coll_Get tokenCodec tokenCollection i (srv_db s))"
    "coll_Get userCodec userCollection i d = coll_Get userCodec userCollection i (srv_db s)" for i
    by (simp_all add: delete_get [OF d(1)])
  show ?thesis using f v
    by (intro exI [of _ flds] exI [of _ tid]) (simp add: authenticate_def Let_def g d(2) split: sum.split)
qed

text \<open>Requests whose body is an object of quoted strings.\<close>

lemma collectFields_plain:
  assumes "\<forall>(k, v) \<in> set kvs. plainText k" "distinct (map fst kvs)" "\<forall>k \<in> set (map fst kvs). fmlookup m k = None"
  shows "collectFields kvs m = Inr (foldl (\<lambda>m (k, v). fmupd k v m) m kvs)"
  using assms
proof (induction kvs arbitrary: m)
  case (Cons kv kvs)
  obtain k v where kv: "kv = (k, v)" by fastforce
  have "\<forall>k' \<in> set (map fst kvs). fmlookup (fmupd k v m) k' = None" using Cons.prems(2,3) kv by auto
  then have "collectFields kvs (fmupd k v m) = Inr (foldl (\<lambda>m (k, v). fmupd k v m) (fmupd k v m) kvs)"
    using Cons.prems by (intro Cons.IH) auto
  moreover have "unquoteBody k = Some k" "fmlookup m k = None" using Cons.prems(1,3) kv plainText_body(3) by auto
  ultimately show ?case by (simp add: kv)
qed simp

lemma foldl_upd_dom: "fmdom (foldl (\<lambda>m (k, v). fmupd k v m) m kvs) = fmdom m |\<union>| fset_of_list (map fst kvs)"
  by (induction kvs arbitrary: m) (auto split: prod.split)

lemma readObject_plain:
  assumes "b = renderObject kvs" "\<forall>(k, v) \<in> set kvs. plainText k \<and> canonAt 9999 v" "distinct (map fst kvs)" "int (length b) \<le> mx"
    "validUTF8 b" "validJSONUnicode b" "set (map fst kvs) \<subseteq> set al" "set rq \<subseteq> set (map fst kvs)"
  shows "readObject (demoRequest b) mx al rq = Inr (foldl (\<lambda>m (k, v). fmupd k v m) fmempty kvs)"
proof -
  have r: "renderable 9999 kvs" using assms(2) plainText_body by (fastforce simp: renderable_def)
  have o: "objectFields b = Some kvs" "validJSON b"
    unfolding assms(1) by (simp_all add: objectFields_render [OF r] validJSON_def compact_render [OF r])
  have t: "trimSpace b = b" "b \<noteq> []" "hd b = CHR ''{''"
    unfolding assms(1) renderObject_def by (simp_all add: trimSpace_braces)
  let ?m = "foldl (\<lambda>m (k, v). fmupd k v m) fmempty kvs"
  have c: "collectFields kvs fmempty = Inr ?m"
    by (rule collectFields_plain) (use assms(2,3) in auto)
  have dm: "fmlookup ?m n \<noteq> None \<longleftrightarrow> n \<in> set (map fst kvs)" for n
    using foldl_upd_dom [of fmempty kvs] by (metis fmdom_empty fmdom_notD fmdom_notI fset_of_list_elem funion_commute sup_bot_right)
  have s: "fset (fmdom ?m) \<subseteq> set al"
    using foldl_upd_dom [of fmempty kvs] assms(7) by (simp add: fset_of_list.rep_eq)
  have l: "\<forall>n \<in> set rq. fmlookup ?m n \<noteq> None" using dm assms(8) by blast
  show ?thesis
    using assms(4-6) l s
    by (auto simp: readObject_def demoRequest_def Let_def o t c list_ex_iff fset_of_list.rep_eq less_eq_fset.rep_eq split: sum.split)
qed

lemma stringField_quote:
  assumes "fmlookup flds n = Some (quote v)" "validUTF8 v"
  shows "stringField flds n = Inr v"
proof -
  have "\<not> isJSONNull (quote v)" by (simp add: isJSONNull_def trimSpace_def quote_def isSpace_def)
  then show ?thesis using assms by (simp add: stringField_def unquote_quote_valid)
qed

text \<open>Without escapes the check of the escapes only counts the quotes.\<close>

lemma validJSONUnicode_loop_quotes:
  "bsl \<notin> set data \<Longrightarrow> validJSONUnicode_loop data i b \<longleftrightarrow> odd (length (filter (\<lambda>c. c = dq) (drop i data))) = b"
proof (induction data i b rule: validJSONUnicode_loop.induct)
  case (1 data i b)
  show ?case
  proof (cases "i \<ge> length data")
    case False
    then have d: "drop i data = data ! i # drop (Suc i) data" and "data ! i \<noteq> bsl"
      using 1(7) by (simp_all add: Cons_nth_drop_Suc) (metis nth_mem not_le)
    then show ?thesis
      using False 1(1,2,6) 1(7) by (subst validJSONUnicode_loop.simps) (auto simp: Let_def)
  qed (simp add: validJSONUnicode_loop.simps)
qed

text \<open>A server with one user.\<close>

definition demoUID :: string where
  "demoUID = replicate 32 CHR ''0''"

definition authServer :: apiServer where
  "authServer = newAPIServer (oneDoc\<lparr>colls := fmupd userCollection (fmupd demoUID (userText (newUser ''ann'' roleWriter demoTime)) fmempty) fmempty\<rparr>)
     (demoCfg\<lparr>c_noAuth := False, c_maxRequestSize := 1000\<rparr>)"

definition createRequest :: request where
  "createRequest = demoRequest (renderObject [(''user_id'', quote demoUID), (''label'', quote ''laptop'')])"

lemma demoTime_valid: "validTime demoTime"
  by (simp add: demoTime_def validTime_def daysIn_def isLeap_def)

lemma demoUID_valid: "validHexID demoUID 32" "plainText demoUID"
  by (code_simp)+

lemma demoUser: "coll_Get userCodec userCollection demoUID (srv_db authServer) = Inr (newUser ''ann'' roleWriter demoTime)"
  "validateUserRecord demoUID (newUser ''ann'' roleWriter demoTime)"
proof -
  have a: "validateLabel ''ann''" "validRole roleWriter" by (simp_all add: validateLabel_def validRole_def)
  note ok = newUser_ok [OF demoTime_valid a demoUID_valid(1)]
  show "validateUserRecord demoUID (newUser ''ann'' roleWriter demoTime)" by (rule ok(1))
  have "dec userCodec (userText (newUser ''ann'' roleWriter demoTime)) = Inr (newUser ''ann'' roleWriter demoTime)"
    by (rule users.dec_enc [OF ok(2)]) (simp add: userCodec_def)
  then show "coll_Get userCodec userCollection demoUID (srv_db authServer) = Inr (newUser ''ann'' roleWriter demoTime)"
    by (simp add: coll_Get_def DB_read_def authServer_def newAPIServer_def oneDoc_def newDB_def)
qed


lemma createRequest_fields:
  "readObject createRequest 1000 [''user_id'', ''label'', ''expires_at''] [''user_id'', ''label''] =
     Inr (fmupd ''label'' (quote ''laptop'') (fmupd ''user_id'' (quote demoUID) fmempty))"
proof -
  let ?kvs = "[(''user_id'', quote demoUID), (''label'', quote ''laptop'')]"
  have l: "plainText ''laptop''" by code_simp
  have k: "plainText ''user_id''" "plainText ''label''" by simp_all
  have b: "renderObject ?kvs = ''{\"user_id\":\"00000000000000000000000000000000\",\"label\":\"laptop\"}''"
    unfolding quote_plain [OF l] quote_plain [OF demoUID_valid(2)] demoUID_def by code_simp
  have c: "canonAt 9999 (quote x)" for x using canon_quote by blast
  have "readObject (demoRequest (renderObject ?kvs)) 1000 [''user_id'', ''label'', ''expires_at''] [''user_id'', ''label''] =
      Inr (foldl (\<lambda>m (k, v). fmupd k v m) fmempty ?kvs)"
    by (rule readObject_plain [OF refl]) (use k c in \<open>simp_all add: b\<close>, code_simp+)
  then show ?thesis by (simp add: createRequest_def)
qed

lemma demo_fields:
  "stringField (fmupd ''label'' (quote ''laptop'') (fmupd ''user_id'' (quote demoUID) fmempty)) ''user_id'' = Inr demoUID"
  "stringField (fmupd ''label'' (quote ''laptop'') (fmupd ''user_id'' (quote demoUID) fmempty)) ''label'' = Inr ''laptop''"
  by (rule stringField_quote, simp, simp add: plainText_body(4) demoUID_valid(2))+

text \<open>Witness for C15: a token without expiry for the one user of the server.\<close>

lemma demo_create:
  "\<exists>resp s'. handleTokenCreate demoEnv createRequest authServer = Reply resp s' \<and> rs_status resp = 201"
proof -
  let ?d = "srv_db authServer" and ?token = "newToken (replicate 32 CHR 0x00)"
  let ?rec = "newTokenRecord demoUID ''laptop'' demoTime None"
  let ?flds = "fmupd ''label'' (quote ''laptop'') (fmupd ''user_id'' (quote demoUID) fmempty)"
  have d: "\<not> closed ?d" "fmlookup (colls ?d) tokenCollection = None" "opts ?d = defaultOptions"
    by (simp_all add: authServer_def newAPIServer_def oneDoc_def newDB_def)
  have l: "validateLabel ''laptop''" by (simp add: validateLabel_def)
  have "uniqueToken (ce_rndToken demoEnv) 0 ?d = Some (Inr (?token, tokenID ?token))"
    using d by (subst uniqueToken.simps) (simp add: demoEnv_def Let_def coll_Has_iff fmget_def)
  moreover have "int (length (tokenText ?rec)) \<le> maxDocSize defaultOptions" by code_simp
  then obtain c d' where "coll_Set tokenCodec tokenCollection (tokenID ?token) ?rec ?d = (Inr c, d')"
    using tokens.set_ok [OF newToken_ok(2) [OF demoTime_valid l demoUID_valid(1) tokenID_valid, of None] d(1)] d(3)
    by (fastforce simp: tokenCodec_def)
  ultimately have "issueToken demoEnv ?flds demoUID ''laptop'' authServer =
      Reply (writeJSON [] 201 (tokenReply (tokenID ?token) ?token ?rec)) (authServer\<lparr>srv_db := d'\<rparr>)"
    by (simp add: issueToken_def expiryField_def optionalStringField_def demoEnv_def newTokenRecord_def waited_def replyValue_def Let_def)
  moreover have "c_maxRequestSize (srv_cfg authServer) = 1000" by (simp add: authServer_def newAPIServer_def)
  ultimately show ?thesis
    using demoUser demo_fields l demoUID_valid(1)
    by (simp add: handleTokenCreate_def createRequest_fields newUser_def)
qed

theorem issued_token_works_witness:
  "\<exists>resp s' token. handleTokenCreate demoEnv createRequest authServer = Reply resp s' \<and>
     authenticate token demoTime (srv_db s') = Some roleWriter"
proof -
  obtain resp s' where h: "handleTokenCreate demoEnv createRequest authServer = Reply resp s'" "rs_status resp = 201"
    using demo_create by blast
  have m: "c_maxRequestSize (srv_cfg authServer) = 1000" by (simp add: authServer_def newAPIServer_def)
  have e: "validTime (ce_clock demoEnv 0)" "\<forall>k secret. ce_rndToken demoEnv k = Some secret \<longrightarrow> length secret = 32"
    by (auto simp: demoEnv_def demoTime_valid)
  obtain flds token uid user expires where i:
    "readObject createRequest 1000 [''user_id'', ''label'', ''expires_at''] [''user_id'', ''label''] = Inr flds"
    "stringField flds ''user_id'' = Inr uid" "expiryField flds (ce_clock demoEnv 0) = Inr (map_option timeFormat expires)"
    "coll_Get userCodec userCollection uid (srv_db authServer) = Inr user"
    "\<forall>now. authenticate token now (srv_db s') =
        (if (case expires of None \<Rightarrow> True | Some t \<Rightarrow> Before now t) then Some (u_Role user) else None)"
    using issued_token_works [OF h e] unfolding m by blast
  have "uid = demoUID" using i(1,2) demo_fields(1) by (simp add: createRequest_fields)
  then have "user = newUser ''ann'' roleWriter demoTime" using i(4) demoUser(1) by simp
  moreover have "expires = None"
    using i(1,3) by (auto simp: createRequest_fields expiryField_def optionalStringField_def)
  ultimately show ?thesis using h(1) i(5) by (auto simp: newUser_def)
qed

text \<open>Witness for C16: a request to revoke the token whose ID is all zeros.\<close>

definition revokeRequest :: request where
  "revokeRequest = demoRequest (renderObject [(''token_id'', quote (replicate 64 CHR ''0''))])"

lemma revokeRequest_fields:
  "readObject revokeRequest 1000 [''token_id''] [''token_id''] = Inr (fmupd ''token_id'' (quote (replicate 64 CHR ''0'')) fmempty)"
  "stringField (fmupd ''token_id'' (quote (replicate 64 CHR ''0'')) fmempty) ''token_id'' = Inr (replicate 64 CHR ''0'')"
  "validHexID (replicate 64 CHR ''0'') 64"
proof -
  define t where "t = replicate 64 CHR ''0''"
  have t: "plainText t" "plainText ''token_id''" unfolding t_def by code_simp+
  have c: "canonAt 9999 (quote x)" for x using canon_quote by blast
  have b: "renderObject [(''token_id'', quote t)] = ''{\"token_id\":\"'' @ t @ ''\"}''"
    unfolding quote_plain [OF t(1)] by (simp add: renderObject_def)
  have "filter (\<lambda>c. c = dq) t = []" "bsl \<notin> set t" unfolding t_def by (simp_all add: filter_empty_conv)
  then have v: "validJSONUnicode (''{\"token_id\":\"'' @ t @ ''\"}'')"
    unfolding validJSONUnicode_def by (subst validJSONUnicode_loop_quotes) simp_all
  have u: "validUTF8 (''{\"token_id\":\"'' @ t @ ''\"}'')" "length t = 64"
    by (rule validUTF8_plainI, simp_all add: t_def list_all_iff)
  have "readObject (demoRequest (renderObject [(''token_id'', quote t)])) 1000 [''token_id''] [''token_id''] =
      Inr (foldl (\<lambda>m (k, v). fmupd k v m) fmempty [(''token_id'', quote t)])"
    by (rule readObject_plain [OF refl]) (use t c v u in \<open>simp_all only: b, simp_all\<close>)
  then show "readObject revokeRequest 1000 [''token_id''] [''token_id''] = Inr (fmupd ''token_id'' (quote (replicate 64 CHR ''0'')) fmempty)"
    by (simp add: revokeRequest_def t_def)
  show "stringField (fmupd ''token_id'' (quote (replicate 64 CHR ''0'')) fmempty) ''token_id'' = Inr (replicate 64 CHR ''0'')"
    by (rule stringField_quote) (simp, rule plainText_body(4) [OF t(1) [unfolded t_def]])
  show "validHexID (replicate 64 CHR ''0'') 64" by code_simp
qed

theorem revoked_token_fails_witness:
  "\<exists>s'. handleTokenRevoke demoEnv revokeRequest authServer = Reply writeNoContent s' \<and>
     (\<forall>token now. tokenID token = replicate 64 CHR ''0'' \<longrightarrow> authenticate token now (srv_db s') = None)"
proof -
  let ?r = "\<lparr>Op = opDel, Coll = tokenCollection, ID = replicate 64 CHR ''0'', Doc = []\<rparr>"
  have m: "c_maxRequestSize (srv_cfg authServer) = 1000" "\<not> closed (srv_db authServer)"
    by (simp_all add: authServer_def newAPIServer_def oneDoc_def newDB_def)
  obtain line where "marshalRecord ?r = Inr line" using marshalRecord_canon [of ?r] by auto
  then obtain c d' where "coll_Delete tokenCollection (replicate 64 CHR ''0'') (srv_db authServer) = (Inr c, d')"
    using m(2) by (fastforce simp: coll_Delete_def DB_write_def split: prod.split)
  then have h: "handleTokenRevoke demoEnv revokeRequest authServer = Reply writeNoContent (authServer\<lparr>srv_db := d'\<rparr>)"
    by (simp add: handleTokenRevoke_def m(1) revokeRequest_fields finish_def waited_def demoEnv_def)
  show ?thesis using revoked_token_fails [OF h] h by (auto simp: m(1) revokeRequest_fields)
qed

end
