(* ===== verification/Isolation.thy ===== *)
theory Isolation
  imports Server_Facts
begin

text \<open>
  The data endpoints and the reserved namespace.  \<open>publicDb\<close> removes the reserved collections
  from a database; a data endpoint cannot tell the database from what is left of it, neither by
  its response nor by what it does next.
\<close>

definition publicColls :: "colls \<Rightarrow> colls" where
  "publicColls m = fmfilter (\<lambda>n. \<not> reservedCollection n) m"

definition publicDb :: "db \<Rightarrow> db" where
  "publicDb d = d\<lparr>colls := publicColls (colls d)\<rparr>"

definition public :: "apiServer \<Rightarrow> apiServer" where
  "public s = s\<lparr>srv_db := publicDb (srv_db s)\<rparr>"

fun mapState :: "(apiServer \<Rightarrow> apiServer) \<Rightarrow> handled \<Rightarrow> handled" where
  "mapState f (Reply resp s) = Reply resp (f s)"
| "mapState f (Panic resp s) = Panic resp (f s)"
| "mapState f Hang = Hang"

lemma public_simps [simp]:
  "srv_cfg (public s) = srv_cfg s" "srv_db (public s) = publicDb (srv_db s)" "srv_unavailable (public s) = srv_unavailable s"
  "closed (publicDb d) = closed d" "opts (publicDb d) = opts d"
  by (simp_all add: public_def publicDb_def)

subsection \<open>Reading\<close>

lemma fmget_public: "\<not> reservedCollection n \<Longrightarrow> fmget (colls (publicDb d)) n = fmget (colls d) n"
  by (simp add: publicDb_def publicColls_def fmget_def)

lemma DB_read_public: "\<not> reservedCollection n \<Longrightarrow> DB_read n i (publicDb d) = DB_read n i d"
  by (simp add: DB_read_def fmget_public)

lemma coll_public:
  assumes "\<not> reservedCollection n"
  shows "coll_Get cd n i (publicDb d) = coll_Get cd n i d" "coll_Has n i (publicDb d) = coll_Has n i d"
    "coll_Count n (publicDb d) = coll_Count n d" "coll_All cd n (publicDb d) f x = coll_All cd n d f x"
  using assms by (simp_all add: coll_Get_def coll_Has_def coll_Count_def coll_All_def DB_read_public fmget_public)

lemma Collections_public:
  "filter (\<lambda>n. \<not> reservedCollection n) (Collections (publicDb d)) = filter (\<lambda>n. \<not> reservedCollection n) (Collections d)"
proof -
  have "filter (\<lambda>n. \<not> reservedCollection n) (sortedKeys (publicColls m)) =
      filter (\<lambda>n. \<not> reservedCollection n) (sortedKeys m)" for m :: colls
    by (rule sorted_distinct_set_unique) (auto simp: sorted_wrt_filter fmlookup_dom'_iff publicColls_def)
  then show ?thesis by (simp add: Collections_def publicDb_def)
qed

subsection \<open>Writing\<close>

lemma publicColls_upd: "\<not> reservedCollection k \<Longrightarrow> publicColls (fmupd k v m) = fmupd k v (publicColls m)"
  by (rule fmap_ext) (auto simp: publicColls_def)

lemma publicColls_drop: "publicColls (fmdrop k m) = fmdrop k (publicColls m)"
  by (rule fmap_ext) (auto simp: publicColls_def)

lemma applyRec_public:
  assumes "\<not> reservedCollection (Coll r)"
  shows "applyRec r (publicDb d) = publicDb (applyRec r d)"
proof -
  have "fmlookup (colls (publicDb d)) (Coll r) = fmlookup (colls d) (Coll r)" using assms by (simp add: publicDb_def publicColls_def)
  then show ?thesis
    using assms fmget_public [OF assms, of d]
    by (simp add: applyRec_def publicDb_def publicColls_upd publicColls_drop split: option.split)
qed

lemma enqueue_public: "enqueue b (publicDb d) = map_prod id publicDb (enqueue b d)"
  by (simp add: enqueue_def publicDb_def Let_def split: option.split)

lemma DB_write_public:
  "\<not> reservedCollection (Coll r) \<Longrightarrow> DB_write r (publicDb d) = map_prod id publicDb (DB_write r d)"
  by (auto simp: DB_write_def applyRec_public enqueue_public split: sum.split prod.split)

lemma coll_Set_public:
  "\<not> reservedCollection n \<Longrightarrow> coll_Set cd n i x (publicDb d) = map_prod id publicDb (coll_Set cd n i x d)"
  by (auto simp: coll_Set_def checkDocSize_def DB_write_public split: sum.split option.split)

lemma waited_map: "waited f (map_prod id g r) = map_prod id g (waited f r)"
  by (auto simp: waited_def split: prod.split sum.split)

lemma public_db [simp]: "public s\<lparr>srv_db := publicDb d\<rparr> = public (s\<lparr>srv_db := d\<rparr>)"
  by (simp add: public_def)

lemma mutationError_public: "mutationError e (public s) = mapState public (mutationError e s)"
  by (auto simp: mutationError_def public_def markStorageFailure_def split: error.split)

lemma finish_public: "finish (public s) (map_prod id publicDb x) = mapState public (finish s x)"
  by (auto simp: finish_def mutationError_public split: prod.split option.split)

lemma replies_public [simp]:
  "fails f (public s) = mapState public (fails f s)" "replyValue st v (public s) = mapState public (replyValue st v s)"
  "internalError (public s) = mapState public (internalError s)"
  by (simp_all add: fails_def replyValue_def internalError_def split: option.split)

subsection \<open>Endpoints\<close>

lemma withDocument_public:
  assumes "\<And>c i flds. validName c \<Longrightarrow> \<not> reservedCollection c \<Longrightarrow> k c i flds = mapState public (k' c i flds)"
  shows "withDocument names k r (public s) = mapState public (withDocument names k' r s)"
  using assms documentTarget_ok serverName
  by (auto simp: withDocument_def split: sum.split)

lemma withCollection_public:
  assumes "\<And>c. validName c \<Longrightarrow> \<not> reservedCollection c \<Longrightarrow> k c = mapState public (k' c)"
  shows "withCollection k r (public s) = mapState public (withCollection k' r s)"
  using assms collectionTarget_ok serverName
  by (auto simp: withCollection_def split: sum.split)

lemma readers_public:
  "handleCollections ce r (public s) = mapState public (handleCollections ce r s)"
  "handleGet ce r (public s) = mapState public (handleGet ce r s)"
  "handleHas ce r (public s) = mapState public (handleHas ce r s)"
  "handleCount ce r (public s) = mapState public (handleCount ce r s)"
  "handleScan ce r (public s) = mapState public (handleScan ce r s)"
proof -
  show "handleCollections ce r (public s) = mapState public (handleCollections ce r s)"
    by (simp add: handleCollections_def Collections_public)
  show "handleGet ce r (public s) = mapState public (handleGet ce r s)"
    unfolding handleGet_def by (rule withDocument_public) (simp add: onCollection_ok coll_public split: sum.split)
  show "handleHas ce r (public s) = mapState public (handleHas ce r s)"
    unfolding handleHas_def by (rule withDocument_public) (simp add: onCollection_ok coll_public)
  show "handleCount ce r (public s) = mapState public (handleCount ce r s)"
    unfolding handleCount_def by (rule withCollection_public) (simp add: onCollection_ok coll_public)
  show "handleScan ce r (public s) = mapState public (handleScan ce r s)"
    unfolding handleScan_def
    by (rule withCollection_public) (simp add: onCollection_ok coll_public Let_def split: prod.split)
qed

lemma writers_public:
  "handleSet ce r (public s) = mapState public (handleSet ce r s)"
  "handleDelete ce r (public s) = mapState public (handleDelete ce r s)"
  "handleDrop ce r (public s) = mapState public (handleDrop ce r s)"
proof -
  show "handleSet ce r (public s) = mapState public (handleSet ce r s)"
    unfolding handleSet_def
    by (rule withDocument_public) (simp add: onCollection_ok coll_Set_public waited_map finish_public)
  show "handleDelete ce r (public s) = mapState public (handleDelete ce r s)"
    unfolding handleDelete_def coll_Delete_def
    by (rule withDocument_public) (simp add: onCollection_ok DB_write_public waited_map finish_public)
  show "handleDrop ce r (public s) = mapState public (handleDrop ce r s)"
    unfolding handleDrop_def Drop_def
    by (rule withCollection_public) (simp add: mustValidName_def DB_write_public waited_map finish_public)
qed

subsection \<open>Properties\<close>

text \<open>
  C12: The reserved namespace is invisible to the data endpoints.  On a server whose database has
  lost all reserved collections, every data endpoint gives the same response to every request and
  moves to the corresponding state: what users, tokens and server state are stored has no
  influence on what a client can read or on the outcome of its writes.
\<close>

theorem metadata_invisible:
  "list_all (\<lambda>(path, rt). rt_handler rt ce r (public s) = mapState public (rt_handler rt ce r s)) dataRoutes"
  by (simp add: dataRoutes_def mkRoute_def readers_public writers_public)

text \<open>A run of requests, one after the other.\<close>

fun serveAll :: "(utc \<times> callEnv \<times> request) list \<Rightarrow> apiServer \<Rightarrow> apiServer" where
  "serveAll [] s = s"
| "serveAll ((now, ce, r) # rs) s = serveAll rs (case ServeHTTP now ce r s of None \<Rightarrow> s | Some (_, s') \<Rightarrow> s')"

lemma applyRec_elsewhere: "n \<noteq> Coll r \<Longrightarrow> fmlookup (colls (applyRec r d)) n = fmlookup (colls d) n"
  by (simp add: applyRec_def split: option.split)

lemma ServeHTTP_meta:
  assumes "c_noAuth (srv_cfg s)" "ServeHTTP now ce r s = Some (resp, s')"
  shows "c_noAuth (srv_cfg s') \<and> (reservedCollection n \<longrightarrow> fmlookup (colls (srv_db s')) n = fmlookup (colls (srv_db s)) n)"
proof -
  from ServeHTTP_stepTo [OF assms(2)] have cfg: "srv_cfg s' = srv_cfg s"
    and "srv_db s' = srv_db s \<or> (\<exists>rec c actor. DB_write rec (srv_db s) = (Inr c, srv_db s') \<and> actorRec (srv_cfg s) actor rec)"
    unfolding stepTo_def by blast+
  then consider "srv_db s' = srv_db s" | rec c where "DB_write rec (srv_db s) = (Inr c, srv_db s')" "\<not> reservedCollection (Coll rec)"
    using assms(1) unfolding actorRec_def by blast
  then show ?thesis
  proof cases
    case 2
    then have "reservedCollection n \<Longrightarrow> n \<noteq> Coll rec" by blast
    then show ?thesis using DB_write_colls(1) [OF 2(1)] applyRec_elsewhere [of n rec "srv_db s"] cfg assms(1) by simp
  qed (use cfg assms(1) in simp)
qed

text \<open>
  C32: Without authentication the reserved namespace is out of reach: no sequence of requests
  changes a reserved collection.
\<close>

theorem metadata_untouched:
  assumes "c_noAuth (srv_cfg s)" "reservedCollection n"
  shows "fmlookup (colls (srv_db (serveAll rs s))) n = fmlookup (colls (srv_db s)) n"
  using assms(1)
proof (induction rs arbitrary: s)
  case (Cons x rs)
  obtain now ce r where x: "x = (now, ce, r)" by (cases x) auto
  show ?case
  proof (cases "ServeHTTP now ce r s")
    case (Some ps)
    obtain resp s' where ps: "ps = (resp, s')" by fastforce
    show ?thesis
      using Cons.IH [of s'] ServeHTTP_meta [OF Cons.prems Some [unfolded ps], of n] assms(2) by (simp add: x Some ps)
  qed (use Cons x in simp)
qed simp

text \<open>Witness for C32: a delete request that changes the database.\<close>

theorem metadata_untouched_witness:
  "srv_db (serveAll [(demoTime, demoEnv, deleteRequest)] demoServer) \<noteq> srv_db demoServer \<and>
   fmlookup (colls (srv_db (serveAll [(demoTime, demoEnv, deleteRequest)] demoServer))) userCollection =
     fmlookup (colls (srv_db demoServer)) userCollection"
proof -
  have "c_noAuth (srv_cfg demoServer)" by (simp add: demoServer_def newAPIServer_def demoCfg_def)
  from metadata_untouched [OF this, of userCollection "[(demoTime, demoEnv, deleteRequest)]"] show ?thesis
    using demo_serve by auto
qed

end
