(* ===== verification/Http_Facts.thy ===== *)
theory Http_Facts
  imports Auth_Life Isolation
begin

text \<open>
  What clients of the data endpoints can rely on: a document set is the document read afterwards,
  and a server that has become unavailable stays so and leaves the database alone.
\<close>

fun responseOf :: "handled \<Rightarrow> response option" where
  "responseOf (Reply resp s) = Some resp"
| "responseOf (Panic resp s) = resp"
| "responseOf Hang = None"

lemma responseOf_simps [simp]:
  "responseOf (fails f s) = Some (writeFailure f)" "responseOf (internalError s) = Some (writeFailure failInternal)"
  "responseOf (replyValue n v s) = Some (case v of Some t \<Rightarrow> writeJSON [] n t | None \<Rightarrow> writeJSON [] n []\<lparr>rs_body := []\<rparr>)"
  by (simp_all add: fails_def internalError_def replyValue_def split: option.split)

lemma withDocument_target:
  assumes "readObject r (c_maxRequestSize (srv_cfg s)) names names = Inr flds" "documentTarget flds (c_maxIDSize (srv_cfg s)) = Inr (n, i)"
  shows "withDocument names k r s = k n i flds" "validName n"
  using assms documentTarget_ok [OF assms(2)] by (simp_all add: withDocument_def serverName)

lemma finish_204:
  assumes "finish s (waited f x) = Reply resp s'" "rs_status resp = 204"
  obtains c d where "x = (Inr c, d)" "s' = s\<lparr>srv_db := d\<rparr>"
proof -
  obtain err d where w: "waited f x = (err, d)" by fastforce
  have "err = None"
  proof (cases err)
    case (Some e)
    then have "mutationError e (s\<lparr>srv_db := d\<rparr>) = Reply resp s'" using assms(1) w by (simp add: finish_def)
    then show ?thesis using mutationError_status assms(2) by fastforce
  qed
  then show thesis using that assms(1) w waited_None [of f x d] by (auto simp: finish_def)
qed

text \<open>The response of \<open>/v1/get\<close> depends on the document only.\<close>

definition getResponse :: "error + bytes \<Rightarrow> response" where
  "getResponse x = (case x of
     Inl e \<Rightarrow> writeFailure (if e = ErrNotFound then failNotFound else if e = ErrClosed then failUnavailable else failInternal)
   | Inr document \<Rightarrow> (case documentResponse document of Some t \<Rightarrow> writeJSON [] 200 t | None \<Rightarrow> writeJSON [] 200 []\<lparr>rs_body := []\<rparr>))"

lemma handleGet_target:
  assumes "readObject r (c_maxRequestSize (srv_cfg s)) [''collection'', ''id''] [''collection'', ''id''] = Inr flds"
    "documentTarget flds (c_maxIDSize (srv_cfg s)) = Inr (n, i)"
  shows "responseOf (handleGet ce r s) = Some (getResponse (coll_Get rawCodec n i (srv_db s)))"
  using withDocument_target [OF assms] by (simp add: handleGet_def onCollection_ok getResponse_def split: sum.split)

subsection \<open>Storage failures\<close>

definition latched :: "handled \<Rightarrow> bool" where
  "latched h \<longleftrightarrow> (case h of
     Reply resp s \<Rightarrow> resp = writeFailure failStorage \<longrightarrow> srv_unavailable s
   | Panic resp s \<Rightarrow> resp \<noteq> Some (writeFailure failStorage)
   | Hang \<Rightarrow> True)"

named_theorems latches

lemma latched_status: "rs_status resp \<noteq> 500 \<Longrightarrow> latched (Reply resp s)" "rs_status resp \<noteq> 500 \<Longrightarrow> latched (Panic (Some resp) s)"
  by (auto simp: latched_def fail_defs failure_def)

lemma latched_fails [latches]: "f_status f \<noteq> 500 \<Longrightarrow> latched (fails f s)"
  by (simp add: fails_def latched_status)

lemma latched_replyValue [latches]: "n \<noteq> 500 \<Longrightarrow> latched (replyValue n v s)"
  by (simp add: replyValue_def writeJSON_def latched_status split: option.split)

lemma storage_not_internal: "writeFailure failInternal \<noteq> writeFailure failStorage"
  by code_simp

lemma latched_internal [latches]: "latched (internalError s)"
  by (simp add: internalError_def latched_def storage_not_internal)

lemma latched_Panic [latches]: "latched (Panic None s)" "latched Hang"
  by (simp_all add: latched_def)

lemma latched_mutationError [latches]: "(srv_failureOnce s \<longrightarrow> srv_unavailable s) \<Longrightarrow> latched (mutationError e s)"
  using latched_status(1) [of "writeFailure failDocumentTooLarge" s]
  by (cases e) (auto simp: mutationError_def latched_def markStorageFailure_def fail_defs failure_def)

lemma latched_finish [latches]: "(srv_failureOnce s \<longrightarrow> srv_unavailable s) \<Longrightarrow> latched (finish s x)"
  by (auto simp: finish_def writeNoContent_def intro!: latches latched_status split: prod.split option.split)

lemma target_status:
  "collectionTarget flds = Inl f \<Longrightarrow> f_status f \<noteq> 500" "documentTarget flds mx = Inl f \<Longrightarrow> f_status f \<noteq> 500"
  by (auto simp: collectionTarget_def documentTarget_def stringField_def fail_defs failure_def split: sum.splits option.splits if_splits)

lemma readObject_not500: "readObject r mx al rq = Inl f \<Longrightarrow> f_status f \<noteq> 500"
  using readObject_status by force

lemma latched_withDocument [latches]: "(\<And>c i flds. latched (k c i flds)) \<Longrightarrow> latched (withDocument names k r s)"
  by (auto simp: withDocument_def intro!: latches dest: readObject_not500 target_status split: sum.split)

lemma latched_withCollection [latches]: "(\<And>c. latched (k c)) \<Longrightarrow> latched (withCollection k r s)"
  by (auto simp: withCollection_def intro!: latches dest: readObject_not500 target_status split: sum.split)

lemma latched_onCollection [latches]: "(\<And>n. latched (k n)) \<Longrightarrow> latched (onCollection c s k)"
  by (auto simp: onCollection_def intro!: latches split: option.split)

lemma failures_not500 [simp]:
  "f_status failNotFound \<noteq> 500" "f_status failUnavailable \<noteq> 500" "f_status failInvalidRequest \<noteq> 500" "f_status failUserDisabled \<noteq> 500"
  "f_status failRouteNotFound \<noteq> 500" "f_status failForbidden \<noteq> 500" "f_status failMethod \<noteq> 500"
  by (simp_all add: fail_defs failure_def)

lemma latched_data [latches]:
  assumes "srv_failureOnce s \<longrightarrow> srv_unavailable s"
  shows "latched (handleCollections ce r s)" "latched (handleGet ce r s)" "latched (handleSet ce r s)" "latched (handleDelete ce r s)"
    "latched (handleHas ce r s)" "latched (handleCount ce r s)" "latched (handleScan ce r s)" "latched (handleDrop ce r s)"
  unfolding handleCollections_def handleGet_def handleSet_def handleDelete_def handleHas_def handleCount_def handleScan_def handleDrop_def
  using assms by (auto intro!: latches latched_status simp: Let_def split: sum.split option.split prod.split)

lemma latched_users [latches]:
  assumes "srv_failureOnce s \<longrightarrow> srv_unavailable s"
  shows "latched (handleUsers ce r s)" "latched (handleUserCreate ce r s)" "latched (handleUserUpdate ce r s)"
proof -
  show "latched (handleUsers ce r s)"
    unfolding handleUsers_def by (auto intro!: latches split: prod.split bool.split)
  show "latched (handleUserCreate ce r s)"
    unfolding handleUserCreate_def Let_def using assms
    by (auto intro!: latches dest: readObject_not500 split: sum.split option.split prod.split)
  have "latched (userUpdateReply uid (s\<lparr>srv_db := d\<rparr>) err)" for uid d err
    unfolding userUpdateReply_def using assms by (auto intro!: latches split: sum.split option.split)
  moreover have "newRoleField flds = Inl f \<Longrightarrow> f_status f \<noteq> 500" for flds f
    by (auto simp: newRoleField_def split: option.splits sum.splits if_splits)
  ultimately show "latched (handleUserUpdate ce r s)"
    unfolding handleUserUpdate_def
    by (auto intro!: latches dest: readObject_not500 split: sum.split option.split prod.split)
qed

lemma latched_tokens [latches]:
  assumes "srv_failureOnce s \<longrightarrow> srv_unavailable s"
  shows "latched (handleTokens ce r s)" "latched (handleTokenCreate ce r s)" "latched (handleTokenRevoke ce r s)"
proof -
  show "latched (handleTokens ce r s)"
    unfolding handleTokens_def by (auto intro!: latches dest: readObject_not500 split: sum.split prod.split bool.split)
  have "expiryField flds t = Inl f \<Longrightarrow> f_status f \<noteq> 500" for flds t f
    by (auto simp: expiryField_def split: option.splits sum.splits if_splits)
  then have "latched (issueToken ce flds uid label s)" for flds uid label
    unfolding issueToken_def Let_def using assms by (auto intro!: latches split: sum.split option.split prod.split)
  then show "latched (handleTokenCreate ce r s)"
    unfolding handleTokenCreate_def by (auto intro!: latches dest: readObject_not500 split: sum.split)
  show "latched (handleTokenRevoke ce r s)"
    unfolding handleTokenRevoke_def using assms by (auto intro!: latches dest: readObject_not500 split: sum.split)
qed

lemma latched_allow: "f_status f \<noteq> 500 \<Longrightarrow> latched (Reply (allowFailure m f) s)"
  by (rule latched_status(1)) (simp add: allowFailure_def Let_def writeFailure_def)

lemma latched_dispatch:
  assumes "srv_failureOnce s \<longrightarrow> srv_unavailable s"
  shows "latched (dispatchRoute actor ce r s)"
proof (cases "buildRoutes (srv_cfg s) (rq_path r)")
  case (Some rt)
  have "rt \<in> snd ` set dataRoutes \<or> rt \<in> snd ` set authRoutes" using buildRoutes_in [OF Some] by blast
  then have "latched (rt_handler rt ce r s)"
    using assms by (auto simp: dataRoutes_def authRoutes_def mkRoute_def intro!: latches)
  then show ?thesis by (auto simp: dispatchRoute_def Some intro!: latches latched_allow)
qed (simp add: dispatchRoute_def latches)

lemma noStore_inj: "noStore a = noStore b \<longleftrightarrow> a = b"
  by (cases a; cases b) (simp add: noStore_def)

lemma ServeHTTP_latched:
  assumes "srv_failureOnce s \<longrightarrow> srv_unavailable s" "ServeHTTP now ce r s = Some (noStore (writeFailure failStorage), s')"
  shows "srv_unavailable s'"
proof -
  have "latched (handleHealth ce r s)"
    by (auto simp: handleHealth_def intro!: latches latched_allow)
  then have "latched (routeRequest now ce r s)"
    using assms(1) authenticateRequest_fails [of now r s] latched_dispatch
    by (auto simp: routeRequest_def fail_defs failure_def intro!: latches split: sum.split)
  then show ?thesis
    using assms(2) storage_not_internal
    by (auto simp: ServeHTTP_def latched_def noStore_inj split: handled.splits option.splits)
qed

lemma unavailable_step:
  assumes "srv_unavailable s \<or> srv_shuttingDown s" "ServeHTTP now ce r s = Some (resp, s')"
  shows "s' = s"
  using assms by (auto simp: ServeHTTP_def routeRequest_def handleHealth_def fails_def split: if_splits)

lemma unavailable_run: "srv_unavailable s \<or> srv_shuttingDown s \<Longrightarrow> serveAll rs s = s"
proof (induction rs)
  case (Cons x rs)
  obtain now ce r where "x = (now, ce, r)" by (cases x) auto
  then show ?case using Cons unavailable_step [OF Cons.prems, of now ce r] by (auto split: option.split)
qed simp

subsection \<open>Properties\<close>

text \<open>
  C21: Reading back through the API.  After \<open>/v1/set\<close> was answered with status 204,
  \<open>/v1/get\<close> for the same document answers with status 200 and the document that was sent, in
  compact form, and for every other document it answers what it would have answered before.
\<close>

theorem http_set_get:
  assumes "readObject r (c_maxRequestSize (srv_cfg s)) [''collection'', ''id'', ''document''] [''collection'', ''id'', ''document''] = Inr flds"
    "documentTarget flds (c_maxIDSize (srv_cfg s)) = Inr (n, i)" "fmlookup flds ''document'' = Some raw" "compact raw = Some doc"
    and "handleSet ce r s = Reply resp s'" "rs_status resp = 204"
    and "readObject r' (c_maxRequestSize (srv_cfg s)) [''collection'', ''id''] [''collection'', ''id''] = Inr flds'"
    "documentTarget flds' (c_maxIDSize (srv_cfg s)) = Inr (m, j)"
  shows "responseOf (handleGet ce' r' s') =
     (if (m, j) = (n, i) then Some (writeJSON [] 200 (renderObject [(''document'', doc)])) else responseOf (handleGet ce' r' s))"
proof -
  have h: "finish s (waited (ce_outcome ce) (coll_Set rawCodec n i raw (srv_db s))) = Reply resp s'"
    using assms(3,5) withDocument_target [OF assms(1,2)] by (simp add: handleSet_def onCollection_ok)
  obtain c d where d: "coll_Set rawCodec n i raw (srv_db s) = (Inr c, d)" "s' = s\<lparr>srv_db := d\<rparr>"
    using finish_204 [OF h assms(6)] .
  have raw: "raw \<noteq> []" using assms(4) by (auto simp: compact_def scanFuel_def)
  note G = set_raw [OF d(1) raw, unfolded sum.case]
  have "compact doc = Some doc" by (rule canon_compact [OF compact_canon [OF assms(4)]])
  then show ?thesis
    using G assms(4) handleGet_target [of r' s' flds' m j ce'] handleGet_target [of r' s flds' m j ce'] assms(7,8) d(2)
    by (auto simp: getResponse_def documentResponse_def)
qed

text \<open>Witness for C21: a number, set and read back.\<close>

definition setRequest :: request where
  "setRequest = demoRequest (renderObject [(''collection'', quote ''c''), (''id'', quote ''x''), (''document'', ''1'')])"

lemma setRequest_fields:
  "readObject setRequest 100 [''collection'', ''id'', ''document''] [''collection'', ''id'', ''document''] =
     Inr (fmupd ''document'' ''1'' (fmupd ''id'' (quote ''x'') (fmupd ''collection'' (quote ''c'') fmempty)))"
proof -
  let ?kvs = "[(''collection'', quote ''c''), (''id'', quote ''x''), (''document'', ''1'')]"
  have k: "plainText ''collection''" "plainText ''id''" "plainText ''document''" "plainText ''c''" "plainText ''x''" by code_simp+
  have b: "renderObject ?kvs = ''{\"collection\":\"c\",\"id\":\"x\",\"document\":1}''"
    unfolding quote_plain [OF k(4)] quote_plain [OF k(5)] by code_simp
  have c: "canonAt 9999 (quote x)" "canonAt 9999 ''1''" for x
    using canon_quote by blast (rule canonAt_mono [of 1], code_simp, simp)
  have "readObject (demoRequest (renderObject ?kvs)) 100 [''collection'', ''id'', ''document''] [''collection'', ''id'', ''document''] =
      Inr (foldl (\<lambda>m (k, v). fmupd k v m) fmempty ?kvs)"
    by (rule readObject_plain [OF refl]) (use k c in \<open>simp_all add: b\<close>, code_simp+)
  then show ?thesis by (simp add: setRequest_def)
qed

theorem http_set_get_witness:
  "\<exists>s'. handleSet demoEnv setRequest demoServer = Reply writeNoContent s' \<and>
     responseOf (handleGet demoEnv (demoRequest demoBody) s') = Some (writeJSON [] 200 (renderObject [(''document'', ''1'')]))"
proof -
  let ?flds = "fmupd ''document'' ''1'' (fmupd ''id'' (quote ''x'') (fmupd ''collection'' (quote ''c'') fmempty))"
  let ?flds' = "fmupd ''id'' (quote ''x'') (fmupd ''collection'' (quote ''c'') fmempty)"
  have cfg: "c_maxRequestSize (srv_cfg demoServer) = 100" "c_maxIDSize (srv_cfg demoServer) = 10" "srv_db demoServer = oneDoc"
    by (simp_all add: demoServer_def newAPIServer_def demoCfg_def)
  have u: "validUTF8 ''c''" "validUTF8 ''x''" by (simp_all add: validUTF8_plainI)
  have f: "stringField ?flds ''collection'' = Inr ''c''" "stringField ?flds ''id'' = Inr ''x''"
    "stringField ?flds' ''collection'' = Inr ''c''" "stringField ?flds' ''id'' = Inr ''x''"
    by (rule stringField_quote; simp add: u)+
  have v: "validCollectionName ''c''" "\<not> reservedCollection ''c''" by (simp_all add: validCollectionName_def reservedCollection_def)
  have t: "documentTarget ?flds 10 = Inr (''c'', ''x'')" "documentTarget ?flds' 10 = Inr (''c'', ''x'')"
    by (simp_all add: documentTarget_def f v u)
  have one: "canonAt 9999 ''1''" by (rule canonAt_mono [of 1], code_simp, simp)
  then have k: "compact ''1'' = Some ''1''" by (intro canon_compact canonAt_mono [OF one]) (simp add: maxNestingDepth_def)
  have e: "enc rawCodec ''1'' = Inr ''1''" by (simp add: rawCodec_def k)
  obtain c d where d: "coll_Set rawCodec ''c'' ''x'' ''1'' oneDoc = (Inr c, d)"
    using raw.set_ok [OF one _ e, of oneDoc "''c''" "''x''"] by (auto simp: oneDoc_def newDB_def defaultOptions_def)
  note r = setRequest_fields [folded cfg(1)] and r' = demo_readObject [folded cfg(1)]
  have h: "handleSet demoEnv setRequest demoServer = Reply writeNoContent (demoServer\<lparr>srv_db := d\<rparr>)"
    using withDocument_target [OF r] t(1) d
    by (simp add: handleSet_def onCollection_ok finish_def waited_def demoEnv_def cfg)
  show ?thesis
    using http_set_get [OF r _ _ k h _ r', of "''c''" "''x''" "''c''" "''x''" demoEnv] h by (simp add: t cfg(2))
qed

text \<open>
  C20: A storage failure stops the server for good.  Once a request has been answered with the storage
  error, no later request, whatever came in between, changes anything or is answered with success.
  Every request below \<open>/v1\<close> and every well-formed health check is answered with status 503; a
  health check with another method, a query or a body is refused with 405 or 400, and any other
  path with 404.
\<close>

theorem storage_failure_latches:
  assumes "srv_failureOnce s0 \<longrightarrow> srv_unavailable s0" "ServeHTTP now0 ce0 r0 s0 = Some (noStore (writeFailure failStorage), s)"
  shows "serveAll rs s = s \<and> (\<exists>resp. ServeHTTP now ce r (serveAll rs s) = Some (noStore resp, s) \<and>
     rs_status resp \<in> {400, 404, 405, 503} \<and> resp =
     (if rq_path r = ''/v1'' \<or> prefix ''/v1/'' (rq_path r) then writeFailure failUnavailable
      else if rq_path r \<noteq> ''/healthz'' then writeFailure failRouteNotFound
      else if rq_method r \<noteq> ''GET'' then allowFailure ''GET'' failMethod
      else if rq_rawQuery r \<noteq> [] \<or> rq_contentLength r \<noteq> 0 \<or> rq_transferEncoding r \<noteq> [] then writeFailure failInvalidRequest
      else writeFailure failUnavailable))"
proof -
  have u: "srv_unavailable s" by (rule ServeHTTP_latched [OF assms])
  have h: "prefix ''/v1/'' (rq_path r) \<Longrightarrow> rq_path r \<noteq> ''/healthz''" by auto
  have "f_status failUnavailable = 503" "f_status failRouteNotFound = 404" "f_status failInvalidRequest = 400"
    "rs_status (allowFailure ''GET'' failMethod) = 405"
    by (simp_all add: fail_defs failure_def allowFailure_def Let_def)
  then show ?thesis
    using u h unavailable_run [of s rs] by (simp add: ServeHTTP_def routeRequest_def handleHealth_def fails_def)
qed

text \<open>Witness for C20: the worker reports an I/O error for a delete request.\<close>

theorem storage_failure_latches_witness:
  "\<exists>s. ServeHTTP demoTime (demoEnv\<lparr>ce_outcome := (\<lambda>_. Some (ErrSys EIO))\<rparr>) deleteRequest demoServer =
       Some (noStore (writeFailure failStorage), s) \<and>
     (\<exists>resp. ServeHTTP demoTime demoEnv deleteRequest (serveAll [(demoTime, demoEnv, setRequest)] s) = Some (noStore resp, s) \<and> resp = writeFailure failUnavailable)"
proof -
  let ?ce = "demoEnv\<lparr>ce_outcome := (\<lambda>_. Some (ErrSys EIO))\<rparr>"
  obtain c d where w: "DB_write \<lparr>Op = opDel, Coll = ''c'', ID = ''x'', Doc = []\<rparr> oneDoc = (Inr c, d)"
    using demo_delete by blast
  have n: "validName ''c''" by (simp add: validName_def maxNameLen_def nameChar_def)
  have "withDocument [''collection'', ''id''] k deleteRequest demoServer =
      k ''c'' ''x'' (fmupd ''id'' (quote ''x'') (fmupd ''collection'' (quote ''c'') fmempty))" for k
    by (rule demo_withDocument [where d = oneDoc and b = True and p = "''/v1/delete''" and a = "[]"])
       (simp_all add: demoServer_def deleteRequest_def demoCfg_def demoRequest_def)
  then have "handleDelete ?ce deleteRequest demoServer = Reply (writeFailure failStorage) (markStorageFailure (ErrSys EIO) (demoServer\<lparr>srv_db := d\<rparr>))"
    using w n by (simp add: handleDelete_def onCollection_ok finish_def waited_def coll_Delete_def mutationError_def demoServer_def newAPIServer_def)
  moreover have "routeRequest demoTime ?ce deleteRequest demoServer = handleDelete ?ce deleteRequest demoServer"
    by (simp add: routeRequest_def deleteRequest_def demoRequest_def demoServer_def newAPIServer_def demoCfg_def dispatchRoute_def
        buildRoutes_def dataRoutes_def mkRoute_def)
  ultimately have f: "ServeHTTP demoTime ?ce deleteRequest demoServer =
      Some (noStore (writeFailure failStorage), markStorageFailure (ErrSys EIO) (demoServer\<lparr>srv_db := d\<rparr>))"
    by (simp add: ServeHTTP_def)
  have a: "srv_failureOnce demoServer \<longrightarrow> srv_unavailable demoServer" by (simp add: demoServer_def newAPIServer_def)
  have "rq_path deleteRequest = ''/v1/delete''" by (simp add: deleteRequest_def)
  then show ?thesis using storage_failure_latches [OF a f, of "[(demoTime, demoEnv, setRequest)]" demoTime demoEnv deleteRequest] f by auto
qed

end
