(* ===== verification/Auth_Setup.thy ===== *)
theory Auth_Setup
  imports Auth_Life
begin

text \<open>
  Changing a user: which user a token stands for, and what an update of a user's record does to the
  tokens that stand for it and to the others.
\<close>

subsection \<open>Who a token stands for\<close>

definition tokenUser :: "string \<Rightarrow> utc \<Rightarrow> db \<Rightarrow> string option" where
  "tokenUser token now d = (if \<not> validToken token then None
     else case coll_Get tokenCodec tokenCollection (tokenID token) d of
       Inl _ \<Rightarrow> None
     | Inr record \<Rightarrow> if validateTokenRecord (tokenID token) record \<and> active record now then Some (k_UserID record) else None)"

definition userRole :: "string \<Rightarrow> db \<Rightarrow> role option" where
  "userRole uid d = (case coll_Get userCodec userCollection uid d of
     Inl _ \<Rightarrow> None
   | Inr user \<Rightarrow> if validateUserRecord uid user \<and> \<not> u_Disabled user then Some (u_Role user) else None)"

lemma authenticate_split: "authenticate token now d = (case tokenUser token now d of None \<Rightarrow> None | Some uid \<Rightarrow> userRole uid d)"
  by (auto simp: authenticate_def tokenUser_def userRole_def Let_def split: sum.split)

lemma update_as_set:
  assumes "coll_update cd n i fn d = Some (Inr c, d')"
  obtains v v' where "coll_Get cd n i d = Inr v" "fn v = Some (Inr v')" "coll_Set cd n i v' d = (Inr c, d')"
proof -
  obtain raw v v' out where x: "\<not> closed d" "fmlookup (fmget (colls d) n) i = Some raw" "dec cd raw = Inr v"
    "fn v = Some (Inr v')" "enc cd v' = Inr out" "checkDocSize out d = None"
    "DB_write \<lparr>Op = opSet, Coll = n, ID = i, Doc = out\<rparr> d = (Inr c, d')"
    using assms by (auto simp: coll_update_def Let_def DB_write_def split: if_splits option.splits sum.splits prod.splits)
  then show thesis using that [of v v'] by (simp add: coll_Set_def coll_Get_def DB_read_def)
qed

text \<open>A successful update of a user.\<close>

lemma userUpdate_ok:
  assumes "handleUserUpdate ce r s = Reply resp s'" "rs_status resp = 200"
  obtains flds uid newRole dis user user' c where
    "readObject r (c_maxRequestSize (srv_cfg s)) [''user_id'', ''role'', ''disabled''] [''user_id''] = Inr flds"
    "stringField flds ''user_id'' = Inr uid" "newRoleField flds = Inr newRole" "optionalBoolField flds ''disabled'' = Inr dis"
    "coll_Get userCodec userCollection uid (srv_db s) = Inr user"
    "changeUser uid newRole dis (timeFormat (ce_clock ce 0)) user = Some (Inr user')"
    "coll_Set userCodec userCollection uid user' (srv_db s) = (Inr c, srv_db s')"
proof -
  have no: "\<not> (mutationError e q = Reply resp s')" "\<not> (internalError q = Reply resp s')" for e q
    using assms(2) mutationError_status refusals(2) by force+
  have nf: "\<not> (fails f q = Reply resp s')" if "f_status f \<noteq> 200" for f q
    using assms(2) that refusals(1) by force
  have st: "f_status failInvalidRequest \<noteq> 200" "f_status failNotFound \<noteq> 200" by (simp_all add: fail_defs failure_def)
  obtain flds where f: "readObject r (c_maxRequestSize (srv_cfg s)) [''user_id'', ''role'', ''disabled''] [''user_id''] = Inr flds"
    using assms readObject_status refusals(1) by (fastforce simp: handleUserUpdate_def split: sum.splits)
  have rf: "newRoleField flds = Inl f \<Longrightarrow> f_status f \<noteq> 200" for f
    using st by (auto simp: newRoleField_def split: option.splits sum.splits if_splits)
  obtain uid newRole dis where p: "stringField flds ''user_id'' = Inr uid" "newRoleField flds = Inr newRole" "optionalBoolField flds ''disabled'' = Inr dis"
    using assms(1) nf st rf by (auto simp: handleUserUpdate_def f split: sum.splits if_splits)
  obtain err d where u: "coll_Update (ce_outcome ce) userCodec userCollection uid (changeUser uid newRole dis (timeFormat (ce_clock ce 0))) (srv_db s) = Some (err, d)"
    "userUpdateReply uid (s\<lparr>srv_db := d\<rparr>) err = Reply resp s'"
    using assms(1) nf [OF st(1)] by (auto simp: handleUserUpdate_def f p split: if_splits option.splits)
  have e: "err = None" "srv_db s' = d"
    using u(2) no nf st by (auto simp: userUpdateReply_def replyValue_def split: option.splits if_splits sum.splits)
  obtain c where "coll_update userCodec userCollection uid (changeUser uid newRole dis (timeFormat (ce_clock ce 0))) (srv_db s) = Some (Inr c, d)"
    using u(1) e(1) by (auto simp: coll_Update_def dest: waited_None)
  then show thesis using update_as_set that [OF f p] e(2) by metis
qed

lemma changeUser_fields:
  assumes "changeUser uid newRole dis now user = Some (Inr user')"
  shows "validateUserRecord uid user" "u_Name user' = u_Name user" "u_CreatedAt user' = u_CreatedAt user" "u_UpdatedAt user' = now"
    "u_Role user' = (case newRole of None \<Rightarrow> u_Role user | Some x \<Rightarrow> x)"
    "u_Disabled user' = (case dis of None \<Rightarrow> u_Disabled user | Some b \<Rightarrow> b)"
  using assms by (auto simp: changeUser_def Let_def split: if_splits option.splits)

text \<open>
  The changed record has valid fields, but its time of change comes before its creation when the clock
  has gone back behind the creation of the user; then it is invalid.
\<close>

definition clockBack :: "utc \<Rightarrow> userRecord \<Rightarrow> bool" where
  "clockBack now user \<longleftrightarrow> (case parseUTCTimestamp (u_CreatedAt user) of None \<Rightarrow> False | Some created \<Rightarrow> Before now created)"

lemma changeUser_validates:
  assumes "changeUser uid newRole dis (timeFormat now) user = Some (Inr user')" "validTime now"
    "\<And>x. newRole = Some x \<Longrightarrow> validRole x"
  shows "validateUserRecord uid user' \<longleftrightarrow> \<not> clockBack now user"
  using changeUser_fields [OF assms(1)] assms(2,3)
  by (auto simp: validateUserRecord_def clockBack_def parse_format split: option.splits)

subsection \<open>Properties\<close>

text \<open>
  C17: Changing a user takes effect with the response, whatever the clock shows.  After a successful
  \<open>/v1/auth/users/update\<close> the tokens of the user act with its new role, or not at all if it is
  disabled now; every other token acts as before.  If the clock has gone back behind the creation
  of the user, its tokens do not act at all, because the stored record is invalid from then on.
\<close>

theorem user_update_effect:
  assumes "handleUserUpdate ce r s = Reply resp s'" "rs_status resp = 200" "validTime (ce_clock ce 0)"
  shows "\<exists>flds uid newRole dis user.
     readObject r (c_maxRequestSize (srv_cfg s)) [''user_id'', ''role'', ''disabled''] [''user_id''] = Inr flds \<and>
     stringField flds ''user_id'' = Inr uid \<and> newRoleField flds = Inr newRole \<and> optionalBoolField flds ''disabled'' = Inr dis \<and>
     coll_Get userCodec userCollection uid (srv_db s) = Inr user \<and>
     (\<forall>token now. authenticate token now (srv_db s') =
        (if tokenUser token now (srv_db s) = Some uid
         then (if (case dis of None \<Rightarrow> u_Disabled user | Some b \<Rightarrow> b) \<or> clockBack (ce_clock ce 0) user then None
               else Some (case newRole of None \<Rightarrow> u_Role user | Some x \<Rightarrow> x))
         else authenticate token now (srv_db s)))"
proof -
  obtain flds uid newRole dis user user' c where f:
    "readObject r (c_maxRequestSize (srv_cfg s)) [''user_id'', ''role'', ''disabled''] [''user_id''] = Inr flds"
    "stringField flds ''user_id'' = Inr uid" "newRoleField flds = Inr newRole" "optionalBoolField flds ''disabled'' = Inr dis"
    "coll_Get userCodec userCollection uid (srv_db s) = Inr user"
    and u: "changeUser uid newRole dis (timeFormat (ce_clock ce 0)) user = Some (Inr user')"
    "coll_Set userCodec userCollection uid user' (srv_db s) = (Inr c, srv_db s')"
    using userUpdate_ok [OF assms(1,2)] by metis
  note F = changeUser_fields [OF u(1)]
  have v: "validateUserRecord uid user' \<longleftrightarrow> \<not> clockBack (ce_clock ce 0) user"
    using changeUser_validates [OF u(1) assms(3)] newRoleField_valid [OF f(3)] by blast
  have "userUTF8 user'" using changeUser_valid [OF u(1) got_user [OF f(5)]] newRoleField_valid [OF f(3)] by simp
  note G = users.set_get [OF this u(2)]
  have "tokenUser token now (srv_db s') = tokenUser token now (srv_db s)" for token now
    using set_other [OF u(2), of tokenCollection "tokenID token" tokenCodec] by (simp add: tokenUser_def)
  moreover have "userRole i (srv_db s') = (if i = uid then if u_Disabled user' \<or> clockBack (ce_clock ce 0) user then None else Some (u_Role user') else userRole i (srv_db s))" for i
    using G [of userCollection i] v by (simp add: userRole_def)
  ultimately have "authenticate token now (srv_db s') = (if tokenUser token now (srv_db s) = Some uid
      then if u_Disabled user' \<or> clockBack (ce_clock ce 0) user then None else Some (u_Role user') else authenticate token now (srv_db s))" for token now
    by (simp add: authenticate_split split: option.split)
  then show ?thesis using f unfolding F(5,6) by blast
qed

text \<open>Witness for C17: the one user of the server is disabled.\<close>

definition disableRequest :: request where
  "disableRequest = demoRequest (renderObject [(''user_id'', quote demoUID), (''disabled'', ''true'')])"

lemma disableRequest_fields:
  "readObject disableRequest 1000 [''user_id'', ''role'', ''disabled''] [''user_id''] =
     Inr (fmupd ''disabled'' ''true'' (fmupd ''user_id'' (quote demoUID) fmempty))"
proof -
  let ?kvs = "[(''user_id'', quote demoUID), (''disabled'', ''true'')]"
  have k: "plainText ''user_id''" "plainText ''disabled''" by simp_all
  have b: "renderObject ?kvs = ''{\"user_id\":\"00000000000000000000000000000000\",\"disabled\":true}''"
    unfolding quote_plain [OF demoUID_valid(2)] demoUID_def by code_simp
  have c: "canonAt 9999 (quote x)" "canonAt 9999 ''true''" for x
    using canon_quote canon_literals by auto
  have "readObject (demoRequest (renderObject ?kvs)) 1000 [''user_id'', ''role'', ''disabled''] [''user_id''] =
      Inr (foldl (\<lambda>m (k, v). fmupd k v m) fmempty ?kvs)"
    by (rule readObject_plain [OF refl]) (use k c in \<open>simp_all add: b\<close>, code_simp+)
  then show ?thesis by (simp add: disableRequest_def)
qed

lemma set_as_update:
  assumes "coll_Get cd n i d = Inr v" "fn v = Some (Inr v')" "coll_Set cd n i v' d = (Inr c, d')"
  shows "coll_update cd n i fn d = Some (Inr c, d')"
  using assms by (auto simp: coll_Get_def DB_read_def coll_Set_def coll_update_def DB_write_def Let_def
      split: if_splits option.splits sum.splits prod.splits)

lemma demo_disable:
  assumes "coll_Get userCodec userCollection demoUID (srv_db s) = Inr (newUser ''ann'' rl demoTime)" "rl = roleWriter \<or> rl = roleAdmin"
    "\<not> closed (srv_db s)" "opts (srv_db s) = defaultOptions" "c_maxRequestSize (srv_cfg s) = 1000"
  shows "\<exists>resp d c. handleUserUpdate demoEnv disableRequest s = Reply resp (s\<lparr>srv_db := d\<rparr>) \<and> rs_status resp = 200 \<and>
    coll_Set userCodec userCollection demoUID ((newUser ''ann'' rl demoTime)\<lparr>u_Disabled := True\<rparr>) (srv_db s) = (Inr c, d)"
proof -
  let ?d = "srv_db s" and ?u = "newUser ''ann'' rl demoTime"
  let ?u' = "?u\<lparr>u_Disabled := True\<rparr>"
  let ?flds = "fmupd ''disabled'' ''true'' (fmupd ''user_id'' (quote demoUID) fmempty)"
  have f: "stringField ?flds ''user_id'' = Inr demoUID"
    by (rule stringField_quote) (simp_all add: plainText_body(4) demoUID_valid(2))
  have g: "newRoleField ?flds = Inr None" "optionalBoolField ?flds ''disabled'' = Inr (Some True)"
    by (simp_all add: newRoleField_def optionalBoolField_def isJSONNull_def trimSpace_def isSpace_def unmarshalBool_def)
  have "validateUserRecord demoUID ?u" 
    using newUser_ok(1) [OF demoTime_valid _ _ demoUID_valid(1), of "''ann''" rl] assms(2) by (auto simp: validateLabel_def validRole_def)
  then have c: "changeUser demoUID None (Some True) (timeFormat (ce_clock demoEnv 0)) ?u = Some (Inr ?u')"
    by (simp add: changeUser_def newUser_def demoEnv_def)
  have u: "userUTF8 ?u'" using changeUser_valid [OF c got_user [OF assms(1)]] by simp
  have "int (length (userText ((newUser ''ann'' roleWriter demoTime)\<lparr>u_Disabled := True\<rparr>))) \<le> maxDocSize defaultOptions"
    "int (length (userText ((newUser ''ann'' roleAdmin demoTime)\<lparr>u_Disabled := True\<rparr>))) \<le> maxDocSize defaultOptions" by code_simp+
  then have "int (length (userText ?u')) \<le> maxDocSize defaultOptions" using assms(2) by auto
  then obtain cid d' where w: "coll_Set userCodec userCollection demoUID ?u' ?d = (Inr cid, d')"
    using users.set_ok [OF u assms(3)] assms(4) by (fastforce simp: userCodec_def)
  have p: "coll_Update (ce_outcome demoEnv) userCodec userCollection demoUID (changeUser demoUID None (Some True) (timeFormat (ce_clock demoEnv 0))) ?d = Some (None, d')"
    using set_as_update [where fn = "changeUser demoUID None (Some True) (timeFormat (ce_clock demoEnv 0))", OF assms(1) c w]
    by (simp add: coll_Update_def waited_def demoEnv_def)
  have "coll_Get userCodec userCollection demoUID d' = Inr ?u'" using users.set_get [OF u w] by simp
  then show ?thesis
    using demoUID_valid(1) p w by (simp add: handleUserUpdate_def assms(5) disableRequest_fields f g userUpdateReply_def replyValue_def)
qed

theorem user_update_effect_witness:
  "\<exists>resp s'. handleUserUpdate demoEnv disableRequest authServer = Reply resp s' \<and>
     (\<forall>token now. tokenUser token now (srv_db authServer) = Some demoUID \<longrightarrow> authenticate token now (srv_db s') = None)"
proof -
  have m: "c_maxRequestSize (srv_cfg authServer) = 1000" "\<not> closed (srv_db authServer)" "opts (srv_db authServer) = defaultOptions"
    by (simp_all add: authServer_def newAPIServer_def oneDoc_def newDB_def)
  obtain resp s' where h: "handleUserUpdate demoEnv disableRequest authServer = Reply resp s'" "rs_status resp = 200"
    using demo_disable [OF demoUser(1) _ m(2,3,1)] by blast
  have v: "validTime (ce_clock demoEnv 0)" by (simp add: demoEnv_def demoTime_valid)
  let ?flds = "fmupd ''disabled'' ''true'' (fmupd ''user_id'' (quote demoUID) fmempty)"
  have f: "stringField ?flds ''user_id'' = Inr demoUID"
    by (rule stringField_quote) (simp_all add: plainText_body(4) demoUID_valid(2))
  have g: "optionalBoolField ?flds ''disabled'' = Inr (Some True)"
    by (simp add: optionalBoolField_def isJSONNull_def trimSpace_def isSpace_def unmarshalBool_def)
  show ?thesis
    using user_update_effect [OF h v] h(1) by (auto simp: m(1) disableRequest_fields f g)
qed

end
