(* ===== verification/Auth_Init.thy ===== *)
theory Auth_Init
  imports Auth_Setup
begin

text \<open>
  The first start of a server with authentication: drawing identifiers ends, a successful
  initialization leaves a working administrator, and one that was interrupted can be resumed with
  the same credentials.
\<close>

subsection \<open>The documents of a collection\<close>

definition keysOf :: "string \<Rightarrow> db \<Rightarrow> string fset" where
  "keysOf n d = fmdom (fmget (colls d) n)"

lemma coll_Has_keys: "coll_Has n i d \<longleftrightarrow> \<not> closed d \<and> i |\<in>| keysOf n d"
  by (simp add: coll_Has_iff keysOf_def)

lemma coll_Count_keys: "coll_Count n d = (if closed d then 0 else fcard (keysOf n d))"
  by (simp add: coll_Count_def keysOf_def)

lemma set_keys:
  assumes "coll_Set cd n i x d = (Inr c, d')"
  shows "keysOf m d' = (if m = n then finsert i (keysOf n d) else keysOf m d)" "\<not> closed d" "\<not> closed d'" "opts d' = opts d"
proof -
  obtain b where w: "DB_write \<lparr>Op = opSet, Coll = n, ID = i, Doc = b\<rparr> d = (Inr c, d')"
    using assms by (auto simp: coll_Set_def split: option.splits sum.splits)
  note W = DB_write_colls [OF w]
  show "\<not> closed d" "\<not> closed d'" "opts d' = opts d" using W by simp_all
  show "keysOf m d' = (if m = n then finsert i (keysOf n d) else keysOf m d)"
    using W(1) by (auto simp: keysOf_def applyRec_def fmget_def opSet_def split: option.split)
qed

lemma not_found: "coll_Get cd n i d = Inl ErrNotFound \<Longrightarrow> \<not> closed d"
  by (auto simp: coll_Get_def DB_read_def split: if_splits)

lemma get_missing: "\<not> closed d \<Longrightarrow> i |\<notin>| keysOf n d \<Longrightarrow> coll_Get cd n i d = Inl ErrNotFound"
  by (auto simp: coll_Get_def DB_read_def keysOf_def fmdom_notD)

lemma get_present: "coll_Get cd n i d = Inr v \<Longrightarrow> i |\<in>| keysOf n d"
  by (auto simp: coll_Get_def DB_read_def keysOf_def fmlookup_dom_iff split: if_splits option.splits)

lemma keys_single: "fcard K = 1 \<Longrightarrow> i |\<in>| K \<Longrightarrow> K = {|i|}"
  by (metis One_nat_def card_1_singletonE fcard.rep_eq fset_inverse finsert.rep_eq bot_fset.rep_eq singletonD)

subsection \<open>Drawing identifiers\<close>









subsection \<open>Sizes\<close>

abbreviation initMarker :: stateRecord where
  "initMarker \<equiv> \<lparr>s_Version = 1, s_AuthInitialized = True\<rparr>"

lemma length_escapeASCII: "length (escapeASCII c) \<le> 6"
  by (simp add: escapeASCII_def uEsc_def)

lemma length_quoteBody: "length (quoteBody s) \<le> 6 * length s"
proof (induction s rule: quoteBody.induct)
  case (2 c cs)
  show ?case
  proof (cases "byte c < 128")
    case True
    then show ?thesis using 2(1) length_escapeASCII [of c] by (simp add: quoteBody.simps)
  next
    case False
    obtain r n where rn: "decodeRune (c # cs) = (r, n)" by fastforce
    note w = decodeRune_width [OF rn]
    show ?thesis
    proof (cases "badRune (c # cs)")
      case True
      then show ?thesis using False 2(2) by (simp add: quoteBody.simps)
    next
      case b: False
      have "length (quoteBody (drop n (c # cs))) \<le> 6 * (length (c # cs) - n)" using 2(3) [OF False b] rn by simp
      then show ?thesis using False b rn w by (auto simp: quoteBody.simps)
    qed
  qed
qed simp


lemma length_quote: "length (quote s) \<le> 6 * length s + 2"
  using length_quoteBody [of s] by (simp add: quote_def)

lemma length_timeFormat: "length (timeFormat t) \<le> 30"
proof -
  have "length (dropWhile P (rev (padded 9 n))) \<le> 9" for P n by (rule le_trans [OF length_dropWhile_le]) simp
  then have "length (formatFrac n) \<le> 10" for n by (simp add: formatFrac_def Let_def)
  then show ?thesis by (simp add: timeFormat_def)
qed

text \<open>The records of an initialization are short.\<close>

lemma length_records:
  "validateLabel name \<Longrightarrow> length (userText (newUser name roleAdmin now)) \<le> 2048"
  "validHexID uid 32 \<Longrightarrow> length (tokenText (newTokenRecord uid ''initial'' now None)) \<le> 2048"
  "length (stateText initMarker) \<le> 2048"
proof -
  have t: "length (quote (timeFormat now)) \<le> 182" using length_quote [of "timeFormat now"] length_timeFormat [of now] by linarith
  have r: "length (quote roleAdmin) \<le> 32" using length_quote [of roleAdmin] by (simp add: roleAdmin_def)
  show "length (userText (newUser name roleAdmin now)) \<le> 2048" if "validateLabel name"
    using that t r length_quote [of name] by (simp add: userText_def newUser_def renderObject_def validateLabel_def FormatBool_def)
  have l: "length (quote ''initial'') \<le> 44" using length_quote [of "''initial''"] by simp
  show "length (tokenText (newTokenRecord uid ''initial'' now None)) \<le> 2048" if "validHexID uid 32"
    using that t l length_quote [of uid] by (simp add: tokenText_def newTokenRecord_def renderObject_def strPtrText_def validHexID_def split: if_splits)
  show "length (stateText initMarker) \<le> 2048"
    by (simp add: stateText_def renderObject_def intText_one FormatBool_def)
qed

subsection \<open>The stages of an initialization\<close>

definition tokenReady :: "string \<Rightarrow> tokenRecord \<Rightarrow> db \<Rightarrow> bool" where
  "tokenReady tid record d \<longleftrightarrow> \<not> closed d \<and> keysOf tokenCollection d = {|tid|} \<and>
     coll_Get tokenCodec tokenCollection tid d = Inr record \<and> validateTokenRecord tid record \<and>
     k_Label record = ''initial'' \<and> k_ExpiresAt record = None"

definition userReady :: "string \<Rightarrow> string \<Rightarrow> userRecord \<Rightarrow> db \<Rightarrow> bool" where
  "userReady name uid user d \<longleftrightarrow> keysOf userCollection d = {|uid|} \<and> coll_Get userCodec userCollection uid d = Inr user \<and>
     validateUserRecord uid user \<and> u_Name user = name \<and> u_Role user = roleAdmin \<and> \<not> u_Disabled user"

definition marked :: "db \<Rightarrow> bool" where
  "marked d \<longleftrightarrow> coll_Get stateCodec stateCollection stateID d = Inr \<lparr>s_Version = 1, s_AuthInitialized = True\<rparr>"

lemma meta_neq [simp]: "stateCollection \<noteq> userCollection" "stateCollection \<noteq> tokenCollection"
  "userCollection \<noteq> stateCollection" "tokenCollection \<noteq> stateCollection"
  by (simp_all add: meta_defs)

lemma ready_set:
  assumes "coll_Set cd n i x d = (Inr c, d')"
  shows "n \<noteq> tokenCollection \<Longrightarrow> tokenReady tid record d' = tokenReady tid record d"
    "n \<noteq> userCollection \<Longrightarrow> userReady name uid user d' = userReady name uid user d"
    "n \<noteq> stateCollection \<Longrightarrow> coll_Get stateCodec stateCollection stateID d' = coll_Get stateCodec stateCollection stateID d"
  using set_keys [OF assms] set_other [OF assms, of tokenCollection tid tokenCodec] set_other [OF assms, of userCollection uid userCodec]
    set_other [OF assms, of stateCollection stateID stateCodec]
  by (auto simp: tokenReady_def userReady_def)

lemma distinct_singleton_list_eq: "distinct xs \<Longrightarrow> set xs = {x} \<Longrightarrow> xs = [x]"
  by (cases xs; cases "tl xs") auto

text \<open>With the administrator's records in place, a marked database starts without further ado.\<close>

lemma hasActiveAdmin_ready:
  assumes "tokenReady tid record d" "userReady name (k_UserID record) user d"
  shows "hasActiveAdmin now d = Inr True"
proof -
  let ?snap = "fmget (colls d) tokenCollection"
  have k: "sortedKeys ?snap = [tid]"
  proof -
    have "fmdom ?snap = {|tid|}" using assms(1) by (simp add: tokenReady_def keysOf_def)
    then have "set (sortedKeys ?snap) = {tid}" by (simp add: fmdom'_alt_def)
    then show ?thesis using distinct_sortedKeys [of ?snap] by (metis distinct_singleton_list_eq)
  qed
  obtain raw where r: "fmlookup ?snap tid = Some raw" "dec tokenCodec raw = Inr record"
  proof -
    have "coll_Get tokenCodec tokenCollection tid d = Inr record" using assms(1) by (simp add: tokenReady_def)
    then show thesis using that by (auto simp: coll_Get_def DB_read_def split: if_splits option.splits)
  qed
  have "adminToken now d tid record"
    using assms by (simp add: adminToken_def tokenReady_def userReady_def active_def)
  then show ?thesis
    using assms(1) k r by (simp add: hasActiveAdmin_def coll_All_def tokenReady_def Let_def)
qed

lemma initializeAuth_marked:
  assumes "marked d" "tokenReady tid record d" "userReady name (k_UserID record) user d"
  shows "initializeAuth out clock rnd getenv readFile d = (Some None, d)"
  using assms(1) hasActiveAdmin_ready [OF assms(2,3)]
  by (simp add: initializeAuth_def marked_def validateStateRecord_def)

text \<open>The three writes.\<close>

lemma initTokenRecord_ready:
  assumes "initTokenRecord out clock rnd tid d = (Some (Inr record), d1)" "\<not> closed d" "validTime (clock 0)" "validHexID tid 64"
    "\<forall>k. length (rnd k) \<ge> 16"
  shows "tokenReady tid record d1" "keysOf userCollection d1 = keysOf userCollection d" "opts d1 = opts d"
    "coll_Get stateCodec stateCollection stateID d1 = coll_Get stateCodec stateCollection stateID d"
    "coll_Get userCodec userCollection uid d1 = coll_Get userCodec userCollection uid d"
proof -
  have "tokenReady tid record d1 \<and> keysOf userCollection d1 = keysOf userCollection d \<and> opts d1 = opts d \<and>
    coll_Get stateCodec stateCollection stateID d1 = coll_Get stateCodec stateCollection stateID d \<and>
    coll_Get userCodec userCollection uid d1 = coll_Get userCodec userCollection uid d"
  proof (cases "coll_Get tokenCodec tokenCollection tid d")
    case (Inr rec)
    then have e: "d1 = d" "record = rec" "coll_Count tokenCollection d = 1" "validateTokenRecord tid rec" "k_Label rec = ''initial''" "k_ExpiresAt rec = None"
      using assms(1) by (auto simp: initTokenRecord_def split: if_splits)
    have "keysOf tokenCollection d = {|tid|}" using keys_single e(3) assms(2) get_present [OF Inr] by (simp add: coll_Count_keys)
    then show ?thesis using e assms(2) Inr by (simp add: tokenReady_def)
  next
    case (Inl e)
    obtain uid' where u: "coll_Count tokenCollection d = 0" "uniqueUserID rnd 0 d = Some uid'"
      "record = newTokenRecord uid' ''initial'' (clock 0) None"
      "waited out (coll_Set tokenCodec tokenCollection tid record d) = (None, d1)"
      using assms(1) Inl by (auto simp: initTokenRecord_def Let_def newTokenRecord_def split: if_splits option.splits prod.splits)
    obtain c where c: "coll_Set tokenCodec tokenCollection tid record d = (Inr c, d1)" using waited_None [OF u(4)] by blast
    have "validHexID uid' 32" using uniqueUserID_Some [OF u(2)] NewID_valid assms(5) by auto
    moreover have l: "validateLabel ''initial''" by (simp add: validateLabel_def)
    ultimately have ok: "validateTokenRecord tid record" "tokenUTF8 record"
      using newToken_ok [OF assms(3) l _ assms(4), of uid' None] u(3) by simp_all
    have "keysOf tokenCollection d = {||}" using u(1) assms(2) by (simp add: coll_Count_keys fcard_0_eq)
    then show ?thesis
      using set_keys [OF c] ready_set(3) [OF c] set_other [OF c, of userCollection uid userCodec] tokens.set_get [OF ok(2) c, of tokenCollection tid] ok(1) u(3)
      by (simp add: tokenReady_def newTokenRecord_def)
  qed
  then show "tokenReady tid record d1" "keysOf userCollection d1 = keysOf userCollection d" "opts d1 = opts d"
    "coll_Get stateCodec stateCollection stateID d1 = coll_Get stateCodec stateCollection stateID d"
    "coll_Get userCodec userCollection uid d1 = coll_Get userCodec userCollection uid d" by simp_all
qed

lemma initUserRecord_ready:
  assumes "initUserRecord out clock name uid d = (Inr user, d1)" "\<not> closed d" "validTime (clock 1)" "validHexID uid 32" "validateLabel name"
  shows "userReady name uid user d1" "tokenReady tid record d1 = tokenReady tid record d" "\<not> closed d1" "opts d1 = opts d"
    "coll_Get stateCodec stateCollection stateID d1 = coll_Get stateCodec stateCollection stateID d"
proof -
  have "userReady name uid user d1 \<and> tokenReady tid record d1 = tokenReady tid record d \<and> \<not> closed d1 \<and> opts d1 = opts d \<and>
    coll_Get stateCodec stateCollection stateID d1 = coll_Get stateCodec stateCollection stateID d"
  proof (cases "coll_Get userCodec userCollection uid d")
    case (Inr u)
    then have e: "d1 = d" "user = u" "coll_Count userCollection d = 1" "validateUserRecord uid u" "u_Name u = name" "u_Role u = roleAdmin" "\<not> u_Disabled u"
      using assms(1) by (auto simp: initUserRecord_def split: if_splits)
    have "keysOf userCollection d = {|uid|}" using keys_single e(3) assms(2) get_present [OF Inr] by (simp add: coll_Count_keys)
    then show ?thesis using e assms(2) Inr by (simp add: userReady_def)
  next
    case (Inl e)
    have u: "coll_Count userCollection d = 0" "user = newUser name roleAdmin (clock 1)"
      "waited out (coll_Set userCodec userCollection uid user d) = (None, d1)"
      using assms(1) Inl by (auto simp: initUserRecord_def Let_def newUser_def split: if_splits option.splits prod.splits)
    obtain c where c: "coll_Set userCodec userCollection uid user d = (Inr c, d1)" using waited_None [OF u(3)] by blast
    have "validRole roleAdmin" by (simp add: validRole_def)
    then have ok: "validateUserRecord uid user" "userUTF8 user"
      using newUser_ok [OF assms(3,5) _ assms(4), of roleAdmin] u(2) by simp_all
    have "keysOf userCollection d = {||}" using u(1) assms(2) by (simp add: coll_Count_keys fcard_0_eq)
    then show ?thesis
      using set_keys [OF c] ready_set [OF c] users.set_get [OF ok(2) c, of userCollection uid] ok(1) u(2)
      by (simp add: userReady_def newUser_def)
  qed
  then show "userReady name uid user d1" "tokenReady tid record d1 = tokenReady tid record d" "\<not> closed d1" "opts d1 = opts d"
    "coll_Get stateCodec stateCollection stateID d1 = coll_Get stateCodec stateCollection stateID d" by simp_all
qed

lemma marker_set:
  assumes "coll_Set stateCodec stateCollection stateID initMarker d = (Inr c, d1)"
  shows "marked d1" "tokenReady tid record d1 = tokenReady tid record d" "userReady name uid user d1 = userReady name uid user d"
  using state.set_get [OF _ assms, of stateCollection stateID] ready_set [OF assms] by (simp_all add: marked_def)

text \<open>A successful initialization of an unmarked database, step by step.\<close>

lemma initializeAuth_steps:
  assumes "initializeAuth out clock rnd getenv readFile d = (Some None, d')" "coll_Get stateCodec stateCollection stateID d = Inl ErrNotFound"
    "validTime (clock 0)" "validTime (clock 1)" "\<forall>k. length (rnd k) \<ge> 16"
  obtains token krec user where "initialToken getenv readFile = Inr token" "validToken token" "marked d'"
    "tokenReady (tokenID token) krec d'" "userReady (envString getenv ''MEDB_INIT_ADMIN_NAME'' ''admin'') (k_UserID krec) user d'"
proof -
  let ?name = "envString getenv ''MEDB_INIT_ADMIN_NAME'' ''admin''"
  obtain token where t: "initialToken getenv readFile = Inr token" "validateLabel ?name"
    using assms(1,2) by (auto simp: initializeAuth_def Let_def split: if_splits sum.splits)
  obtain krec d1 where r: "initTokenRecord out clock rnd (tokenID token) d = (Some (Inr krec), d1)"
    using assms(1,2) t by (auto simp: initializeAuth_def Let_def split: if_splits sum.splits prod.splits option.splits)
  obtain user d2 where u: "initUserRecord out clock ?name (k_UserID krec) d1 = (Inr user, d2)"
    using assms(1,2) t r by (auto simp: initializeAuth_def Let_def split: if_splits sum.splits prod.splits option.splits)
  have w: "waited out (coll_Set stateCodec stateCollection stateID initMarker d2) = (None, d')"
    using assms(1,2) t r u by (auto simp: initializeAuth_def Let_def split: if_splits prod.splits option.splits)
  obtain c where c: "coll_Set stateCodec stateCollection stateID initMarker d2 = (Inr c, d')" using waited_None [OF w] by blast
  note R = initTokenRecord_ready [OF r not_found [OF assms(2)] assms(3) tokenID_valid assms(5)]
  have "validHexID (k_UserID krec) 32" "\<not> closed d1" using R(1) by (simp_all add: tokenReady_def validateTokenRecord_def)
  note U = initUserRecord_ready [OF u this(2) assms(4) this(1) t(2)]
  have "validToken token" using t(1) by (auto simp: initialToken_def Let_def split: if_splits option.splits)
  then show thesis
    using that [of token krec user] t(1) R(1) U(1) U(2) [of "tokenID token" krec] marker_set [OF c] by simp
qed

subsection \<open>Resuming\<close>

text \<open>
  The states an initialization with this token and name goes through; a crash or a failed commit
  leaves one of them behind.
\<close>

definition unmarkedStage :: "string \<Rightarrow> string \<Rightarrow> db \<Rightarrow> bool" where
  "unmarkedStage tid name d \<longleftrightarrow> keysOf stateCollection d = {||} \<and>
     (keysOf tokenCollection d = {||} \<and> keysOf userCollection d = {||} \<or>
      (\<exists>krec. tokenReady tid krec d \<and> (keysOf userCollection d = {||} \<or> (\<exists>user. userReady name (k_UserID krec) user d))))"

definition markedStage :: "string \<Rightarrow> string \<Rightarrow> db \<Rightarrow> bool" where
  "markedStage tid name d \<longleftrightarrow> marked d \<and> (\<exists>krec user. tokenReady tid krec d \<and> userReady name (k_UserID krec) user d)"

definition onlyMeta :: "db \<Rightarrow> bool" where
  "onlyMeta d \<longleftrightarrow> \<not> closed d \<and> 2048 \<le> maxDocSize (opts d) \<and>
     (\<forall>n. n |\<in>| fmdom (colls d) \<and> reservedCollection n \<longrightarrow> n \<in> set metaCollections)"

definition initStage :: "string \<Rightarrow> string \<Rightarrow> db \<Rightarrow> bool" where
  "initStage tid name d \<longleftrightarrow> onlyMeta d \<and> (unmarkedStage tid name d \<or> markedStage tid name d)"

lemma onlyMeta_set:
  assumes "coll_Set cd n i x d = (Inr c, d')" "onlyMeta d" "n \<in> set metaCollections"
  shows "onlyMeta d'"
proof -
  obtain b where w: "DB_write \<lparr>Op = opSet, Coll = n, ID = i, Doc = b\<rparr> d = (Inr c, d')"
    using assms(1) by (auto simp: coll_Set_def split: option.splits sum.splits)
  then have "fmdom (colls d') |\<subseteq>| finsert n (fmdom (colls d))"
    using DB_write_colls(1) [OF w] by (auto simp: applyRec_def opSet_def split: option.splits)
  then show ?thesis using assms(2,3) set_keys [OF assms(1)] by (auto simp: onlyMeta_def)
qed

lemma onlyMeta_Collections: "onlyMeta d \<Longrightarrow> \<not> list_ex (\<lambda>n. reservedCollection n \<and> n \<notin> set metaCollections) (Collections d)"
  by (auto simp: onlyMeta_def Collections_def list_ex_iff fmdom'_alt_def)

text \<open>What is written does not depend on the outcomes of the commits.\<close>

lemma initTokenRecord_any:
  assumes "initTokenRecord out clock rnd tid d = (x, d1)"
  shows "d1 = d \<or> (\<exists>krec. initTokenRecord (\<lambda>_. None) clock rnd tid d = (Some (Inr krec), d1))"
    "x = Some (Inr krec) \<Longrightarrow> initTokenRecord (\<lambda>_. None) clock rnd tid d = (x, d1)"
  using assms set_error by (auto simp: initTokenRecord_def Let_def waited_def split: sum.splits if_splits option.splits prod.splits)

lemma initUserRecord_any:
  assumes "initUserRecord out clock name uid d = (x, d1)"
  shows "d1 = d \<or> (\<exists>user. initUserRecord (\<lambda>_. None) clock name uid d = (Inr user, d1))"
    "x = Inr user \<Longrightarrow> initUserRecord (\<lambda>_. None) clock name uid d = (x, d1)"
  using assms set_error by (auto simp: initUserRecord_def Let_def waited_def split: sum.splits if_splits option.splits prod.splits)

lemma initTokenRecord_step:
  assumes "initTokenRecord (\<lambda>_. None) clock rnd tid d = (Some (Inr krec), d1)"
  shows "d1 = d \<and> coll_Get tokenCodec tokenCollection tid d = Inr krec \<or>
     coll_Get tokenCodec tokenCollection tid d = Inl ErrNotFound \<and> (\<exists>c x. coll_Set tokenCodec tokenCollection tid x d = (Inr c, d1))"
  using assms by (auto simp: initTokenRecord_def Let_def waited_def split: sum.splits if_splits option.splits prod.splits)

lemma initUserRecord_step:
  assumes "initUserRecord (\<lambda>_. None) clock name uid d = (Inr user, d1)"
  shows "d1 = d \<or> (\<exists>c x. coll_Set userCodec userCollection uid x d = (Inr c, d1))"
  using assms by (auto simp: initUserRecord_def Let_def waited_def split: sum.splits if_splits option.splits prod.splits)

text \<open>What a run of \<open>initializeAuth\<close> needs from its environment.\<close>

definition attemptOK :: "(nat \<Rightarrow> utc) \<Rightarrow> (nat \<Rightarrow> bytes) \<Rightarrow> bool" where
  "attemptOK clock rnd \<longleftrightarrow> validTime (clock 0) \<and> validTime (clock 1) \<and> (\<forall>k. length (rnd k) \<ge> 16)"

lemma attemptOK_facts: "attemptOK clock rnd \<Longrightarrow> validTime (clock 0)" "attemptOK clock rnd \<Longrightarrow> validTime (clock 1)"
  "attemptOK clock rnd \<Longrightarrow> \<forall>k. length (rnd k) \<ge> 16"
  by (simp_all add: attemptOK_def)

lemma token_goes:
  assumes "unmarkedStage tid name d" "onlyMeta d" "attemptOK clock rnd" "validHexID tid 64"
  shows "\<exists>krec d1. initTokenRecord (\<lambda>_. None) clock rnd tid d = (Some (Inr krec), d1)"
proof -
  have o: "\<not> closed d" "2048 \<le> maxDocSize (opts d)" using assms(2) by (simp_all add: onlyMeta_def)
  from assms(1) consider "keysOf tokenCollection d = {||}" "keysOf userCollection d = {||}" | krec where "tokenReady tid krec d"
    unfolding unmarkedStage_def by blast
  then show ?thesis
  proof cases
    case 1
    let ?uid = "NewID (rnd 0)" and ?rec = "newTokenRecord (NewID (rnd 0)) ''initial'' (clock 0) None"
    have u: "uniqueUserID rnd 0 d = Some ?uid" by (subst uniqueUserID_step) (simp add: coll_Has_keys 1)
    have h: "validHexID ?uid 32" using NewID_valid attemptOK_facts(3) [OF assms(3)] by simp
    have l: "validateLabel ''initial''" by (simp add: validateLabel_def)
    have "tokenUTF8 ?rec" using newToken_ok(2) [OF attemptOK_facts(1) [OF assms(3)] l h assms(4), of None] by simp
    moreover have "int (length (tokenText ?rec)) \<le> maxDocSize (opts d)" using length_records(2) [OF h, of "clock 0"] o(2) by linarith
    ultimately obtain c d' where "coll_Set tokenCodec tokenCollection tid ?rec d = (Inr c, d')"
      using tokens.set_ok [of ?rec d "tokenText ?rec" tokenCollection tid] o(1) by (auto simp: tokenCodec_def)
    moreover have "coll_Get tokenCodec tokenCollection tid d = Inl ErrNotFound" by (intro get_missing) (simp_all add: 1 o)
    ultimately show ?thesis
      using 1 u o(1) by (simp add: initTokenRecord_def coll_Count_keys newTokenRecord_def waited_def)
  next
    case 2
    then show ?thesis by (simp add: initTokenRecord_def tokenReady_def coll_Count_keys fcard.rep_eq)
  qed
qed

lemma user_goes:
  assumes "onlyMeta d" "keysOf userCollection d = {||} \<or> userReady name uid user d" "attemptOK clock rnd" "validHexID uid 32" "validateLabel name"
  shows "\<exists>user d1. initUserRecord (\<lambda>_. None) clock name uid d = (Inr user, d1)"
proof -
  have o: "\<not> closed d" "2048 \<le> maxDocSize (opts d)" using assms(1) by (simp_all add: onlyMeta_def)
  from assms(2) show ?thesis
  proof
    assume k: "keysOf userCollection d = {||}"
    let ?u = "newUser name roleAdmin (clock 1)"
    have "userUTF8 ?u" using newUser_ok(2) [OF attemptOK_facts(2) [OF assms(3)] assms(5) _ assms(4)] by (simp add: validRole_def)
    moreover have "int (length (userText ?u)) \<le> maxDocSize (opts d)" using length_records(1) [OF assms(5), of "clock 1"] o(2) by linarith
    ultimately obtain c d' where "coll_Set userCodec userCollection uid ?u d = (Inr c, d')"
      using users.set_ok [of ?u d "userText ?u" userCollection uid] o(1) by (auto simp: userCodec_def)
    moreover have "coll_Get userCodec userCollection uid d = Inl ErrNotFound" by (intro get_missing) (simp_all add: k o)
    ultimately show ?thesis using k o(1) by (simp add: initUserRecord_def coll_Count_keys newUser_def waited_def Let_def)
  next
    assume "userReady name uid user d"
    then show ?thesis using o(1) by (simp add: initUserRecord_def userReady_def coll_Count_keys fcard.rep_eq)
  qed
qed

lemma token_stage:
  assumes "initTokenRecord (\<lambda>_. None) clock rnd tid d = (Some (Inr krec), d1)" "unmarkedStage tid name d" "onlyMeta d"
    "attemptOK clock rnd" "validHexID tid 64"
  shows "tokenReady tid krec d1" "onlyMeta d1" "keysOf stateCollection d1 = {||}"
    "keysOf userCollection d1 = {||} \<or> (\<exists>user. userReady name (k_UserID krec) user d1)"
proof -
  have o: "\<not> closed d" using assms(3) by (simp add: onlyMeta_def)
  note R = initTokenRecord_ready [OF assms(1) o attemptOK_facts(1) [OF assms(4)] assms(5) attemptOK_facts(3) [OF assms(4)]]
  show "tokenReady tid krec d1" by (rule R(1))
  show "onlyMeta d1" using initTokenRecord_step [OF assms(1)] assms(3) by (auto intro: onlyMeta_set simp: metaCollections_def)
  show "keysOf stateCollection d1 = {||}"
    using initTokenRecord_step [OF assms(1)] assms(2) by (auto simp: unmarkedStage_def dest: set_keys(1) [where m = stateCollection])
  show "keysOf userCollection d1 = {||} \<or> (\<exists>user. userReady name (k_UserID krec) user d1)"
    using initTokenRecord_step [OF assms(1)] assms(2) R(2) by (auto simp: unmarkedStage_def tokenReady_def)
qed

lemma user_stage:
  assumes "initUserRecord (\<lambda>_. None) clock name (k_UserID krec) d = (Inr user, d1)" "tokenReady tid krec d" "onlyMeta d"
    "keysOf stateCollection d = {||}" "attemptOK clock rnd" "validateLabel name"
  shows "userReady name (k_UserID krec) user d1" "tokenReady tid krec d1" "onlyMeta d1" "keysOf stateCollection d1 = {||}"
proof -
  have o: "\<not> closed d" "validHexID (k_UserID krec) 32" using assms(2) by (simp_all add: tokenReady_def validateTokenRecord_def)
  note U = initUserRecord_ready [OF assms(1) o(1) attemptOK_facts(2) [OF assms(5)] o(2) assms(6)]
  show "userReady name (k_UserID krec) user d1" "tokenReady tid krec d1" using U(1,2) assms(2) by simp_all
  show "onlyMeta d1" using initUserRecord_step [OF assms(1)] assms(3) by (auto intro: onlyMeta_set simp: metaCollections_def)
  show "keysOf stateCollection d1 = {||}"
    using initUserRecord_step [OF assms(1)] assms(4) by (auto dest: set_keys(1) [where m = stateCollection])
qed

lemma marker_goes:
  assumes "onlyMeta d"
  shows "\<exists>c d'. coll_Set stateCodec stateCollection stateID initMarker d = (Inr c, d')"
proof -
  have "int (length (stateText initMarker)) \<le> maxDocSize (opts d)" "\<not> closed d"
    using length_records(3) assms by (simp_all add: onlyMeta_def)
  then show ?thesis using state.set_ok [of initMarker d "stateText initMarker"] by (simp add: stateCodec_def)
qed

lemma initializeAuth_unmarked:
  assumes "unmarkedStage tid name d" "onlyMeta d" "initialToken getenv readFile = Inr token" "tid = tokenID token"
    "name = envString getenv ''MEDB_INIT_ADMIN_NAME'' ''admin''" "validateLabel name"
  shows "initializeAuth out clock rnd getenv readFile d =
     (case initTokenRecord out clock rnd tid d of
        (None, d1) \<Rightarrow> (None, d1)
      | (Some (Inl err), d1) \<Rightarrow> (Some (Some err), d1)
      | (Some (Inr krec), d1) \<Rightarrow>
          (case initUserRecord out clock name (k_UserID krec) d1 of
             (Inl err, d2) \<Rightarrow> (Some (Some err), d2)
           | (Inr user, d2) \<Rightarrow>
               if \<not> validateTokenRecord tid krec \<or> \<not> validateUserRecord (k_UserID krec) user \<or> u_Disabled user \<or> u_Role user \<noteq> roleAdmin
               then (Some (Some (Msg ''initial administrator credential did not validate'')), d2)
               else case waited out (coll_Set stateCodec stateCollection stateID initMarker d2) of
                 (Some err, d3) \<Rightarrow> (Some (Some (Wrap ''write authentication state'' err)), d3)
               | (None, d3) \<Rightarrow> (Some None, d3)))"
proof -
  have "\<not> closed d" "keysOf stateCollection d = {||}" using assms(1,2) by (simp_all add: onlyMeta_def unmarkedStage_def)
  then have "coll_Get stateCodec stateCollection stateID d = Inl ErrNotFound" "coll_Count stateCollection d = 0"
    by (auto simp: coll_Count_keys intro: get_missing)
  then show ?thesis
    unfolding assms(4,5)
    using assms(3) assms(6) [unfolded assms(5)] onlyMeta_Collections [OF assms(2)] by (simp add: initializeAuth_def Let_def)
qed

lemma stage_goes:
  assumes "initStage tid name d" "initialToken getenv readFile = Inr token" "tid = tokenID token"
    "name = envString getenv ''MEDB_INIT_ADMIN_NAME'' ''admin''" "validateLabel name" "attemptOK clock rnd"
  shows "\<exists>d'. initializeAuth (\<lambda>_. None) clock rnd getenv readFile d = (Some None, d') \<and> markedStage tid name d'"
  using assms(1) unfolding initStage_def
proof (elim conjE disjE)
  assume u: "unmarkedStage tid name d" "onlyMeta d"
  have v: "validHexID tid 64" using assms(3) tokenID_valid by simp
  obtain krec d1 where t: "initTokenRecord (\<lambda>_. None) clock rnd tid d = (Some (Inr krec), d1)"
    using token_goes [OF u assms(6) v] by blast
  note T = token_stage [OF t u assms(6) v]
  have h: "validHexID (k_UserID krec) 32" using T(1) by (simp add: tokenReady_def validateTokenRecord_def)
  obtain user d2 where r: "initUserRecord (\<lambda>_. None) clock name (k_UserID krec) d1 = (Inr user, d2)"
    using user_goes [OF T(2) _ assms(6) h assms(5)] T(4) by blast
  note U = user_stage [OF r T(1-3) assms(6,5)]
  obtain c d3 where m: "coll_Set stateCodec stateCollection stateID initMarker d2 = (Inr c, d3)" using marker_goes [OF U(3)] by blast
  note M = marker_set [OF m]
  have "initializeAuth (\<lambda>_. None) clock rnd getenv readFile d = (Some None, d3)"
    unfolding initializeAuth_unmarked [OF u assms(2-5)]
    using t r m T(1) U(1) by (simp add: waited_def tokenReady_def userReady_def)
  moreover have "markedStage tid name d3" unfolding markedStage_def using M U(1,2) by blast
  ultimately show ?thesis by blast
next
  assume "markedStage tid name d"
  then show ?thesis using initializeAuth_marked unfolding markedStage_def by blast
qed

lemma stage_stays:
  assumes "initStage tid name d" "initialToken getenv readFile = Inr token" "tid = tokenID token"
    "name = envString getenv ''MEDB_INIT_ADMIN_NAME'' ''admin''" "validateLabel name" "attemptOK clock rnd"
    "initializeAuth out clock rnd getenv readFile d = (res, d')"
  shows "initStage tid name d'"
  using assms(1) unfolding initStage_def [of _ _ d]
proof (elim conjE disjE)
  assume u: "unmarkedStage tid name d" "onlyMeta d"
  have v: "validHexID tid 64" using assms(3) tokenID_valid by simp
  note I = assms(7) [unfolded initializeAuth_unmarked [OF u assms(2-5)]]
  obtain x d1 where x: "initTokenRecord out clock rnd tid d = (x, d1)" by fastforce
  have s1: "initStage tid name d1"
    using initTokenRecord_any(1) [OF x] token_stage [OF _ u assms(6) v] u unfolding initStage_def unmarkedStage_def by metis
  show ?thesis
  proof (cases "\<exists>krec. x = Some (Inr krec)")
    case False
    then have "d' = d1" using I x by (auto split: option.splits sum.splits)
    then show ?thesis using s1 by simp
  next
    case True
    then obtain krec where k: "x = Some (Inr krec)" by blast
    note T = token_stage [OF initTokenRecord_any(2) [OF x k, unfolded k] u assms(6) v]
    obtain y d2 where y: "initUserRecord out clock name (k_UserID krec) d1 = (y, d2)" by fastforce
    have s2: "initStage tid name d2"
      using initUserRecord_any(1) [OF y] user_stage [OF _ T(1-3) assms(6,5)] s1 unfolding initStage_def unmarkedStage_def by metis
    show ?thesis
    proof (cases "d' = d2")
      case False
      then obtain user where r: "y = Inr user" "snd (coll_Set stateCodec stateCollection stateID initMarker d2) = d'"
        using I x k y by (auto simp: waited_def split: sum.splits if_splits option.splits prod.splits)
      obtain c where m: "coll_Set stateCodec stateCollection stateID initMarker d2 = (Inr c, d')"
        using r(2) False set_error [of stateCodec stateCollection stateID initMarker d2 _ d']
        by (cases "coll_Set stateCodec stateCollection stateID initMarker d2"; cases "fst (coll_Set stateCodec stateCollection stateID initMarker d2)") auto
      note U = user_stage [OF initUserRecord_any(2) [OF y r(1), unfolded r(1)] T(1-3) assms(6,5)]
      show ?thesis
        using marker_set [OF m] U onlyMeta_set [OF m U(3)] unfolding initStage_def markedStage_def by (auto simp: metaCollections_def)
    qed (use s2 in simp)
  qed
next
  assume m: "markedStage tid name d" "onlyMeta d"
  then have "d' = d" using initializeAuth_marked assms(7) unfolding markedStage_def by (metis prod.inject)
  then show ?thesis using m by (simp add: initStage_def)
qed

text \<open>Attempts to initialize, one after the other, with the same credentials.\<close>

fun attempts :: "envLookup \<Rightarrow> (string \<Rightarrow> bytes option) \<Rightarrow> ((nat \<Rightarrow> error option) \<times> (nat \<Rightarrow> utc) \<times> (nat \<Rightarrow> bytes)) list \<Rightarrow> db \<Rightarrow> db" where
  "attempts getenv readFile [] d = d"
| "attempts getenv readFile ((out, clock, rnd) # as) d = attempts getenv readFile as (snd (initializeAuth out clock rnd getenv readFile d))"

lemma attempts_stage:
  assumes "initStage tid name d" "initialToken getenv readFile = Inr token" "tid = tokenID token"
    "name = envString getenv ''MEDB_INIT_ADMIN_NAME'' ''admin''" "validateLabel name" "\<forall>(out, clock, rnd) \<in> set as. attemptOK clock rnd"
  shows "initStage tid name (attempts getenv readFile as d)"
  using assms(1,6)
proof (induction as arbitrary: d)
  case (Cons a as)
  obtain out clock rnd where a: "a = (out, clock, rnd)" by (cases a)
  obtain res d' where i: "initializeAuth out clock rnd getenv readFile d = (res, d')" by fastforce
  have "initStage tid name d'" by (rule stage_stays [OF Cons.prems(1) assms(2-5) _ i]) (use Cons.prems(2) a in simp)
  then show ?case using Cons a i by simp
qed simp

lemma fresh_stage:
  assumes "\<not> closed d" "2048 \<le> maxDocSize (opts d)" "list_all (\<lambda>n. \<not> reservedCollection n) (Collections d)"
  shows "initStage tid name d"
proof -
  have r: "\<not> reservedCollection n" if "n |\<in>| fmdom (colls d)" for n
    using assms(1,3) that by (simp add: Collections_def list_all_iff fmdom'_alt_def)
  then have "fmlookup (colls d) n = None" if "reservedCollection n" for n using that by (meson fmdom_notD)
  then have "keysOf n d = {||}" if "reservedCollection n" for n using that by (simp add: keysOf_def fmget_def)
  moreover have "onlyMeta d" using r assms(1,2) by (auto simp: onlyMeta_def)
  ultimately show ?thesis using metaNames_reserved by (simp add: initStage_def unmarkedStage_def)
qed

lemma ready_admin:
  assumes "validToken token" "tokenReady (tokenID token) krec d" "userReady name (k_UserID krec) user d"
  shows "authenticate token now d = Some roleAdmin"
  using assms by (simp add: authenticate_def Let_def tokenReady_def userReady_def active_def)

lemma marked_admin: "markedStage (tokenID token) name d \<Longrightarrow> validToken token \<Longrightarrow> authenticate token now d = Some roleAdmin"
  unfolding markedStage_def using ready_admin by blast

lemma initialToken_valid: "initialToken getenv readFile = Inr token \<Longrightarrow> validToken token"
  by (auto simp: initialToken_def Let_def split: if_splits option.splits)

subsection \<open>Properties\<close>




text \<open>
  C18: After the first start the configured token works and is never needed again.  If
  initializing an unmarked database succeeds, the initial token authenticates as administrator at
  every time, and starting the server on that database again succeeds without any of the
  variables, whatever the clock shows, and writes nothing.
\<close>

theorem initialized_restarts:
  assumes "initializeAuth out clock rnd getenv readFile d = (Some None, d')" "coll_Get stateCodec stateCollection stateID d = Inl ErrNotFound"
    "validTime (clock 0)" "validTime (clock 1)" "\<forall>k. length (rnd k) \<ge> 16"
  shows "\<exists>token. initialToken getenv readFile = Inr token \<and> (\<forall>now. authenticate token now d' = Some roleAdmin) \<and>
     initializeAuth out' clock' rnd' getenv' readFile' d' = (Some None, d')"
proof -
  obtain token krec user where t: "initialToken getenv readFile = Inr token" "validToken token" "marked d'"
    "tokenReady (tokenID token) krec d'" "userReady (envString getenv ''MEDB_INIT_ADMIN_NAME'' ''admin'') (k_UserID krec) user d'"
    using initializeAuth_steps [OF assms] .
  have "authenticate token now d' = Some roleAdmin" for now
    by (rule ready_admin [OF t(2,4,5)])
  then show ?thesis using t(1) initializeAuth_marked [OF t(3-5)] by blast
qed

text \<open>
  C13: Initialization is resumable.  Start from a database without server metadata.  Any number of
  attempts with the same credentials may be cut short or may see any of their commits fail; the next
  attempt that meets no error succeeds, and the token authenticates as administrator.
\<close>

theorem initialization_resumes:
  assumes "\<not> closed d" "2048 \<le> maxDocSize (opts d)" "list_all (\<lambda>n. \<not> reservedCollection n) (Collections d)"
    and "initialToken getenv readFile = Inr token" "validateLabel (envString getenv ''MEDB_INIT_ADMIN_NAME'' ''admin'')"
    and "\<forall>(out, clock, rnd) \<in> set as. attemptOK clock rnd" "attemptOK clock rnd"
  shows "\<exists>d'. initializeAuth (\<lambda>_. None) clock rnd getenv readFile (attempts getenv readFile as d) = (Some None, d') \<and>
     (\<forall>now. authenticate token now d' = Some roleAdmin)"
proof -
  have "initStage (tokenID token) (envString getenv ''MEDB_INIT_ADMIN_NAME'' ''admin'') (attempts getenv readFile as d)"
    by (rule attempts_stage [OF fresh_stage [OF assms(1-3)] assms(4) refl refl assms(5,6)])
  from stage_goes [OF this assms(4) refl refl assms(5,7)] show ?thesis
    using marked_admin initialToken_valid [OF assms(4)] by blast
qed

text \<open>Witness for C13: the second of the three writes of the first attempt fails.\<close>

definition demoGetenv :: envLookup where
  "demoGetenv name = (if name = ''MEDB_INIT_ADMIN_TOKEN'' then Some (newToken (replicate 32 CHR 0x00)) else None)"

lemma demoGetenv_facts:
  "initialToken demoGetenv readFile = Inr (newToken (replicate 32 CHR 0x00))" "validateLabel (envString demoGetenv ''MEDB_INIT_ADMIN_NAME'' ''admin'')"
proof -
  have v: "validToken (newToken (replicate 32 CHR 0x00))" by (rule newToken_valid [THEN conjunct1]) simp
  moreover have "newToken (replicate 32 CHR 0x00) \<noteq> []" using v by (auto simp: validToken_def)
  ultimately show "initialToken demoGetenv readFile = Inr (newToken (replicate 32 CHR 0x00))"
    by (simp add: initialToken_def demoGetenv_def)
  show "validateLabel (envString demoGetenv ''MEDB_INIT_ADMIN_NAME'' ''admin'')"
    by (simp add: envString_def demoGetenv_def validateLabel_def)
qed

lemma oneDoc_fresh: "\<not> closed oneDoc" "2048 \<le> maxDocSize (opts oneDoc)" "list_all (\<lambda>n. \<not> reservedCollection n) (Collections oneDoc)"
  by (simp_all add: oneDoc_def newDB_def defaultOptions_def Collections_def list_all_iff)

lemma demoAttempt_ok: "attemptOK (\<lambda>_. demoTime) (\<lambda>_. replicate 16 CHR 0x00)"
  by (simp add: attemptOK_def demoTime_valid)

theorem initialization_resumes_witness:
  "\<exists>d'. initializeAuth (\<lambda>_. None) (\<lambda>_. demoTime) (\<lambda>_. replicate 16 CHR 0x00) demoGetenv (\<lambda>_. None)
       (attempts demoGetenv (\<lambda>_. None) [(\<lambda>c. if c = 1 then Some (ErrSys EIO) else None, \<lambda>_. demoTime, \<lambda>_. replicate 16 CHR 0x00)] oneDoc) =
         (Some None, d') \<and>
     (\<forall>now. authenticate (newToken (replicate 32 CHR 0x00)) now d' = Some roleAdmin)"
  by (rule initialization_resumes [OF oneDoc_fresh demoGetenv_facts _ demoAttempt_ok]) (simp add: demoAttempt_ok)

text \<open>Witness for C18: the same credentials, without errors.\<close>

theorem initialized_restarts_witness:
  "\<exists>d'. initializeAuth (\<lambda>_. None) (\<lambda>_. demoTime) (\<lambda>_. replicate 16 CHR 0x00) demoGetenv (\<lambda>_. None) oneDoc = (Some None, d') \<and>
     authenticate (newToken (replicate 32 CHR 0x00)) demoTime d' = Some roleAdmin \<and>
     initializeAuth (\<lambda>_. None) (\<lambda>_. demoTime) (\<lambda>_. []) (\<lambda>_. None) (\<lambda>_. None) d' = (Some None, d')"
proof -
  have n: "coll_Get stateCodec stateCollection stateID oneDoc = Inl ErrNotFound"
    by (simp add: coll_Get_def DB_read_def oneDoc_def newDB_def)
  obtain d' where d: "initializeAuth (\<lambda>_. None) (\<lambda>_. demoTime) (\<lambda>_. replicate 16 CHR 0x00) demoGetenv (\<lambda>_. None) oneDoc = (Some None, d')"
    using stage_goes [OF fresh_stage [OF oneDoc_fresh] demoGetenv_facts(1) refl refl demoGetenv_facts(2) demoAttempt_ok] by blast
  show ?thesis
    using initialized_restarts [OF d n, of "\<lambda>_. None" "\<lambda>_. demoTime" "\<lambda>_. []" "\<lambda>_. None" "\<lambda>_. None"] d demoTime_valid
    by (auto simp: demoGetenv_facts(1))
qed

end
