(* ===== verification/Auth_Types.thy ===== *)
theory Auth_Types
  imports Auth_Setup
begin

text \<open>
  The type of the authentication store: every stored token decodes to a record that passes its
  validation, and every stored user to one whose fields do, and no request changes that.  The one
  check a stored user may fail is that it was not changed before it was created.
\<close>

subsection \<open>Steps that keep the records well typed\<close>

text \<open>All that \<open>validateUserRecord\<close> asks of the fields, without the order of the two times.\<close>

definition typedUser :: "string \<Rightarrow> userRecord \<Rightarrow> bool" where
  "typedUser i user \<longleftrightarrow> validHexID i 32 \<and> validateLabel (u_Name user) \<and> validRole (u_Role user) \<and>
     parseUTCTimestamp (u_CreatedAt user) \<noteq> None \<and> parseUTCTimestamp (u_UpdatedAt user) \<noteq> None"

definition usersTyped :: "db \<Rightarrow> bool" where
  "usersTyped d \<longleftrightarrow> (\<forall>i. case coll_Get userCodec userCollection i d of
     Inl e \<Rightarrow> e = ErrNotFound \<or> e = ErrClosed | Inr user \<Rightarrow> typedUser i user)"

text \<open>A user record written when the clock shows \<open>now\<close>.\<close>

definition writtenUser :: "utc \<Rightarrow> string \<Rightarrow> userRecord \<Rightarrow> bool" where
  "writtenUser now i user \<longleftrightarrow> typedUser i user \<and> (validateUserRecord i user \<or> clockBack now user)"

lemma validate_typed: "validateUserRecord i user \<Longrightarrow> typedUser i user"
  by (auto simp: validateUserRecord_def typedUser_def split: option.splits)

lemma validate_written: "validateUserRecord i user \<Longrightarrow> writtenUser now i user"
  by (simp add: writtenUser_def validate_typed)

definition tokensTyped :: "db \<Rightarrow> bool" where
  "tokensTyped d \<longleftrightarrow> (\<forall>i. case coll_Get tokenCodec tokenCollection i d of
     Inl e \<Rightarrow> e = ErrNotFound \<or> e = ErrClosed | Inr token \<Rightarrow> validateTokenRecord i token)"

definition typedStep :: "utc \<Rightarrow> db \<Rightarrow> db \<Rightarrow> bool" where
  "typedStep now d d' \<longleftrightarrow> d' = d \<or>
     (\<exists>rec c. DB_write rec d = (Inr c, d') \<and> \<not> reservedCollection (Coll rec)) \<or>
     (\<exists>i user c. coll_Set userCodec userCollection i user d = (Inr c, d') \<and> writtenUser now i user \<and> userUTF8 user) \<or>
     (\<exists>i token c. coll_Set tokenCodec tokenCollection i token d = (Inr c, d') \<and> validateTokenRecord i token \<and> tokenUTF8 token) \<or>
     (\<exists>i c. coll_Delete tokenCollection i d = (Inr c, d'))"

lemma write_elsewhere:
  assumes "DB_write rec d = (Inr c, d')" "n \<noteq> Coll rec"
  shows "coll_Get cd n i d' = coll_Get cd n i d"
  using DB_write_colls [OF assms(1)] assms(2)
  by (auto simp: coll_Get_def DB_read_cell cell_applyRec effect_def split: option.splits)

lemma typedStep_typed:
  assumes "typedStep now d d'" "usersTyped d" "tokensTyped d"
  shows "usersTyped d' \<and> tokensTyped d' \<and> (\<forall>i user. coll_Get userCodec userCollection i d' = Inr user \<longrightarrow>
     validateUserRecord i user \<or> clockBack now user \<or> coll_Get userCodec userCollection i d = Inr user)"
  using assms(1) unfolding typedStep_def
proof (elim disjE exE conjE)
  fix rec c assume r: "DB_write rec d = (Inr c, d')" "\<not> reservedCollection (Coll rec)"
  then have "userCollection \<noteq> Coll rec" "tokenCollection \<noteq> Coll rec" using metaNames_reserved by metis+
  then show ?thesis
    using assms(2,3) write_elsewhere [OF r(1), of userCollection userCodec] write_elsewhere [OF r(1), of tokenCollection tokenCodec]
    by (auto simp: usersTyped_def tokensTyped_def writtenUser_def split: if_splits)
next
  fix i user c assume w: "coll_Set userCodec userCollection i user d = (Inr c, d')" "writtenUser now i user" "userUTF8 user"
  show ?thesis
    using assms(2,3) users.set_get [OF w(3,1), of userCollection] set_other [OF w(1), of tokenCollection _ tokenCodec] w(2)
    by (auto simp: usersTyped_def tokensTyped_def writtenUser_def split: if_splits)
next
  fix i token c assume w: "coll_Set tokenCodec tokenCollection i token d = (Inr c, d')" "validateTokenRecord i token" "tokenUTF8 token"
  show ?thesis
    using assms(2,3) tokens.set_get [OF w(3,1), of tokenCollection] set_other [OF w(1), of userCollection _ userCodec] w(2)
    by (auto simp: usersTyped_def tokensTyped_def writtenUser_def split: if_splits)
next
  fix i c assume w: "coll_Delete tokenCollection i d = (Inr c, d')"
  show ?thesis
    using assms(2,3) delete_get [OF w, of tokenCodec tokenCollection] delete_get [OF w, of userCodec userCollection]
    by (auto simp: usersTyped_def tokensTyped_def writtenUser_def split: if_splits)
qed (use assms in simp)

definition keepsTypes :: "utc \<Rightarrow> apiServer \<Rightarrow> handled \<Rightarrow> bool" where
  "keepsTypes now s h \<longleftrightarrow> (case h of Reply _ s' \<Rightarrow> typedStep now (srv_db s) (srv_db s') | Panic _ s' \<Rightarrow> typedStep now (srv_db s) (srv_db s') | Hang \<Rightarrow> True)"

named_theorems typed

lemma keepsTypes_data: "allows dataRec s h \<Longrightarrow> keepsTypes now s h"
  by (auto simp: allows_def keepsTypes_def stepTo_def typedStep_def dataRec_def split: handled.splits)

lemma typedStep_refl [simp]: "typedStep now d d"
  by (simp add: typedStep_def)

lemma keepsTypes_replies [typed]:
  "keepsTypes now s (fails f s)" "typedStep now (srv_db s) (srv_db s1) \<Longrightarrow> keepsTypes now s (internalError s1)"
  "typedStep now (srv_db s) (srv_db s1) \<Longrightarrow> keepsTypes now s (fails f s1)"
  "typedStep now (srv_db s) (srv_db s1) \<Longrightarrow> keepsTypes now s (replyValue n v s1)"
  "typedStep now (srv_db s) (srv_db s1) \<Longrightarrow> keepsTypes now s (mutationError e s1)"
  "keepsTypes now s (Panic x s)" "keepsTypes now s Hang"
  by (auto simp: keepsTypes_def fails_def internalError_def replyValue_def mutationError_def markStorageFailure_def
      split: option.split error.split)

lemma typed_user:
  assumes "writtenUser now i user" "userUTF8 user" "waited f (coll_Set userCodec userCollection i user d) = (e, d')"
  shows "typedStep now d d'"
proof -
  obtain r d1 where r: "coll_Set userCodec userCollection i user d = (r, d1)" by fastforce
  then have "d' = d1" using assms(3) by (auto simp: waited_def split: sum.splits)
  moreover have "typedStep now d d1" if "r = Inr c" for c using r that assms(1,2) unfolding typedStep_def by blast
  ultimately show ?thesis using r set_error [of userCodec userCollection i user d _ d1] by (cases r) auto
qed

lemma typed_token:
  assumes "validateTokenRecord i token" "tokenUTF8 token" "waited f (coll_Set tokenCodec tokenCollection i token d) = (e, d')"
  shows "typedStep now d d'"
proof -
  obtain r d1 where r: "coll_Set tokenCodec tokenCollection i token d = (r, d1)" by fastforce
  then have "d' = d1" using assms(3) by (auto simp: waited_def split: sum.splits)
  moreover have "typedStep now d d1" if "r = Inr c" for c using r that assms(1,2) unfolding typedStep_def by blast
  ultimately show ?thesis using r set_error [of tokenCodec tokenCollection i token d _ d1] by (cases r) auto
qed

subsection \<open>The endpoints\<close>

text \<open>What a request reads from outside is sane: the clock shows a time, random bytes are complete.\<close>

definition saneEnv :: "callEnv \<Rightarrow> bool" where
  "saneEnv ce \<longleftrightarrow> validTime (ce_clock ce 0) \<and> (\<forall>k. length (ce_rndID ce k) \<ge> 16)"

lemma typed_userCreate: "saneEnv ce \<Longrightarrow> keepsTypes now s (handleUserCreate ce r s)"
proof -
  assume e: "saneEnv ce"
  have "typedStep now (srv_db s) d'"
    if "validateLabel name" "validRole rl" "uniqueUserID (ce_rndID ce) 0 (srv_db s) = Some i"
      "waited f (coll_Set userCodec userCollection i (newUser name rl (ce_clock ce 0)) (srv_db s)) = (err, d')" for name rl i f err d'
  proof -
    have "validHexID i 32" using uniqueUserID_Some [OF that(3)] NewID_valid e by (auto simp: saneEnv_def)
    then show ?thesis using newUser_ok [OF _ that(1,2)] e typed_user [OF validate_written _ that(4)] by (simp add: saneEnv_def)
  qed
  then show ?thesis
    unfolding handleUserCreate_def Let_def newUser_def
    by (auto intro!: typed split: sum.split option.split prod.split)
qed

lemma typed_update:
  assumes "saneEnv ce" "newRoleField flds = Inr newRole"
    "coll_Update f userCodec userCollection uid (changeUser uid newRole dis (timeFormat (ce_clock ce 0))) d = Some (err, d')"
  shows "typedStep (ce_clock ce 0) d d'"
proof -
  let ?fn = "changeUser uid newRole dis (timeFormat (ce_clock ce 0))"
  obtain r d1 where r: "coll_update userCodec userCollection uid ?fn d = Some (r, d1)" "waited f (r, d1) = (err, d')"
    using assms(3) by (auto simp: coll_Update_def)
  then have d: "d' = d1" by (auto simp: waited_def split: sum.splits)
  show ?thesis
  proof (cases r)
    case (Inr c)
    obtain user user' where u: "coll_Get userCodec userCollection uid d = Inr user" "?fn user = Some (Inr user')"
      "coll_Set userCodec userCollection uid user' d = (Inr c, d1)" using update_as_set [OF r(1) [unfolded Inr]] .
    have "writtenUser (ce_clock ce 0) uid user'"
      using changeUser_fields [OF u(2)] changeUser_validates [OF u(2)] assms(1) newRoleField_valid [OF assms(2)]
      by (auto simp: saneEnv_def writtenUser_def typedUser_def validateUserRecord_def clockBack_def parse_format split: option.splits)
    moreover have "userUTF8 user'" using changeUser_valid [OF u(2) got_user [OF u(1)]] newRoleField_valid [OF assms(2)] by simp
    ultimately show ?thesis using u(3) d unfolding typedStep_def by blast
  next
    case (Inl e)
    then show ?thesis using update_error [OF r(1) [unfolded Inl]] d by simp
  qed
qed

lemma typed_userUpdate: "saneEnv ce \<Longrightarrow> keepsTypes (ce_clock ce 0) s (handleUserUpdate ce r s)"
proof -
  assume e: "saneEnv ce"
  have "keepsTypes now s (userUpdateReply uid (s\<lparr>srv_db := d\<rparr>) err)" if "typedStep now (srv_db s) d" for uid d err now
    using that unfolding userUpdateReply_def by (auto intro!: typed split: option.split sum.split)
  then show ?thesis
    unfolding handleUserUpdate_def using typed_update [OF e]
    by (auto intro!: typed split: sum.split option.split prod.split)
qed

lemma typed_tokenCreate: "saneEnv ce \<Longrightarrow> keepsTypes now s (handleTokenCreate ce r s)"
proof -
  assume e: "saneEnv ce"
  have "keepsTypes now s (issueToken ce flds uid label s)" if u: "validHexID uid 32" "validateLabel label" for flds uid label
  proof -
    have "typedStep now (srv_db s) d'" if x: "expiryField flds (ce_clock ce 0) = Inr x"
        and w: "waited f (coll_Set tokenCodec tokenCollection tid \<lparr>k_UserID = uid, k_Label = label, k_CreatedAt = timeFormat (ce_clock ce 0), k_ExpiresAt = x\<rparr> (srv_db s)) = (err, d')"
        and t: "uniqueToken (ce_rndToken ce) 0 (srv_db s) = Some (Inr (token, tid))" for x f tid token err d'
    proof -
      obtain expires where ex: "x = map_option timeFormat expires" "\<forall>t. expires = Some t \<longrightarrow> validTime t \<and> Before (ce_clock ce 0) t"
        using expiryField_new [OF x] by blast
      have "validHexID tid 64" using uniqueToken_Some [OF t] tokenID_valid by auto
      then have ok: "validateTokenRecord tid (newTokenRecord uid label (ce_clock ce 0) expires)" "tokenUTF8 (newTokenRecord uid label (ce_clock ce 0) expires)"
        using newToken_ok [OF _ u(2,1)] ex(2) e by (simp_all add: saneEnv_def)
      show ?thesis using typed_token [OF ok] w by (auto simp: newTokenRecord_def ex(1))
    qed
    then show ?thesis
      unfolding issueToken_def Let_def by (auto intro!: typed split: sum.split option.split prod.split)
  qed
  then show ?thesis
    unfolding handleTokenCreate_def by (auto intro!: typed split: sum.split)
qed

lemma typed_tokenRevoke: "keepsTypes now s (handleTokenRevoke ce r s)"
proof -
  have "keepsTypes now s (finish s (waited f (coll_Delete tokenCollection tid (srv_db s))))" for f tid
  proof -
    obtain x d where d: "coll_Delete tokenCollection tid (srv_db s) = (x, d)" by fastforce
    have "typedStep now (srv_db s) d"
      using d DB_write_error [of _ "srv_db s" _ d] by (cases x) (auto simp: typedStep_def coll_Delete_def)
    then show ?thesis
      using d by (cases x) (auto simp: finish_def waited_def keepsTypes_def intro!: typed [unfolded keepsTypes_def] split: option.split)
  qed
  then show ?thesis unfolding handleTokenRevoke_def by (auto intro!: typed split: sum.split)
qed

lemmas typed_readers = keepsTypes_data [OF allows_handleCollections] keepsTypes_data [OF allows_handleGet] keepsTypes_data [OF allows_handleHas]
  keepsTypes_data [OF allows_handleCount] keepsTypes_data [OF allows_handleScan] keepsTypes_data [OF allows_handleUsers]
  keepsTypes_data [OF allows_handleTokens] keepsTypes_data [OF allows_handleDrop]

lemma typed_route:
  assumes "saneEnv ce" "buildRoutes cfg p = Some rt"
  shows "keepsTypes (ce_clock ce 0) s (rt_handler rt ce r s)"
proof -
  have w: "allows dataRec s (handleSet ce r s)" "allows dataRec s (handleDelete ce r s)"
    by (rule allows_mono [OF allows_handleSet] allows_mono [OF allows_handleDelete], simp add: writerRec_def dataRec_def)+
  have "rt \<in> snd ` set dataRoutes \<or> rt \<in> snd ` set authRoutes" using buildRoutes_in [OF assms(2)] by blast
  then show ?thesis
    using assms(1) w
    by (auto simp: dataRoutes_def authRoutes_def mkRoute_def typed_userCreate typed_userUpdate typed_tokenCreate typed_tokenRevoke
        typed_readers keepsTypes_data)
qed

lemma keepsTypes_reply: "keepsTypes now s (Reply resp s)"
  by (simp add: keepsTypes_def)

lemma ServeHTTP_typed:
  assumes "saneEnv ce" "ServeHTTP now ce r s = Some (resp, s')"
  shows "typedStep (ce_clock ce 0) (srv_db s) (srv_db s')"
proof -
  have d: "keepsTypes (ce_clock ce 0) s (dispatchRoute actor ce r s)" for actor
    unfolding dispatchRoute_def using typed_route [OF assms(1)]
    by (cases "buildRoutes (srv_cfg s) (rq_path r)") (auto intro!: typed keepsTypes_reply)
  have "keepsTypes (ce_clock ce 0) s (handleHealth ce r s)" unfolding handleHealth_def by (auto intro!: typed keepsTypes_reply)
  then have "keepsTypes (ce_clock ce 0) s (routeRequest now ce r s)"
    unfolding routeRequest_def using d by (auto intro!: typed split: sum.split)
  then show ?thesis
    using assms(2) by (auto simp: ServeHTTP_def keepsTypes_def split: handled.splits option.splits)
qed

subsection \<open>A server with an administrator\<close>

definition demoToken :: string where
  "demoToken = newToken (replicate 32 CHR 0x00)"

definition adminServer :: apiServer where
  "adminServer = newAPIServer (oneDoc\<lparr>colls := fmupd tokenCollection (fmupd (tokenID demoToken) (tokenText (newTokenRecord demoUID ''laptop'' demoTime None)) fmempty)
       (fmupd userCollection (fmupd demoUID (userText (newUser ''ann'' roleAdmin demoTime)) fmempty) fmempty)\<rparr>)
     (demoCfg\<lparr>c_noAuth := False, c_maxRequestSize := 1000\<rparr>)"

definition adminRequest :: request where
  "adminRequest = disableRequest\<lparr>rq_path := ''/v1/auth/users/update'', rq_authorization := [''Bearer '' @ demoToken]\<rparr>"

lemma Fields_word: "list_all (\<lambda>c. 33 \<le> byte c \<and> byte c < 127) s \<Longrightarrow> Fields_loop w s = (if w @ s = [] then [] else [w @ s])"
proof (induction s arbitrary: w)
  case (Cons c cs)
  then have "\<not> spaceRune (byte c)" "decodeRune (c # cs) = (byte c, 1)" by (auto simp: spaceRune_def)
  then show ?case using Cons by (simp add: Fields_loop.simps(2) del: decodeRune.simps)
qed simp

lemma demoToken_ok: "validToken demoToken" "Fields (''Bearer '' @ demoToken) = [''Bearer'', demoToken]"
proof -
  show "validToken demoToken" unfolding demoToken_def using newToken_valid [of "replicate 32 CHR 0x00"] by simp
  have e: "demoToken = ''medb_'' @ replicate 43 CHR ''A''" unfolding demoToken_def by code_simp
  have "list_all (\<lambda>c. 33 \<le> byte c \<and> byte c < 127) demoToken" unfolding e list_all_iff by simp
  then have "Fields_loop [] demoToken = [demoToken]" using Fields_word [of demoToken "[]"] by (simp add: demoToken_def newToken_def tokenPrefix_def)
  moreover have "Fields_loop w (CHR '' '' # s) = (if w = [] then [] else [w]) @ Fields_loop [] s" for w s
    by (simp add: Fields_loop.simps(2) spaceRune_def)
  moreover have "Fields_loop w (c # s) = Fields_loop (w @ [c]) s" if "33 \<le> byte c" "byte c < 127" for w c s
    using that by (simp add: Fields_loop.simps(2) spaceRune_def)
  ultimately show "Fields (''Bearer '' @ demoToken) = [''Bearer'', demoToken]" by (simp add: Fields_def)
qed

lemma admin_records:
  "coll_Get userCodec userCollection i (srv_db adminServer) = (if i = demoUID then Inr (newUser ''ann'' roleAdmin demoTime) else Inl ErrNotFound)"
  "coll_Get tokenCodec tokenCollection i (srv_db adminServer) =
     (if i = tokenID demoToken then Inr (newTokenRecord demoUID ''laptop'' demoTime None) else Inl ErrNotFound)"
  "validateUserRecord demoUID (newUser ''ann'' roleAdmin demoTime)"
  "validateTokenRecord (tokenID demoToken) (newTokenRecord demoUID ''laptop'' demoTime None)"
proof -
  have a: "validateLabel ''ann''" "validRole roleAdmin" "validateLabel ''laptop''" by (simp_all add: validateLabel_def validRole_def)
  note u = newUser_ok [OF demoTime_valid a(1,2) demoUID_valid(1)]
    and t = newToken_ok [OF demoTime_valid a(3) demoUID_valid(1) tokenID_valid [of demoToken], of None]
  have "dec userCodec (userText (newUser ''ann'' roleAdmin demoTime)) = Inr (newUser ''ann'' roleAdmin demoTime)"
    by (rule users.dec_enc [OF u(2)]) (simp add: userCodec_def)
  moreover have "dec tokenCodec (tokenText (newTokenRecord demoUID ''laptop'' demoTime None)) = Inr (newTokenRecord demoUID ''laptop'' demoTime None)"
    by (rule tokens.dec_enc [OF t(2)]) (simp_all add: tokenCodec_def)
  moreover have "userCollection \<noteq> tokenCollection" by (simp add: meta_defs)
  ultimately show "coll_Get userCodec userCollection i (srv_db adminServer) = (if i = demoUID then Inr (newUser ''ann'' roleAdmin demoTime) else Inl ErrNotFound)"
    "coll_Get tokenCodec tokenCollection i (srv_db adminServer) =
       (if i = tokenID demoToken then Inr (newTokenRecord demoUID ''laptop'' demoTime None) else Inl ErrNotFound)"
    by (simp_all add: coll_Get_def DB_read_def adminServer_def newAPIServer_def oneDoc_def newDB_def fmget_def)
  show "validateUserRecord demoUID (newUser ''ann'' roleAdmin demoTime)"
    "validateTokenRecord (tokenID demoToken) (newTokenRecord demoUID ''laptop'' demoTime None)" using u t by simp_all
qed

text \<open>The administrator disables its own account.\<close>

lemma admin_request:
  "\<exists>resp d c. ServeHTTP demoTime demoEnv adminRequest adminServer = Some (resp, adminServer\<lparr>srv_db := d\<rparr>) \<and> rs_status resp = 200 \<and>
     coll_Set userCodec userCollection demoUID ((newUser ''ann'' roleAdmin demoTime)\<lparr>u_Disabled := True\<rparr>) (srv_db adminServer) = (Inr c, d)"
proof -
  have a: "authenticate demoToken demoTime (srv_db adminServer) = Some roleAdmin"
    using demoToken_ok(1) admin_records by (simp add: authenticate_def Let_def active_def newTokenRecord_def newUser_def)
  have m: "c_maxRequestSize (srv_cfg adminServer) = 1000" "\<not> closed (srv_db adminServer)" "opts (srv_db adminServer) = defaultOptions"
    "\<not> c_noAuth (srv_cfg adminServer)" "\<not> srv_unavailable adminServer" "\<not> srv_shuttingDown adminServer"
    by (simp_all add: adminServer_def newAPIServer_def oneDoc_def newDB_def)
  obtain resp d c where h: "handleUserUpdate demoEnv disableRequest adminServer = Reply resp (adminServer\<lparr>srv_db := d\<rparr>)" "rs_status resp = 200"
    "coll_Set userCodec userCollection demoUID ((newUser ''ann'' roleAdmin demoTime)\<lparr>u_Disabled := True\<rparr>) (srv_db adminServer) = (Inr c, d)"
    using demo_disable [of adminServer roleAdmin] admin_records(1) m by auto
  have "handleUserUpdate demoEnv adminRequest adminServer = handleUserUpdate demoEnv disableRequest adminServer"
    by (simp add: handleUserUpdate_def adminRequest_def readObject_def)
  moreover have b: "isBearer ''Bearer''" by code_simp
  have "authenticateRequest demoTime adminRequest adminServer = Inr roleAdmin"
    using a b demoToken_ok(2) by (simp add: authenticateRequest_def adminRequest_def Let_def)
  then have "routeRequest demoTime demoEnv adminRequest adminServer = handleUserUpdate demoEnv adminRequest adminServer"
    using m by (simp add: routeRequest_def dispatchRoute_def buildRoutes_def dataRoutes_def authRoutes_def mkRoute_def adminRequest_def
        disableRequest_def demoRequest_def roleAllows_def)
  ultimately show ?thesis using h by (auto simp: ServeHTTP_def noStore_def)
qed

subsection \<open>Properties\<close>

text \<open>
  C14: The authentication store stays well typed, whatever the clock shows.  If every stored user has
  a valid ID, name, role and timestamps, and every stored token passes its validation, this is still
  so after any request, whoever sent it and whatever was answered.  A user record that fails its
  validation afterwards was there before, or was changed by this request while the clock showed a
  time before the creation of the user.  The clock shows a year from 0 to 9999, and random bytes
  come in full.
\<close>

theorem auth_records_typed:
  assumes "usersTyped (srv_db s)" "tokensTyped (srv_db s)" "saneEnv ce" "ServeHTTP now ce r s = Some (resp, s')"
  shows "usersTyped (srv_db s') \<and> tokensTyped (srv_db s') \<and>
     (\<forall>i user. coll_Get userCodec userCollection i (srv_db s') = Inr user \<longrightarrow>
        validateUserRecord i user \<or> clockBack (ce_clock ce 0) user \<or> coll_Get userCodec userCollection i (srv_db s) = Inr user)"
  by (rule typedStep_typed [OF ServeHTTP_typed [OF assms(3,4)] assms(1,2)])

text \<open>Witness for C14: the administrator disables its own account.\<close>

theorem auth_records_typed_witness:
  "\<exists>resp s'. ServeHTTP demoTime demoEnv adminRequest adminServer = Some (resp, s') \<and> rs_status resp = 200 \<and>
     srv_db s' \<noteq> srv_db adminServer \<and> usersTyped (srv_db s') \<and> tokensTyped (srv_db s') \<and>
     coll_Get userCodec userCollection demoUID (srv_db s') = Inr ((newUser ''ann'' roleAdmin demoTime)\<lparr>u_Disabled := True\<rparr>)"
proof -
  obtain resp d c where h: "ServeHTTP demoTime demoEnv adminRequest adminServer = Some (resp, adminServer\<lparr>srv_db := d\<rparr>)" "rs_status resp = 200"
    "coll_Set userCodec userCollection demoUID ((newUser ''ann'' roleAdmin demoTime)\<lparr>u_Disabled := True\<rparr>) (srv_db adminServer) = (Inr c, d)"
    using admin_request by blast
  have ty: "usersTyped (srv_db adminServer)" "tokensTyped (srv_db adminServer)"
    using admin_records validate_typed by (simp_all add: usersTyped_def tokensTyped_def)
  have e: "saneEnv demoEnv" by (simp add: saneEnv_def demoEnv_def demoTime_valid)
  have "userUTF8 ((newUser ''ann'' roleAdmin demoTime)\<lparr>u_Disabled := True\<rparr>)"
    using newUser_ok(2) [OF demoTime_valid _ _ demoUID_valid(1), of "''ann''" roleAdmin] by (simp add: userUTF8_def validateLabel_def validRole_def)
  note g = users.set_get [OF this h(3), of userCollection demoUID]
  then have "d \<noteq> srv_db adminServer" using admin_records(1) [of demoUID] by (auto simp: newUser_def)
  then show ?thesis using auth_records_typed [OF ty e h(1)] h g by auto
qed

end
