(* ===== verification/Limits.thy ===== *)
theory Limits
  imports Auth_Setup Layout
begin

text \<open>
  Where the program falls short of its documentation: the cases the guarantees of the other
  theories exclude by a hypothesis, each with a lemma showing what the code does there.
\<close>

subsection \<open>The lock file and the collections below \<open>lock/\<close>\<close>

text \<open>
  A collection below \<open>lock/\<close> has a valid name, but the directory of its snapshot is the lock
  file, so creating that directory fails.
\<close>

lemma lock_name_collides: "validName ''lock/x'' \<and> butlast (collPath dr ''lock/x'') = dr @ [lockName]"
proof
  show "validName ''lock/x''" by code_simp
  have "split_slash (''lock/x'' @ jsonExt) = [lockName, ''x.json'']" by code_simp
  then show "butlast (collPath dr ''lock/x'') = dr @ [lockName]" by (simp add: collPath_def butlast_append)
qed

lemma stat_faultless:
  "faults w = (\<lambda>_. None) \<Longrightarrow> run_state (sysStat p) w = (lookupNode (disk w) p, w\<lparr>tick := Suc (tick w)\<rparr>)"
  by (simp add: sysStat_def syscall_def)

lemma MkdirAll_file:
  assumes "faults w = (\<lambda>_. None)" "lookupNode (disk w) (dr @ [c]) = Inr (FileN i)"
  shows "fst (run_state (MkdirAll (dr @ [c])) w) = Some (ErrSys ENOTDIR)"
  using assms by (simp add: MkdirAll_def mkdirAll_def run_state_bind stat_faultless)

lemma lock_snapshot_fails:
  assumes "faults w = (\<lambda>_. None)" "lookupNode (disk w) (dr @ [lockName]) = Inr (FileN i)"
  shows "fst (run_state (MkdirAll (butlast (collPath dr ''lock/x''))) w) = Some (ErrSys ENOTDIR)"
  unfolding conjunct2 [OF lock_name_collides] by (rule MkdirAll_file [OF assms])

subsection \<open>The length of a name\<close>

text \<open>
  The regular expression of the fuzz test has no bound on the length; a name of one segment with
  241 letters matches it and is refused.
\<close>

lemma long_name_refused: "\<not> validName (replicate 241 CHR ''a'') \<and> matches validNameRef (replicate 241 CHR ''a'')"
proof -
  have "split_slash (replicate n CHR ''a'') = [replicate n CHR ''a'']" for n by (induction n) simp_all
  then have "name_grammar (replicate 241 CHR ''a'')" by (simp add: name_grammar_def list_all_iff nameChar_def)
  then show ?thesis by (simp add: ref_grammar validName_def maxNameLen_def)
qed

subsection \<open>Documents nested as deep as the decoder allows\<close>

text \<open>
  A document of 10000 levels is JSON for \<open>encoding/json\<close>, so \<open>Set\<close> accepts it, but its log record
  is one level deeper and cannot be read back.
\<close>

definition deep :: "nat \<Rightarrow> bytes" where
  "deep n = replicate n CHR ''['' @ replicate n CHR '']''"

lemma deep_Suc: "deep (Suc n) @ r = CHR ''['' # deep n @ CHR '']'' # r"
  by (simp add: deep_def replicate_append_same)

lemma skipws_bracket [simp]: "skipws (CHR ''['' # s) = CHR ''['' # s" "skipws (CHR '']'' # s) = CHR '']'' # s"
  by simp_all

lemma scan_deep:
  "scanValue f d (deep (Suc n) @ r) \<noteq> None \<Longrightarrow> n < d"
  "n < d \<Longrightarrow> 2 * n < f \<Longrightarrow> scanValue f d (deep (Suc n) @ r) = Some (deep (Suc n), r)"
proof (induction n arbitrary: f d r)
  case 0
  { case 1 then show ?case by (cases f) (auto simp: deep_Suc deep_def split: if_splits) }
  { case 2 then show ?case by (cases f) (auto simp: deep_Suc deep_def) }
next
  case (Suc n)
  have o: "deep (Suc (Suc n)) @ r = CHR ''['' # CHR ''['' # deep n @ CHR '']'' # CHR '']'' # r" for r
    by (simp add: deep_Suc [of "Suc n"] deep_Suc [of n "CHR '']'' # r"])
  have e: "CHR ''['' # deep n @ CHR '']'' # CHR '']'' # r = deep (Suc n) @ CHR '']'' # r" for r by (simp add: deep_Suc)
  have step: "scanValue (Suc (Suc f)) d (deep (Suc (Suc n)) @ r) =
      (if d = 0 then None else pre ''['' (scanElems (Suc f) (d - 1) (deep (Suc n) @ CHR '']'' # r)))" for f d r
    unfolding o e [symmetric] by (simp del: scanElems.simps)
  { case 1
    have "scanValue 0 d (deep (Suc (Suc n)) @ r) = None" "scanValue (Suc 0) d (deep (Suc (Suc n)) @ r) = None"
      unfolding o by simp_all
    then obtain g where g: "f = Suc (Suc g)" using 1 by (metis not0_implies_Suc)
    show ?case using 1 Suc.IH(1) [of g "d - 1" "CHR '']'' # r"] unfolding g step
      by (cases "scanValue g (d - 1) (deep (Suc n) @ CHR '']'' # r)") (auto split: if_splits) }
  { case 2
    then obtain g where g: "f = Suc (Suc g)" "2 * n < g" by (metis Suc_less_eq2 add_2_eq_Suc' mult_Suc_right add.commute)
    then show ?case using 2 Suc.IH(2) [of "d - 1" g "CHR '']'' # r"] unfolding g(1) step
      by (simp add: deep_def replicate_append_same) }
qed

lemma members_fail:
  assumes "\<And>f. scanMembers f d rest = None" "scanString (k @ dq # CHR '':'' # dq # v @ dq # CHR '','' # rest) = Some (k, CHR '':'' # dq # v @ dq # CHR '','' # rest)"
    "scanString (v @ dq # CHR '','' # rest) = Some (v, CHR '','' # rest)"
  shows "scanMembers f d (dq # k @ dq # CHR '':'' # dq # v @ dq # CHR '','' # rest) = None"
proof (cases f)
  case (Suc g)
  have n: "scanMembers g d rest = None" by (rule assms(1))
  have v: "scanValue g d (dq # v @ dq # CHR '','' # rest) = None \<or>
      scanValue g d (dq # v @ dq # CHR '','' # rest) = Some (dq # escBody v @ [dq], CHR '','' # rest)"
    using assms(3) by (cases g) simp_all
  show ?thesis
    unfolding Suc by (subst scanMembers.simps(2)) (use assms(2) v n in \<open>auto simp: Let_def simp del: scanMembers.simps scanValue.simps\<close>)
qed simp

lemma deep_document_lost:
  assumes "\<not> closed d" "2 * int maxNestingDepth \<le> maxDocSize (opts d)"
  shows "\<exists>c d' line. coll_Set rawCodec ''c'' [] (deep maxNestingDepth) d = (Inr c, d') \<and> pending d' = pending d @ [line] \<and>
     unmarshalRecord line = Inl ErrJSON"
proof -
  obtain m where m: "maxNestingDepth = Suc m" by (simp add: maxNestingDepth_def)
  let ?doc = "deep maxNestingDepth"
  have "length ?doc = 2 * maxNestingDepth" "?doc \<noteq> []" by (simp_all add: deep_def m)
  have c: "compact ?doc = Some ?doc"
    using scan_deep(2) [of m maxNestingDepth "scanFuel ?doc" "[]"] by (simp add: compact_def scanFuel_def m deep_def)
  let ?r = "\<lparr>Op = opSet, Coll = ''c'', ID = [], Doc = ?doc\<rparr> :: wal_record"
  let ?line = "renderObject (recordFields ?r ?doc)"
  have line: "marshalRecord ?r = Inr ?line" using c \<open>?doc \<noteq> []\<close> by (simp add: marshalRecord_def)
  obtain id d' where w: "enqueue ?line (applyRec ?r d) = (id, d')" by fastforce
  then have "coll_Set rawCodec ''c'' [] ?doc d = (Inr id, d')"
    using assms c line \<open>?doc \<noteq> []\<close> \<open>length ?doc = _\<close> by (simp add: coll_Set_def rawCodec_def checkDocSize_def DB_write_def)
  moreover have "pending d' = pending d @ [?line]"
    using w by (auto simp: enqueue_def applyRec_def Let_def split: option.splits if_splits)
  moreover have "scanValue f maxNestingDepth ?line = None" for f
  proof -
    have doc: "scanMembers f m (dq # ''doc'' @ dq # CHR '':'' # ?doc @ t) = None" for f t
    proof (cases f)
      case (Suc g)
      have "scanValue g m (?doc @ t) = None" using scan_deep(1) [of g m m t] m by fastforce
      then show ?thesis using Suc by simp
    qed simp
    have q: "quote opSet = dq # ''set'' @ [dq]" "quote ''c'' = dq # ''c'' @ [dq]" by (simp_all add: quote_plain opSet_def plainText_def)
    have "?line = CHR ''{'' # dq # ''op'' @ dq # CHR '':'' # dq # ''set'' @ dq # CHR '','' # dq # ''coll'' @ dq # CHR '':'' # dq # ''c'' @ dq # CHR '','' #
        dq # ''doc'' @ dq # CHR '':'' # ?doc @ ''}''"
      using \<open>?doc \<noteq> []\<close> by (simp add: renderObject_def recordFields_def q)
    moreover have "scanMembers f m (dq # ''op'' @ dq # CHR '':'' # dq # ''set'' @ dq # CHR '','' # dq # ''coll'' @ dq # CHR '':'' # dq # ''c'' @ dq # CHR '','' #
        dq # ''doc'' @ dq # CHR '':'' # ?doc @ ''}'') = None" for f
      by (intro members_fail doc) simp_all
    ultimately show ?thesis by (cases f) (simp_all add: m)
  qed
  then have "unmarshalRecord ?line = Inl ErrJSON" by (simp add: unmarshalRecord_def compact_def)
  ultimately show ?thesis by blast
qed

subsection \<open>Document IDs that are not UTF-8\<close>

text \<open>
  The log holds U+FFFD in place of a byte that is not UTF-8, so replaying it gives the document
  another ID.
\<close>

lemma id_not_utf8_changes:
  "\<exists>line. marshalRecord \<lparr>Op = opSet, Coll = ''c'', ID = [CHR 0xFF], Doc = ''1''\<rparr> = Inr line \<and>
     unmarshalRecord line = Inr \<lparr>Op = opSet, Coll = ''c'', ID = [CHR 0xEF, CHR 0xBF, CHR 0xBD], Doc = ''1''\<rparr>"
proof -
  let ?r = "\<lparr>Op = opSet, Coll = ''c'', ID = [CHR 0xFF], Doc = ''1''\<rparr> :: wal_record"
  have "canonAt 1 ''1''" by code_simp
  then have d: "Doc ?r \<noteq> [] \<longrightarrow> canonAt 9999 (Doc ?r)" using canonAt_mono by fastforce
  have "sanitize opSet = opSet" "sanitize ''c'' = ''c''"
    by (simp_all add: sanitize_valid validUTF8_plainI opSet_def)
  moreover have "sanitize [CHR 0xFF] = [CHR 0xEF, CHR 0xBF, CHR 0xBD]"
    by (simp add: sanitize.simps decodeRune.simps encodeRune_def runeError_def, simp add: char_of_def bit_0)
  ultimately show ?thesis using marshalRecord_canon [OF d] unmarshal_renderRecord [OF d] by simp
qed

subsection \<open>A clock that goes back\<close>

text \<open>
  An update at a time before the creation of the user stores a record that no longer validates,
  and whose user no later update accepts.
\<close>

lemma clock_back_invalidates:
  assumes "changeUser uid newRole dis (timeFormat now) user = Some (Inr user')" "validTime now"
    "parseUTCTimestamp (u_CreatedAt user) = Some t" "Before now t"
  shows "\<not> validateUserRecord uid user'" "changeUser uid newRole' dis' now' user' = Some (Inl errMalformedAuthRecord)"
proof -
  show "\<not> validateUserRecord uid user'"
    using changeUser_fields [OF assms(1)] assms(2-4) by (auto simp: validateUserRecord_def parse_format)
  then show "changeUser uid newRole' dis' now' user' = Some (Inl errMalformedAuthRecord)" by (simp add: changeUser_def)
qed

subsection \<open>A user that does not decode\<close>

text \<open>
  The JSON error of a stored user that does not decode is answered like a failure of the storage:
  the server becomes unavailable.
\<close>

lemma undecodable_user_stops_server:
  assumes "\<not> closed d" "fmlookup (fmget (colls d) userCollection) uid = Some raw" "dec userCodec raw = Inl ErrJSON"
  shows "coll_Update outcome userCodec userCollection uid (changeUser uid newRole dis now) d = Some (Some ErrJSON, d)"
    "userUpdateReply uid s (Some ErrJSON) = Reply (writeFailure failStorage) (markStorageFailure ErrJSON s)"
  using assms by (simp_all add: coll_Update_def coll_update_def waited_def userUpdateReply_def mutationError_def errMalformedAuthRecord_def)

end
