(* ===== verification/Bench.thy ===== *)
theory Bench
  imports Auth_Facts Promises Worker
begin

text \<open>
  The stores the benchmark compares: \<open>bench/main.go\<close>.  A store is anything with \<open>set\<close> and
  \<open>get\<close> (Go's interface \<open>store\<close>): a map rewritten to a JSON file on every change, with or
  without \<open>fsync\<close>, and MeDB itself.  The interface is the locale \<open>doc_store\<close>, in which the
  write phase of a case is studied once and then used for both stores.

  The measurements are not modelled: how long a phase lasts is an argument of it.
\<close>

definition benchColl :: string where
  "benchColl = ''users''"

subsection \<open>Documents\<close>

record User =
  Name :: string
  Age :: int

definition storeBenchUser :: "string \<Rightarrow> bytes \<Rightarrow> User \<Rightarrow> error + User" where
  "storeBenchUser key raw u =
     (if fieldIs key ''Name'' then map_sum id (\<lambda>v. u\<lparr>Name := v\<rparr>) (storeString raw (Name u))
      else if fieldIs key ''Age'' then map_sum id (\<lambda>v. u\<lparr>Age := v\<rparr>) (storeInt raw (Age u))
      else Inr u)"

definition benchUserText :: "User \<Rightarrow> bytes" where
  "benchUserText u = renderObject [(''Name'', quote (Name u)), (''Age'', intText (Age u))]"

definition benchCodec :: "User codec" where
  "benchCodec = \<lparr>enc = (\<lambda>u. Inr (benchUserText u)), dec = unmarshalStruct storeBenchUser \<lparr>Name = [], Age = 0\<rparr>\<rparr>"

text \<open>\<open>fmt.Sprintf("user%06d", i % 1_000_000)\<close>, and the seed: \<open>%07d\<close> prints more digits when needed.\<close>

definition benchName :: "nat \<Rightarrow> string" where
  "benchName i = ''user'' @ padded 6 (i mod 1000000)"

definition seedID :: "nat \<Rightarrow> string" where
  "seedID i = CHR ''u'' # (if i < 10000000 then padded 7 i else natText i)"

definition makeSeed :: "nat \<Rightarrow> string list \<times> (string, User) fmap" where
  "makeSeed n = (let ids = map seedID [0..<n] in
     (ids, foldl (\<lambda>m i. fmupd (seedID i) \<lparr>Name = benchName i, Age = int i\<rparr> m) fmempty [0..<n]))"

text \<open>
  The benchmark's own copy of the library's record type, with its own tags, and the length of the log
  line of one write computed from it.
\<close>

record benchRecord =
  r_Op :: string
  r_Coll :: string
  r_ID :: string
  r_Doc :: bytes

definition benchRecordText :: "benchRecord \<Rightarrow> error + bytes" where
  "benchRecordText r =
     (let id = (if r_ID r = [] then [] else [(''id'', quote (r_ID r))]);
          start = [(''op'', quote (r_Op r)), (''coll'', quote (r_Coll r))] @ id in
      if r_Doc r = [] then Inr (renderObject start)
      else case compact (r_Doc r) of
        None \<Rightarrow> Inl ErrJSON
      | Some doc \<Rightarrow> Inr (renderObject (start @ [(''doc'', doc)])))"

definition walRecordBytes :: "string \<Rightarrow> User \<Rightarrow> error + nat" where
  "walRecordBytes i u =
     (let doc = benchUserText u in
      case benchRecordText \<lparr>r_Op = ''set'', r_Coll = benchColl, r_ID = i, r_Doc = doc\<rparr> of
        Inl e \<Rightarrow> Inl e
      | Inr rec \<Rightarrow> Inr (length rec + 1))"

subsection \<open>A map behind a JSON file\<close>

text \<open>\<open>None\<close> is the nil map that decoding \<open>null\<close> leaves.\<close>

record mapJSON =
  mj_path :: path
  mj_m :: "(string, User) fmap option"
  mj_fsync :: bool

definition marshalUsers :: "(string, User) fmap \<Rightarrow> bytes" where
  "marshalUsers m = renderObject (map (\<lambda>k. (quoteBody k, benchUserText (the (fmlookup m k)))) (sortedKeys m))"

fun storeUsers :: "fields \<Rightarrow> (string, User) fmap \<Rightarrow> error + (string, User) fmap" where
  "storeUsers [] m = Inr m"
| "storeUsers ((k, raw) # kvs) m =
     (case unquoteBody k of
        None \<Rightarrow> Inl ErrJSON
      | Some key \<Rightarrow>
          (case dec benchCodec raw of
             Inl e \<Rightarrow> Inl e
           | Inr u \<Rightarrow> storeUsers kvs (fmupd key u m)))"

definition unmarshalUsers :: "bytes \<Rightarrow> error + (string, User) fmap option" where
  "unmarshalUsers data =
     (case compact data of
        None \<Rightarrow> Inl ErrJSON
      | Some v \<Rightarrow>
          if v = ''null'' then Inr None
          else (case objectFields data of
                  None \<Rightarrow> Inl ErrJSON
                | Some fs \<Rightarrow> map_sum id Some (storeUsers fs fmempty)))"

definition openMapJSON :: "path \<Rightarrow> bool \<Rightarrow> (error + mapJSON) io" where
  "openMapJSON path fsync = do {
     r \<leftarrow> sysReadFile path;
     ret (case r of
            Inr data \<Rightarrow>
              (case unmarshalUsers data of
                 Inl e \<Rightarrow> Inl e
               | Inr m \<Rightarrow> Inr \<lparr>mj_path = path, mj_m = m, mj_fsync = fsync\<rparr>)
          | Inl e \<Rightarrow>
              if e \<noteq> ENOENT then Inl (ErrSys e)
              else Inr \<lparr>mj_path = path, mj_m = Some fmempty, mj_fsync = fsync\<rparr>)
   }"

text \<open>
  \<open>set\<close>: \<open>None\<close> is the panic of an assignment to a nil map.  The file is truncated by
  opening it, then written, and synced only on request.
\<close>

definition mapJSON_set :: "string \<Rightarrow> User \<Rightarrow> mapJSON \<Rightarrow> (error option \<times> mapJSON) option io" where
  "mapJSON_set i u s =
     (case mj_m s of
        None \<Rightarrow> ret None
      | Some m \<Rightarrow>
          (let m' = fmupd i u m; s' = s\<lparr>mj_m := Some m'\<rparr> in do {
             f \<leftarrow> sysOpen True (mj_path s);
             (case f of
                Inl e \<Rightarrow> ret (Some (Some (ErrSys e), s'))
              | Inr ino \<Rightarrow> do {
                  w \<leftarrow> sysWrite ino (marshalUsers m');
                  y \<leftarrow> (case w of Inl e \<Rightarrow> ret (Inl e) | Inr _ \<Rightarrow> if mj_fsync s then sysFsync ino else ret (Inr ()));
                  c \<leftarrow> sysClose;
                  ret (Some (case y of
                        Inl e \<Rightarrow> Some (ErrSys e)
                      | Inr _ \<Rightarrow> (case c of Inl e \<Rightarrow> Some (ErrSys e) | Inr _ \<Rightarrow> None), s'))
                })
           }))"

definition mapJSON_get :: "string \<Rightarrow> mapJSON \<Rightarrow> User option" where
  "mapJSON_get i s = (case mj_m s of None \<Rightarrow> None | Some m \<Rightarrow> fmlookup m i)"

subsection \<open>MeDB\<close>

text \<open>
  The handle for the collection is made when the store is opened; \<open>None\<close> is the panic of an
  invalid name.  The one client waits for its commit, so the worker's next iteration answers it.
\<close>

definition openMedb :: "path \<Rightarrow> (error + db) option io" where
  "openMedb dr = do {
     r \<leftarrow> Open dr [];
     ret (case r of Inl e \<Rightarrow> Some (Inl e) | Inr d \<Rightarrow> map_option (\<lambda>_. Inr d) (C benchColl))
   }"

definition medb_set :: "string \<Rightarrow> User \<Rightarrow> db \<Rightarrow> (error option \<times> db) option io" where
  "medb_set i u d =
     (case coll_Set benchCodec benchColl i u d of
        (Inl e, d1) \<Rightarrow> ret (Some (Some e, d1))
      | (Inr c, d1) \<Rightarrow> do {
          d2 \<leftarrow> runNotify d1;
          ret (map_option (\<lambda>e. (e, d2)) (commit_wait c d2))
        })"

definition medb_get :: "string \<Rightarrow> db \<Rightarrow> User option" where
  "medb_get i d = (case coll_Get benchCodec benchColl i d of Inl _ \<Rightarrow> None | Inr u \<Rightarrow> Some u)"

subsection \<open>The write phase\<close>

text \<open>
  The write phases of \<open>runCase\<close>: five writes to warm up, then writes until there were
  \<open>maxWrites\<close>, or \<open>minWrites\<close> and the time is over (\<open>late n\<close> after \<open>n\<close> writes).
  \<open>pick\<close> is the sequence of random IDs.
\<close>

fun warmUp :: "(string \<Rightarrow> User \<Rightarrow> 's \<Rightarrow> (error option \<times> 's) option io) \<Rightarrow> string list \<Rightarrow> nat \<Rightarrow> 's \<Rightarrow> (error + 's) option io" where
  "warmUp put [] n s = ret (Some (Inr s))"
| "warmUp put (i # is) n s = do {
     r \<leftarrow> put i \<lparr>Name = benchName n, Age = int n\<rparr> s;
     (case r of
        None \<Rightarrow> ret None
      | Some (Some e, s') \<Rightarrow> ret (Some (Inl e))
      | Some (None, s') \<Rightarrow> warmUp put is (n + 1) s')
   }"

function writeLoop :: "(string \<Rightarrow> User \<Rightarrow> 's \<Rightarrow> (error option \<times> 's) option io) \<Rightarrow> (nat \<Rightarrow> string) \<Rightarrow> (nat \<Rightarrow> bool) \<Rightarrow> nat \<Rightarrow> nat \<Rightarrow>
    nat \<Rightarrow> 's \<Rightarrow> (error + nat \<times> 's) option io" where
  "writeLoop put pick late minWrites maxWrites writes s = do {
     r \<leftarrow> put (pick writes) \<lparr>Name = benchName writes, Age = int writes\<rparr> s;
     (case r of
        None \<Rightarrow> ret None
      | Some (Some e, s') \<Rightarrow> ret (Some (Inl e))
      | Some (None, s') \<Rightarrow>
          if maxWrites \<le> writes + 1 \<or> minWrites \<le> writes + 1 \<and> late (writes + 1) then ret (Some (Inr (writes + 1, s')))
          else writeLoop put pick late minWrites maxWrites (writes + 1) s')
   }"
  by pat_completeness auto
termination
  by (relation "measure (\<lambda>(put, pick, late, mn, mx, writes, s). mx - writes)") auto

declare writeLoop.simps [simp del]

text \<open>
  The read phase: it asks for the time after every 64 reads, and adds up the ages it read in the
  global \<open>sink\<close>, an \<open>int\<close> of 64 bits.
\<close>

partial_function (option) readLoop :: "(string \<Rightarrow> 's \<Rightarrow> User option) \<Rightarrow> (nat \<Rightarrow> string) \<Rightarrow> (nat \<Rightarrow> bool) \<Rightarrow>
    's \<Rightarrow> nat \<Rightarrow> 64 word \<Rightarrow> (nat \<times> 64 word) option" where
  "readLoop get pick late s reads sink =
     (let sink' = (case get (pick reads) s of None \<Rightarrow> sink | Some u \<Rightarrow> sink + word_of_int (Age u)) in
      if (reads + 1) mod 64 = 0 \<and> late (reads + 1) then Some (reads + 1, sink')
      else readLoop get pick late s (reads + 1) sink')"

subsection \<open>The sizes to measure\<close>

text \<open>
  \<open>strings.TrimSpace\<close> removes white space as Unicode defines it, here as the byte strings that
  encode it; an encoding is recognised from either end.
\<close>

definition spaceRunes :: "bytes list" where
  "spaceRunes = map (map char_of)
     ([[9], [10], [11], [12], [13], [32], [0xC2, 0x85], [0xC2, 0xA0], [0xE1, 0x9A, 0x80]] @
      map (\<lambda>n. [0xE2, 0x80, n]) [0x80..<0x8B] @
      [[0xE2, 0x80, 0xA8], [0xE2, 0x80, 0xA9], [0xE2, 0x80, 0xAF], [0xE2, 0x81, 0x9F], [0xE3, 0x80, 0x80 :: nat]])"

function trimLeft :: "bytes list \<Rightarrow> bytes \<Rightarrow> bytes" where
  "trimLeft ws s = (case find (\<lambda>w. w \<noteq> [] \<and> take (length w) s = w) ws of
     None \<Rightarrow> s
   | Some w \<Rightarrow> trimLeft ws (drop (length w) s))"
  by pat_completeness auto
termination
proof (relation "measure (\<lambda>(ws, s). length s)")
  fix ws :: "bytes list" and s v :: bytes
  assume "find (\<lambda>w. w \<noteq> [] \<and> take (length w) s = w) ws = Some v"
  then have "v \<noteq> []" "take (length v) s = v" by (auto simp: find_Some_iff)
  then have "s \<noteq> []" "0 < length v" by auto
  then show "((ws, drop (length v) s), (ws, s)) \<in> measure (\<lambda>(ws, s). length s)" by simp
qed simp

declare trimLeft.simps [simp del]

definition TrimSpace :: "bytes \<Rightarrow> bytes" where
  "TrimSpace s = rev (trimLeft (map rev spaceRunes) (rev (trimLeft spaceRunes s)))"

fun splitComma :: "bytes \<Rightarrow> bytes list" where
  "splitComma [] = [[]]"
| "splitComma (c # cs) = (if c = CHR '','' then [] # splitComma cs
     else (case splitComma cs of [] \<Rightarrow> [[c]] | p # ps \<Rightarrow> (c # p) # ps))"

datatype sizesError = BadNumber string | NotPositive int

fun sizesLoop :: "bytes list \<Rightarrow> int list \<Rightarrow> sizesError + int list" where
  "sizesLoop [] sizes = Inr sizes"
| "sizesLoop (p # ps) sizes = (case ParseInt (TrimSpace p) of
     None \<Rightarrow> Inl (BadNumber (TrimSpace p))
   | Some n \<Rightarrow> if n \<le> 0 then Inl (NotPositive n) else sizesLoop ps (sizes @ [n]))"

definition parseSizes :: "string \<Rightarrow> sizesError + int list" where
  "parseSizes s = sizesLoop (splitComma s) []"

subsection \<open>Integers as JSON\<close>

lemma natText_shape: "\<exists>c cs. natText n = c # cs \<and> isDigit c \<and> (\<forall>x \<in> set cs. isDigit x) \<and> (c = CHR ''0'' \<longrightarrow> cs = [])"
proof (induction n rule: natText.induct)
  case (1 n)
  have d: "isDigit (char_of (48 + m mod 10))" for m :: nat using digit_range [of m] by (simp add: isDigit_def del: byte_char_of)
  show ?case
  proof (cases "n < 10")
    case True
    then show ?thesis using d [of n] by (simp add: natText.simps)
  next
    case False
    obtain c cs where c: "natText (n div 10) = c # cs" "isDigit c" "\<forall>x \<in> set cs. isDigit x" "c = CHR ''0'' \<longrightarrow> cs = []"
      using 1 [OF False] by blast
    have "c \<noteq> CHR ''0''"
    proof
      assume z: "c = CHR ''0''"
      then have "parseDigits 0 (natText (n div 10)) = Some 0" using c by (simp add: decDigit_def)
      then show False using False parseDigits_natText [of "n div 10"] by simp
    qed
    then show ?thesis using False c d [of n] by (simp add: natText.simps [of n])
  qed
qed

lemma scanInt_natText: "scanInt (natText n) = Some (natText n, [])"
proof -
  obtain c cs where "natText n = c # cs" "isDigit c" "\<forall>x \<in> set cs. isDigit x" "c = CHR ''0'' \<longrightarrow> cs = []"
    using natText_shape by blast
  then show ?thesis by (auto simp: scanInt_def takeWhile_eq_all_conv [THEN iffD2] dropWhile_eq_Nil_conv [THEN iffD2])
qed

lemma scanNumber_intText: "scanNumber (intText i) = Some (intText i, [])"
proof (cases "i < 0")
  case True
  then show ?thesis by (simp add: intText_def scanNumber_def scanInt_natText scanFrac_def scanExp_def)
next
  case False
  obtain c cs where "natText (nat i) = c # cs" "isDigit c" using natText_shape by blast
  moreover have "c \<noteq> CHR ''-''" using calculation(2) by (auto simp: isDigit_def)
  ultimately show ?thesis
    using False scanInt_natText [of "nat i"] by (simp add: intText_def scanNumber_def scanFrac_def scanExp_def)
qed

lemma canon_intText [simp]: "canonAt d (intText i)"
proof -
  obtain c cs where c: "intText i = c # cs" "isDigit c \<or> c = CHR ''-''"
    using scanNumber_again(2,3) [OF scanNumber_intText, of i] by (cases "intText i") auto
  then have "c \<noteq> dq \<and> c \<noteq> CHR ''['' \<and> c \<noteq> CHR ''{'' \<and> CHR ''t'' \<noteq> c \<and> CHR ''f'' \<noteq> c \<and> CHR ''n'' \<noteq> c" "\<not> isWS c"
    by (auto simp: isDigit_def) (auto simp: isWS_def)
  then show ?thesis using scanNumber_intText [of i] c(1) by (simp add: canonAt_def scanFuel_def)
qed

subsection \<open>The documents survive their encoding\<close>

definition userOK :: "User \<Rightarrow> bool" where
  "userOK u \<longleftrightarrow> validUTF8 (Name u) \<and> - (2 ^ 63) \<le> Age u \<and> Age u < 2 ^ 63"

lemma bench_members [simp]: "plainText ''Name''" "plainText ''Age''" "fieldIs ''Name'' ''Name''" "fieldIs ''Age'' ''Age''" "\<not> fieldIs ''Age'' ''Name''"
  by (code_simp, code_simp) (simp_all add: fieldIs_def char_of_eq_iff)

lemma intText_not_null: "intText i \<noteq> ''null''"
  using scanNumber_again(3) [OF scanNumber_intText, of i] by (auto simp: isDigit_def)

lemma benchUserText_render:
  "\<exists>kvs. benchUserText u = renderObject kvs \<and> renderable 0 kvs \<and> (userOK u \<longrightarrow> (\<forall>z. storeMembers storeBenchUser kvs z = Inr u))"
  by (intro exI conjI, rule benchUserText_def)
     (simp_all add: renderable_members canon_quote storeMembers_plain storeBenchUser_def storeString_quote storeInt_def intText_not_null
        ParseInt_intText userOK_def)

interpretation bench: doc_codec benchCodec userOK
proof
  fix u b assume u: "userOK u"
  obtain kvs where k: "benchUserText u = renderObject kvs" "renderable 0 kvs" "\<And>z. storeMembers storeBenchUser kvs z = Inr u"
    using benchUserText_render [of u] u by blast
  show "\<exists>b. enc benchCodec u = Inr b" by (simp add: benchCodec_def)
  show "dec benchCodec b = Inr u" if "enc benchCodec u = Inr b"
    using that k by (auto simp: benchCodec_def unmarshal_render [OF k(2)])
  show "canonAt 9999 b" if "enc benchCodec u = Inr b"
    using that k renderable_canon [OF k(2)] by (simp add: benchCodec_def)
qed

lemma benchName_ascii: "list_all (\<lambda>c. byte c < 128) (benchName n)"
  using padded_ascii by (simp add: benchName_def)

lemma benchUser_ok: "n < 2 ^ 63 \<Longrightarrow> userOK \<lparr>Name = benchName n, Age = int n\<rparr>"
  using validUTF8_plainI [OF benchName_ascii, of n] by (simp add: userOK_def)

subsection \<open>The interface of the stores\<close>

locale doc_store =
  fixes put :: "string \<Rightarrow> User \<Rightarrow> 's \<Rightarrow> (error option \<times> 's) option io"
    and get :: "string \<Rightarrow> 's \<Rightarrow> User option"
    and ready :: "'s \<Rightarrow> bool"
  assumes put_get: "ready s \<Longrightarrow> userOK u \<Longrightarrow> run_state (put i u s) w = (Some (None, s'), w') \<Longrightarrow>
      ready s' \<and> get j s' = (if j = i then Some u else get j s)"
begin

definition found :: "'s \<Rightarrow> string set" where
  "found s = {i. get i s \<noteq> None}"

lemma put_found:
  assumes "ready s" "userOK u" "run_state (put i u s) w = (Some (None, s'), w')"
  shows "ready s'" "found s' = insert i (found s)"
  using put_get [OF assms] by (auto simp: found_def split: if_splits)

text \<open>The writes of a case replace documents: which IDs a read finds does not change.\<close>

lemma warmUp_found:
  assumes "run_state (warmUp put is n s) w = (Some (Inr s'), w')" "ready s" "set is \<subseteq> found s" "n + length is \<le> 2 ^ 63"
  shows "ready s' \<and> found s' = found s"
  using assms
proof (induction "is" arbitrary: n s w)
  case (Cons i "is")
  obtain r w1 where r: "run_state (put i \<lparr>Name = benchName n, Age = int n\<rparr> s) w = (r, w1)" by fastforce
  then obtain s1 where s1: "r = Some (None, s1)" "run_state (warmUp put is (n + 1) s1) w1 = (Some (Inr s'), w')"
    using Cons.prems(1) by (auto split: option.splits prod.splits)
  note P = put_found [OF Cons.prems(2) benchUser_ok r [unfolded s1(1)]]
  then have "found s1 = found s" "ready s1" using Cons.prems(3,4) by auto
  then show ?case using Cons.IH [OF s1(2)] Cons.prems(3,4) by auto
qed simp

lemma writeLoop_found:
  assumes "run_state (writeLoop put pick late mn mx n s) w = (Some (Inr (k, s')), w')" "ready s" "range pick \<subseteq> found s" "mx < 2 ^ 63" "n < 2 ^ 63"
  shows "ready s' \<and> found s' = found s \<and> n < k \<and> k \<le> max mx (n + 1)"
  using assms
proof (induction "mx - n" arbitrary: n s w rule: less_induct)
  case less
  obtain r w1 where r: "run_state (put (pick n) \<lparr>Name = benchName n, Age = int n\<rparr> s) w = (r, w1)" by fastforce
  then obtain s1 where s1: "r = Some (None, s1)"
    using less.prems(1) by (subst (asm) writeLoop.simps) (auto split: option.splits prod.splits)
  have p: "pick n \<in> found s" using less.prems(3) by blast
  note P = put_found [OF less.prems(2) benchUser_ok r [unfolded s1]]
  have f: "ready s1" "found s1 = found s" using P p less.prems(5) by auto
  show ?case
  proof (cases "mx \<le> n + 1 \<or> mn \<le> n + 1 \<and> late (n + 1)")
    case True
    then have "k = n + 1 \<and> s' = s1" using less.prems(1) r s1 by (subst (asm) writeLoop.simps) auto
    then show ?thesis using f by simp
  next
    case False
    then have "run_state (writeLoop put pick late mn mx (n + 1) s1) w1 = (Some (Inr (k, s')), w')"
      using less.prems(1) r s1 by (subst (asm) writeLoop.simps) auto
    moreover have "mx - (n + 1) < mx - n" "n + 1 < 2 ^ 63" using False less.prems(4) by auto
    ultimately have "ready s' \<and> found s' = found s1 \<and> n + 1 < k \<and> k \<le> max mx (n + 1 + 1)"
      using less.hyps f less.prems(3,4) by blast
    then show ?thesis using f False by auto
  qed
qed

end

text \<open>Both stores keep the contract.\<close>

interpretation mj: doc_store mapJSON_set mapJSON_get "\<lambda>_. True"
proof
  fix s u i w s' w' j assume r: "run_state (mapJSON_set i u s) w = (Some (None, s'), w')"
  obtain m where m: "mj_m s = Some m" using r by (cases "mj_m s") (simp_all add: mapJSON_set_def)
  have "returns (\<lambda>x. \<forall>e t. x = Some (e, t) \<longrightarrow> mj_m t = Some (fmupd i u m)) (mapJSON_set i u s)"
    unfolding mapJSON_set_def m option.case Let_def by (intro returning) simp_all
  then have "mj_m s' = Some (fmupd i u m)" using returnsD [OF _ r] by auto
  then show "True \<and> mapJSON_get j s' = (if j = i then Some u else mapJSON_get j s)"
    by (simp add: mapJSON_get_def m)
qed

lemma openMedb_opens: "run_state (Open dr []) w = (r, w') \<Longrightarrow> run_state (openMedb dr) w = (Some r, w')"
proof -
  have "C benchColl = Some benchColl" by code_simp
  then show "run_state (Open dr []) w = (r, w') \<Longrightarrow> run_state (openMedb dr) w = (Some r, w')"
    by (simp add: openMedb_def run_state_bind split: sum.split)
qed

interpretation me: doc_store medb_set medb_get "\<lambda>d. \<not> closed d"
proof
  fix d u i w d' w' j assume d: "\<not> closed d" "userOK u" and r: "run_state (medb_set i u d) w = (Some (None, d'), w')"
  obtain c d1 where s: "coll_Set benchCodec benchColl i u d = (Inr c, d1)"
    using r by (auto simp: medb_set_def split: prod.splits sum.splits)
  obtain d2 w2 where n: "run_state (runNotify d1) w = (d2, w2)" by fastforce
  then have "d' = d2" using r s by (auto simp: medb_set_def)
  then have k: "colls d' = colls d1" "closed d' = closed d1"
    using returnsD [OF returns_runNotify n] by (simp_all add: notified_def sameStore_def)
  have "coll_Get benchCodec benchColl j d' = coll_Get benchCodec benchColl j d1"
    using k by (simp add: coll_Get_def DB_read_def)
  moreover have "\<not> closed d1" using s d(1) by (auto simp: coll_Set_def DB_write_colls split: option.splits sum.splits)
  ultimately show "\<not> closed d' \<and> medb_get j d' = (if j = i then Some u else medb_get j d)"
    using k bench.set_get [OF d(2) s, of benchColl j] by (simp add: medb_get_def)
qed

subsection \<open>The file of the map\<close>

text \<open>What is written reads back as the same map.\<close>

lemma dec_bench: "userOK u \<Longrightarrow> dec benchCodec (benchUserText u) = Inr u"
  by (rule bench.dec_enc) (simp_all add: benchCodec_def)

lemma storeUsers_quoted:
  assumes "\<forall>k \<in> set ks. validUTF8 k \<and> userOK (g k)"
  shows "storeUsers (map (\<lambda>k. (quoteBody k, benchUserText (g k))) ks) m = Inr (foldl (\<lambda>m (k, v). fmupd k v m) m (map (\<lambda>k. (k, g k)) ks))"
  using assms by (induction ks arbitrary: m) (simp_all add: unquote_quoteBody sanitize_valid dec_bench)

lemma marshalUsers_roundtrip:
  assumes "\<forall>i u. fmlookup m i = Some u \<longrightarrow> validUTF8 i \<and> userOK u"
  shows "unmarshalUsers (marshalUsers m) = Inr (Some m)"
proof -
  let ?g = "\<lambda>k. the (fmlookup m k)" and ?fs = "map (\<lambda>k. (quoteBody k, benchUserText (the (fmlookup m k)))) (sortedKeys m)"
  have ks: "\<forall>k \<in> set (sortedKeys m). validUTF8 k \<and> userOK (?g k)" using assms by (auto simp: fmlookup_dom'_iff)
  have "canonAt 9999 (benchUserText u)" for u
    using benchUserText_render [of u] renderable_canon by fastforce
  then have ren: "renderable 9999 ?fs" by (auto simp: renderable_def strBody_quoteBody)
  have "foldl (\<lambda>m (k, v). fmupd k v m) fmempty (map (\<lambda>k. (k, ?g k)) (sortedKeys m)) = m"
    by (rule fmap_ext) (auto simp: fold_entries fmlookup_dom'_iff)
  then show ?thesis
    by (simp add: unmarshalUsers_def marshalUsers_def compact_render [OF ren] objectFields_render [OF ren] renderObject_not_null
        storeUsers_quoted [OF ks])
qed

text \<open>The collection a case works on does not change its size, in either store.\<close>

lemma medb_writes_replace:
  assumes "run_state (writeLoop medb_set pick late mn mx 0 d) w = (Some (Inr (n, d')), w')" "\<not> closed d"
    "\<forall>k. medb_get (pick k) d \<noteq> None" "mx < 2 ^ 63"
  shows "medb_get i d' \<noteq> None \<longleftrightarrow> medb_get i d \<noteq> None" "0 < n" "n \<le> max mx 1"
  using me.writeLoop_found [OF assms(1,2)] assms(3,4) by (auto simp: me.found_def)

lemma mapJSON_writes_replace:
  assumes "run_state (writeLoop mapJSON_set pick late mn mx 0 s) w = (Some (Inr (n, s')), w')"
    "\<forall>k. mapJSON_get (pick k) s \<noteq> None" "mx < 2 ^ 63"
  shows "mapJSON_get i s' \<noteq> None \<longleftrightarrow> mapJSON_get i s \<noteq> None" "0 < n" "n \<le> max mx 1"
  using mj.writeLoop_found [OF assms(1)] assms(2,3) by (auto simp: mj.found_def)

text \<open>
  Without \<open>fsync\<close> an acknowledged write, and everything before it, can be lost: the power loss
  may leave the file as truncation left it, and the store does not open any more.
\<close>

lemma mapJSON_set_run:
  assumes "faults w = (\<lambda>_. None)" "mj_m s = Some m" "parentDir (disk w) (mj_path s) = Inr ()" "lookupNode (disk w) (mj_path s) = Inr (FileN j)"
  obtains w' where "run_state (mapJSON_set i u s) w = (Some (None, s\<lparr>mj_m := Some (fmupd i u m)\<rparr>), w')" "faults w' = faults w"
    "disk w' = (if mj_fsync s then flushFile j else id) (appendFile j (marshalUsers (fmupd i u m)) (setContent j [] [] (disk w)))"
  using assms that
  by (cases "mj_fsync s") (auto simp: mapJSON_set_def Let_def sysOpen_def sysFsync_def sysClose_def sysWrite_def run_syscall run_state_bind)

lemma lookupNode_ents: "ents k' = ents k \<Longrightarrow> lookupNode k' p = lookupNode k p"
  by (simp add: lookupNode_def)

lemma ents_kept [simp]: "ents (flushFile j k) = ents k" "ents (appendFile j b k) = ents k" "ents (setContent j c v k) = ents k"
  by (simp_all add: flushFile_def appendFile_def setContent_def)

lemma mapJSON_reopens:
  assumes "faults w = (\<lambda>_. None)" "mj_m s = Some m" "parentDir (disk w) (mj_path s) = Inr ()" "lookupNode (disk w) (mj_path s) = Inr (FileN j)"
    and ok: "\<forall>i u. fmlookup (fmupd i0 u0 m) i = Some u \<longrightarrow> validUTF8 i \<and> userOK u"
    and r: "run_state (mapJSON_set i0 u0 s) w = (x, w')"
  shows "\<exists>s'. x = Some (None, s') \<and> fst (run_state (openMapJSON (mj_path s) (mj_fsync s)) w') = Inr s'"
proof -
  obtain w1 where w1: "run_state (mapJSON_set i0 u0 s) w = (Some (None, s\<lparr>mj_m := Some (fmupd i0 u0 m)\<rparr>), w1)" "faults w1 = faults w"
    "disk w1 = (if mj_fsync s then flushFile j else id) (appendFile j (marshalUsers (fmupd i0 u0 m)) (setContent j [] [] (disk w)))"
    using mapJSON_set_run [OF assms(1-4)] by metis
  have c: "content (disk w1) j = marshalUsers (fmupd i0 u0 m)"
    by (simp add: w1(3) flushFile_def appendFile_def setContent_def)
  have "lookupNode (disk w1) (mj_path s) = Inr (FileN j)"
    using assms(4) lookupNode_ents [of "disk w1" "disk w"] by (simp add: w1(3))
  then have "fst (run_state (openMapJSON (mj_path s) (mj_fsync s)) w1) = Inr (s\<lparr>mj_m := Some (fmupd i0 u0 m)\<rparr>)"
    using assms(1) w1(2) c marshalUsers_roundtrip [OF ok] by (simp add: openMapJSON_def sysReadFile_def run_syscall run_state_bind)
  then show ?thesis using r w1(1) by simp
qed

lemma mapJSON_unsynced_lost:
  assumes "faults w = (\<lambda>_. None)" "mj_m s = Some m" "parentDir (disk w) (mj_path s) = Inr ()" "lookupNode (disk w) (mj_path s) = Inr (FileN j)"
    and "\<not> mj_fsync s" "hyg (disk w)"
  shows "\<exists>s' w' k'. run_state (mapJSON_set i u s) w = (Some (None, s'), w') \<and> crashOf (disk w') k' \<and>
     fst (run_state (openMapJSON (mj_path s) False) (demoWorld k')) = Inl ErrJSON"
proof -
  obtain w1 where w1: "run_state (mapJSON_set i u s) w = (Some (None, s\<lparr>mj_m := Some (fmupd i u m)\<rparr>), w1)"
    "disk w1 = appendFile j (marshalUsers (fmupd i u m)) (setContent j [] [] (disk w))"
    by (rule mapJSON_set_run [OF assms(1-4), of i u]) (use assms(5) in simp)
  have "hyg (disk w1)" unfolding w1(2) appendFile_def by (intro hyg_setContent assms(6))
  moreover have "[] \<in> set (chist (disk w1) j)" by (simp add: w1(2) appendFile_def setContent_def)
  ultimately obtain k' where k: "crashOf (disk w1) k'" "ents k' = ents (disk w1)" "content k' j = []"
    using crash_to [of "disk w1" "[]" j] by auto
  have "lookupNode k' (mj_path s) = Inr (FileN j)"
    using assms(4) lookupNode_ents [of k' "disk w"] k(2) by (simp add: w1(2))
  moreover have "unmarshalUsers [] = Inl ErrJSON" by (simp add: unmarshalUsers_def compact_def scanFuel_def)
  ultimately have "fst (run_state (openMapJSON (mj_path s) False) (demoWorld k')) = Inl ErrJSON"
    using k(3) by (simp add: openMapJSON_def sysReadFile_def run_syscall run_state_bind demoWorld_def)
  then show ?thesis using w1(1) k(1) by blast
qed

subsection \<open>Reads and sizes\<close>

text \<open>
  Time passes, so the read phase ends: it makes a multiple of 64 reads and the sink is the sum of the
  ages that were found, modulo \<open>2 ^ 64\<close>.
\<close>

definition readAge :: "User option \<Rightarrow> 64 word" where
  "readAge r = (case r of None \<Rightarrow> 0 | Some u \<Rightarrow> word_of_int (Age u))"

lemma readLoop_step:
  "readLoop get pick late s n t =
     (if (n + 1) mod 64 = 0 \<and> late (n + 1) then Some (n + 1, t + readAge (get (pick n) s))
      else readLoop get pick late s (n + 1) (t + readAge (get (pick n) s)))"
  by (cases "get (pick n) s") (simp_all only: readLoop.simps [of get pick late s n t] readAge_def Let_def option.case add_0_right)

lemma readLoop_until:
  assumes "n < m" "m mod 64 = 0" "late m"
  shows "\<exists>k. readLoop get pick late s n t = Some (k, t + (\<Sum>j = n..<k. readAge (get (pick j) s))) \<and> n < k \<and> k mod 64 = 0"
  using assms
proof (induction "m - n" arbitrary: n t)
  case (Suc d)
  let ?a = "\<lambda>j. readAge (get (pick j) s)"
  show ?case
  proof (cases "(n + 1) mod 64 = 0 \<and> late (n + 1)")
    case True
    then have "readLoop get pick late s n t = Some (n + 1, t + ?a n)" by (subst readLoop_step) (simp only: if_True simp_thms)
    moreover have "sum ?a {n..<n + 1} = ?a n" by simp
    ultimately show ?thesis using True by (intro exI [of _ "n + 1"] conjI) (simp_all only: less_add_one)
  next
    case False
    then have "n + 1 \<noteq> m" using Suc.prems(2,3) by metis
    then have "n + 1 < m" "d = m - (n + 1)" using Suc.prems(1) Suc.hyps(2) by simp_all
    from Suc.hyps(1) [OF this(2,1) Suc.prems(2,3), of "t + ?a n"] obtain k where k: "readLoop get pick late s (n + 1) (t + ?a n) = Some (k, (t + ?a n) + sum ?a {n + 1..<k})"
      "n + 1 < k" "k mod 64 = 0" by (elim exE conjE)
    have "readLoop get pick late s n t = Some (k, (t + ?a n) + sum ?a {n + 1..<k})"
      by (subst readLoop_step) (simp only: False if_False k(1))
    moreover have "(t + ?a n) + sum ?a {n + 1..<k} = t + sum ?a {n..<k}"
      using k(2) by (simp only: add.assoc sum.atLeast_Suc_lessThan [of n k] Suc_eq_plus1)
    moreover have "n < k" using k(2) by simp
    ultimately show ?thesis using k(3) by (intro exI [of _ k] conjI) (simp_all only:)
  qed
qed simp

lemma readLoop_ends:
  assumes "\<forall>n \<ge> N. late n"
  shows "\<exists>k. readLoop get pick late s n t = Some (k, t + (\<Sum>j = n..<k. readAge (get (pick j) s))) \<and> n < k \<and> k mod 64 = 0"
proof -
  have "n < 64 * (N + n + 1)" "N \<le> 64 * (N + n + 1)" by simp_all
  then show ?thesis using readLoop_until [of n "64 * (N + n + 1)" late] assms by (metis mod_mult_self1_is_0)
qed

text \<open>Sizes that are printed are parsed again, and only positive sizes are accepted.\<close>

lemma sizesLoop_positive: "sizesLoop ps acc = Inr ns \<Longrightarrow> (\<forall>n \<in> set acc. 0 < n) \<Longrightarrow> (\<forall>n \<in> set ns. 0 < n) \<and> length ns = length ps + length acc"
  by (induction ps acc rule: sizesLoop.induct) (auto split: option.splits if_splits)

lemma splitComma_nonempty [simp]: "splitComma s \<noteq> []"
  by (cases s) (auto split: list.split)

lemma parseSizes_positive:
  assumes "parseSizes s = Inr ns"
  shows "ns \<noteq> []" "n \<in> set ns \<Longrightarrow> 0 < n"
proof -
  have "(\<forall>n \<in> set ns. 0 < n) \<and> length ns = length (splitComma s)"
    using sizesLoop_positive [of "splitComma s" "[]" ns] assms by (simp add: parseSizes_def)
  moreover have "0 < length (splitComma s)" by simp
  ultimately show "ns \<noteq> []" "n \<in> set ns \<Longrightarrow> 0 < n" by fastforce+
qed

lemma space_heads:
  assumes "w \<in> set spaceRunes \<union> set (map rev spaceRunes)" "w \<noteq> []"
  shows "byte (hd w) < 33 \<or> 127 < byte (hd w)"
proof -
  have "list_all (\<lambda>w. byte (hd w) < 33 \<or> 127 < byte (hd w)) (spaceRunes @ map rev spaceRunes)" by code_simp
  then show ?thesis using assms by (auto simp: list_all_iff)
qed

lemma trimLeft_digit:
  assumes "set ws \<subseteq> set spaceRunes \<union> set (map rev spaceRunes)" "s \<noteq> []" "48 \<le> byte (hd s)" "byte (hd s) \<le> 57"
  shows "trimLeft ws s = s"
proof -
  have "\<not> (w \<noteq> [] \<and> take (length w) s = w)" if "w \<in> set ws" for w
  proof
    assume w: "w \<noteq> [] \<and> take (length w) s = w"
    then have "hd w = hd s" by (cases w; cases s) auto
    then show False using space_heads [of w] that w assms by auto
  qed
  then have "find (\<lambda>w. w \<noteq> [] \<and> take (length w) s = w) ws = None" by (simp add: find_None_iff)
  then show ?thesis by (simp add: trimLeft.simps)
qed

lemma TrimSpace_natText [simp]: "TrimSpace (natText n) = natText n"
proof -
  have "trimLeft spaceRunes (natText n) = natText n" "trimLeft (map rev spaceRunes) (rev (natText n)) = rev (natText n)"
    using natText_digits [of _ n] hd_in_set [OF natText_nonempty [of n]] last_in_set [OF natText_nonempty [of n]]
    by (auto intro!: trimLeft_digit simp: hd_rev)
  then show ?thesis by (simp add: TrimSpace_def)
qed

lemma splitComma_append: "CHR '','' \<notin> set p \<Longrightarrow> splitComma (p @ CHR '','' # s) = p # splitComma s" "CHR '','' \<notin> set p \<Longrightarrow> splitComma p = [p]"
  by (induction p) auto

fun printSizes :: "nat list \<Rightarrow> string" where
  "printSizes [] = []"
| "printSizes [n] = natText n"
| "printSizes (n # m # ns) = natText n @ CHR '','' # printSizes (m # ns)"

lemma splitComma_print: "ns \<noteq> [] \<Longrightarrow> splitComma (printSizes ns) = map natText ns"
proof (induction ns rule: printSizes.induct)
  have c: "CHR '','' \<notin> set (natText n)" for n using natText_digits [of "CHR '',''" n] by auto
  { case (2 n) then show ?case by (simp add: splitComma_append c) }
  { case (3 n m ns) then show ?case by (simp add: splitComma_append c) }
qed simp

lemma sizesLoop_texts:
  "\<forall>n \<in> set ns. 0 < n \<and> n < 2 ^ 63 \<Longrightarrow> sizesLoop (map natText ns) acc = Inr (acc @ map int ns)"
proof (induction ns arbitrary: acc)
  case (Cons n ns)
  have "ParseInt (natText n) = Some (int n)" using ParseInt_intText [of "int n"] Cons.prems by (simp add: intText_def)
  then show ?case using Cons by simp
qed simp

lemma parseSizes_roundtrip:
  assumes "ns \<noteq> []" "\<forall>n \<in> set ns. 0 < n \<and> n < 2 ^ 63"
  shows "parseSizes (printSizes ns) = Inr (map int ns)"
  using assms by (simp add: parseSizes_def splitComma_print sizesLoop_texts)

subsection \<open>Properties\<close>

text \<open>
  C40: The benchmark counts the bytes MeDB appends.  Whenever a write of a document is accepted,
  \<open>walRecordBytes\<close>, computed with the benchmark's own copy of the record type and its tags, is
  exactly by how much the text of the batch grows that the worker appends to the log, in which the
  record is written with the library's type.
\<close>

theorem walRecordBytes_exact:
  assumes "coll_Set benchCodec benchColl i u d = (Inr c, d')"
  shows "\<exists>n. walRecordBytes i u = Inr n \<and> length (logBuf (pending d')) = length (logBuf (pending d)) + n"
proof -
  have mirror: "benchRecordText \<lparr>r_Op = ''set'', r_Coll = benchColl, r_ID = i, r_Doc = benchUserText u\<rparr> =
      marshalRecord \<lparr>Op = opSet, Coll = benchColl, ID = i, Doc = benchUserText u\<rparr>"
    by (simp add: benchRecordText_def marshalRecord_def recordFields_def opSet_def Let_def split: option.split)
  have w: "DB_write \<lparr>Op = opSet, Coll = benchColl, ID = i, Doc = benchUserText u\<rparr> d = (Inr c, d')"
    using assms by (auto simp: coll_Set_def benchCodec_def split: option.splits)
  then obtain b where b: "marshalRecord \<lparr>Op = opSet, Coll = benchColl, ID = i, Doc = benchUserText u\<rparr> = Inr b"
    "pending d' = pending d @ [b]"
    by (auto simp: DB_write_def enqueue_def Let_def applyRec_def split: sum.splits if_splits option.splits prod.splits)
  moreover have "benchRecordText \<lparr>r_Op = ''set'', r_Coll = benchColl, r_ID = i, r_Doc = benchUserText u\<rparr> = Inr b"
    using b(1) mirror by simp
  ultimately show ?thesis by (simp add: walRecordBytes_def Let_def logBuf_def)
qed

text \<open>Witness for C40: a document of the seed.\<close>

theorem walRecordBytes_exact_witness:
  "\<exists>c d' n. coll_Set benchCodec benchColl (seedID 3) \<lparr>Name = benchName 3, Age = 3\<rparr> (newDB [] defaultOptions 0) = (Inr c, d') \<and>
     walRecordBytes (seedID 3) \<lparr>Name = benchName 3, Age = 3\<rparr> = Inr n \<and> length (logBuf (pending d')) = n"
proof -
  let ?u = "\<lparr>Name = benchName 3, Age = 3\<rparr> :: User" and ?d = "newDB [] defaultOptions 0"
  have u: "userOK ?u" using benchUser_ok [of 3] by simp
  have "benchName 3 = ''user000003''" "intText 3 = ''3''"
    by (simp_all add: benchName_def padded_numeral intText_def natText.simps) (simp_all add: char_of_def bit_0)
  moreover have "plainText ''user000003''" by code_simp
  ultimately have "length (benchUserText ?u) \<le> 1000" by (simp add: benchUserText_def renderObject_def quote_plain)
  then have "int (length (benchUserText ?u)) \<le> maxDocSize (opts ?d)" by (simp add: newDB_def defaultOptions_def)
  moreover have e: "enc benchCodec ?u = Inr (benchUserText ?u)" "\<not> closed ?d" by (simp_all add: benchCodec_def newDB_def)
  ultimately obtain c d' where s: "coll_Set benchCodec benchColl (seedID 3) ?u ?d = (Inr c, d')"
    using bench.set_ok [OF u, of ?d "benchUserText ?u" benchColl "seedID 3"] e by blast
  have "logBuf (pending ?d) = []" by (simp add: newDB_def logBuf_def)
  then show ?thesis using walRecordBytes_exact [OF s] s by auto
qed

end
