(* ===== verification/Spec2Isabelle.thy ===== *)
theory Spec2Isabelle
  imports Promises Kill Locking Server_Run Release Http_Facts Auth_Init Auth_Types Limits Bench
begin

text \<open>
  MeDB is an embedded document database in Go, with an HTTP server on top.  This development models
  both and proves what their documentation promises: a write that returned is durable, whatever
  system call fails and whenever the power does; the directory can always be opened again; the
  server changes the database only as its caller is entitled to.

  \<^bold>\<open>The program.\<close>  The library (\<open>medb.go\<close>, \<open>collection.go\<close>, \<open>wal.go\<close>, \<open>snapshot.go\<close>)
  keeps every collection in memory as a map from IDs to JSON texts.  A client operation takes the
  mutex, applies one record to the maps, appends its JSON line to a buffer, joins the open commit
  and waits for it.  One worker goroutine writes the buffer to the log with one \<open>fsync\<close> per
  group of commits (\<open>writeLog\<close>); when the log is long or a ticker fires it writes the changed
  collections, each to a file of its own by rename, and empties the log (\<open>writeSnapshot\<close>).
  \<open>Open\<close> locks the directory, loads the snapshots, replays the log up to the first incomplete
  line and writes a fresh snapshot.  \<open>internal/fsutil\<close> holds the durable file operations,
  \<open>internal/lock\<close> the lock.  The server (\<open>cmd/medb\<close>) decodes requests
  (\<open>protocol.go\<close>), authenticates them against records it keeps in three reserved
  collections (\<open>auth.go\<close>), answers them (\<open>handlers.go\<close>, \<open>server.go\<close>) and is configured
  from flags and environment (\<open>config.go\<close>, \<open>main.go\<close>).

  \<^bold>\<open>The model of the library.\<close>

  \<^item> Prelude: byte strings, finite maps with Go's default value (\<open>fmget\<close>), generic lemmas.
    A Go string and a byte slice are both a list of 8-bit characters.
  \<^item> Names: \<open>validName\<close> and its copy \<open>validCollectionName\<close> in the server, \<open>collPath\<close>,
    \<open>reservedCollection\<close>; the check is compared with the regular expression that
    \<open>fuzz_test.go\<close> keeps as its reference.
  \<^item> Store: the record type and \<open>DB.apply\<close> (\<open>applyRec\<close>).  The locale \<open>lww_log\<close> is a
    log whose records overwrite cells; replaying a segment of such a log over a later state is
    studied there and applies to the store by interpretation.
  \<^item> Utf8, Json, Codec: the parts of \<open>unicode/utf8\<close> and \<open>encoding/json\<close> the program
    runs through, on bytes: scanner with the nesting limit of 10000, compaction with HTML escaping,
    quoting and unquoting, case-folded field names, then the two documents of the storage layer.
    Json_Facts, Json_Scan, Json_Value, Json_Compact, Json_Local and Unquote hold their theory:
    compact text scans to itself, holds no line break, is local, and decodes to what was encoded.
  \<^item> Fs: the disk and the system calls, \<open>fsutil.go\<close> and \<open>lock_unix.go\<close>.  A disk has
    current entries and contents and, for every directory and file, the list of states since its
    last sync.  Each system call may fail, a write after any prefix (\<open>faults\<close>, a function of
    the number of the call).
  \<^item> Crash: \<open>crashOf k k'\<close>, the disks a power loss may leave: every directory and every file
    comes back, independently, in some state since its last sync.
  \<^item> Wal, Snapshot, Db: \<open>wal.go\<close>, \<open>snapshot.go\<close> and \<open>medb.go\<close>, function by function.
    The record \<open>db\<close> is the struct \<open>DB\<close>; a client's critical section and one iteration of
    the worker's \<open>select\<close> are functions on it.  A commit is a number, its channel the map
    \<open>results\<close>.
  \<^item> Collection: \<open>collection.go\<close>, over a \<open>codec\<close> for the document type.  \<open>coll_Set\<close> and
    \<open>coll_Delete\<close> go up to the wait for the commit; \<open>Set_wait\<close> and \<open>Delete_wait\<close> are the
    whole operations, whose storage error comes when memory has changed already.  The locale
    \<open>doc_codec\<close> is the contract of a document type; it is interpreted for raw documents here and
    for users, tokens and the state marker in Auth_Facts.
  \<^item> System: \<open>db_step\<close>, clients and worker interleaved in any order; a client may run
    between the two halves of a worker iteration, the write of the log (\<open>runLog\<close>) and the
    snapshot that may follow it.

  \<^bold>\<open>What is proved about it.\<close>  Hoare_Io has Hoare triples for programs over the file system, with
  and without faults; Fsutil_Facts, Layout, Snapshot_Facts, Wal_Facts, Recovery, Durability,
  Open_Facts and Reopen build on them, for storable records, the relation between a history of accepted records and every
  disk a power loss may leave, and show that \<open>Open\<close> reads back a prefix of the history that
  covers every acknowledged record.  Guarantees closes this over the life of a directory
  (\<open>poweredOff\<close>: any number of openings, runs and power losses, with the set of all records
  written in them) and Promises states the result: durability, that opening succeeds when no call fails, that recovery can be interrupted,
  that a clean \<open>Close\<close> loses nothing, that no writer waits for ever, and that the first storage
  error is final.  Kill carries durability over to a process that is killed while the machine runs on:
  no program can see what is not synced yet, so a killed run looks like one before a power loss that
  loses nothing (\<open>blind\<close>, \<open>killedOff\<close>).  Locking and Worker follow the lock and the results through every path.

  \<^bold>\<open>The model of the server.\<close>

  \<^item> Strconv, Timestamp, Credential: integers, RFC 3339 timestamps of the years 0 to 9999, bearer
    tokens with base64url and SHA-256, the last on 32-bit words.
  \<^item> Auth: the records of \<open>auth.go\<close>, their JSON and validation, \<open>authenticate\<close>, the
    loops that draw identifiers, \<open>initializeAuth\<close>, \<open>recoverAuth\<close>.
  \<^item> Config: \<open>config.go\<close> with the flag parser of the standard library.
  \<^item> Protocol: \<open>protocol.go\<close>, the decoding of request bodies and the failures; the arithmetic
    of \<open>parseHex4\<close> is on 16-bit words.
  \<^item> Handlers, Server: one function per handler, from the request and the server's state to the
    response and the next state; routing, the response writer, \<open>serve\<close>, \<open>run\<close>.

  \<^bold>\<open>What is proved about it.\<close>  Protocol_Facts: what a decoded request guarantees.  Auth_Facts: the
  records survive their encoding.  Handlers_Facts, Server_Facts: a request changes the database by
  at most one well-formed record its caller may write; without a credential nothing can be learned
  or changed below \<open>/v1/\<close>.  Isolation: the data endpoints answer as if the reserved collections
  did not exist, and never change them.  Auth_Life, Auth_Setup, Auth_Init, Auth_Types: issued,
  revoked and changed credentials, the first start and its resumption, exactly when the loops that
  draw identifiers end, the type of the stored records.  Nothing is assumed there of the order of
  clock readings: a clock that goes back behind the creation of a user is a case of the properties.  Http_Facts: reading back through the API, and the latch after a storage failure.
  Answers: a response with a success status means that the commit the handler waited for was
  reported as stored.  Server_Run: a session of the server is a run of \<open>db_step\<close>, so what it
  answered with success is durable.  Release: whichever way the process ends, it leaves no lock.

  \<^bold>\<open>Bounds and fuel.\<close>  \<open>scanValue\<close> has a fuel of twice the input's length plus two
  (\<open>scanFuel\<close>); every value consumes input, and Json_Compact shows that more fuel does not
  change the result.  A storable document nests at most 9999 levels, one less than the decoder's limit,
  because the record adds a level.  The loops \<open>uniqueUserID\<close> and
  \<open>uniqueToken\<close> may run for ever with a bad random source and are partial functions; they end
  exactly when a draw is not in use.  The read phase of the benchmark lasts as long as its clock
  says and is a partial function, too.  All other recursion is total.

  \<^bold>\<open>Assumptions.\<close>  Faults are any error but \<open>ENOENT\<close> for an existing file and the errors by
  which a file system says it cannot sync directories (\<open>okFault\<close>).  The code accepts records it
  cannot store, and so does \<open>db_step\<close>; the properties about recovery have as a hypothesis that
  every record written to the directory is \<open>storable\<close>: its ID is valid UTF-8, its document nests
  at most 9999 levels (\<open>recOK\<close>), and its collection is not below \<open>lock/\<close> (\<open>okName\<close>).
  Limits shows what happens otherwise.  What a handler learns from waiting for its commit is an
  argument (\<open>ce_outcome\<close>); \<open>succeeded\<close> ties it to the worker's answer.  Times come from a clock
  function; where a record must validate the clock shows a year from 0 to 9999.  Random bytes,
  \<open>time.ParseDuration\<close>, the results of \<open>filepath.Abs\<close> (\<open>OpenDir\<close>) and of writing to the
  standard output are arguments.

  \<^bold>\<open>The benchmark.\<close>  Bench models the stores \<open>bench/main.go\<close> compares, a map rewritten to a JSON
  file and MeDB, behind their common interface (locale \<open>doc_store\<close>), its sizes and the sequential
  phases of a case: writes replace documents only, the read phase ends, the size it computes for a
  log line with its own copy of the record type is exact, and without \<open>fsync\<close> the rewritten file
  can lose everything.

  \<^bold>\<open>Not modelled.\<close>  The measurements of the benchmark: clocks, floating-point statistics, the
  parallel phase, flags and printing.
  \<open>net/http\<close>, sockets, timeouts and signals are inputs of \<open>serve\<close>: a list of requests and
  worker iterations, the reason to stop, the requests that drain.  Requests run one after the other;
  a handler calls the library as a whole, while \<open>db_step\<close> interleaves the clients of the library
  at every critical section.  The media type of a request arrives parsed.  Log messages are left out.
  A life of a directory has its power losses before its kills: after a kill, reopening and then a
  power loss the guarantee has an exception, because \<open>removeColl\<close> does not sync a directory from
  which the killed process had already removed the file.

  Limits collects what the code does where a promise has an exception.
\<close>

end
